(* ===== verification/Prelude.thy ===== *)
theory Prelude
  imports Main "HOL-Library.Word"
begin

text \<open>
  Shared by every component: the machine types, the values that stand for C++ exceptions and
  for undefined behaviour, sequencing of fallible computations, bounds-checked reads of a byte
  buffer, and the list lemmas used by the component theories.

  A C++ function that may throw, or that may leave the defined behaviour of the language,
  returns a value of \<open>'a res\<close>: \<open>Inr v\<close> when it returns \<open>v\<close>, \<open>Inl e\<close> otherwise. A thrown
  exception is one of the constructors named after its C++ class, carrying its message; an access
  outside an object is \<open>Undefined\<close> with the kind of access.
\<close>

section \<open>Machine types\<close>

type_synonym u8 = "8 word"
type_synonym u16 = "16 word"
type_synonym u32 = "32 word"
type_synonym u64 = "64 word"

text \<open>A byte buffer and a pointer into it, as an offset from its first byte.\<close>

type_synonym buffer = "u8 list"
type_synonym ptr = nat

lemma unat_bound: "unat (w :: 'a::len word) < 2 ^ LENGTH('a)"
  by (fact unsigned_less)

text \<open>Widening an unsigned value keeps it.\<close>

lemma unat_ucast_widen:
  assumes "LENGTH('a) \<le> LENGTH('b)"
  shows "unat (ucast (x :: 'a::len word) :: 'b::len word) = unat x"
proof -
  have "(2::nat) ^ LENGTH('a) \<le> 2 ^ LENGTH('b)"
    using assms by (simp add: power_increasing)
  with unat_bound [of x] have "unat x < 2 ^ LENGTH('b)"
    by (rule less_le_trans)
  then show ?thesis
    by (simp add: unsigned_ucast_eq take_bit_nat_eq_self)
qed

lemma unat_widen [simp]:
  "unat (ucast (x :: u8) :: u16) = unat x"
  "unat (ucast (x :: u8) :: u32) = unat x"
  "unat (ucast (y :: u16) :: u32) = unat y"
  by (simp_all add: unat_ucast_widen)

lemma ucast_u16_of_nat: "ucast (word_of_nat n :: u32) = (word_of_nat n :: u16)"
proof -
  have "unat (ucast (word_of_nat n :: u32) :: u16) = unat (word_of_nat n :: u16)"
    by (simp add: unsigned_ucast_eq take_bit_eq_mod unat_of_nat mod_mod_cancel)
  then show ?thesis by (simp only: word_unat_eq_iff)
qed

section \<open>Exceptions and undefined behaviour\<close>

datatype ub =
    ReadOutOfBounds     \<comment> \<open>a load outside the buffer or the object\<close>
  | WriteOutOfBounds    \<comment> \<open>a store outside the vector\<close>
  | ArrayIndex          \<comment> \<open>\<open>operator[]\<close> of \<open>std::array\<close> past its end\<close>
  | SignedOverflow      \<comment> \<open>\<open>int\<close> arithmetic that does not fit 32 bits\<close>

datatype exn =
    OutOfRange string        \<comment> \<open>\<open>std::out_of_range\<close>\<close>
  | InvalidArgument string   \<comment> \<open>\<open>std::invalid_argument\<close>\<close>
  | RuntimeError string      \<comment> \<open>\<open>std::runtime_error\<close>\<close>
  | SystemError string       \<comment> \<open>\<open>boost::system::system_error\<close>\<close>
  | ParameterType string     \<comment> \<open>the parameter type exceptions of \<open>rclcpp\<close>\<close>
  | Undefined ub             \<comment> \<open>no C++ behaviour is defined from here on\<close>

type_synonym 'a res = "exn + 'a"

named_theorems res_simps \<open>inversion of sequenced computations that return\<close>

fun ebind :: "'a res \<Rightarrow> ('a \<Rightarrow> 'b res) \<Rightarrow> 'b res" where
  "ebind (Inl e) f = Inl e"
| "ebind (Inr x) f = f x"

lemma ebind_eq_Inr [res_simps]: "ebind m f = Inr y \<longleftrightarrow> (\<exists>x. m = Inr x \<and> f x = Inr y)"
  by (cases m) auto

lemma ebind_eq_Inl [res_simps]:
  "ebind m f = Inl e \<longleftrightarrow> m = Inl e \<or> (\<exists>x. m = Inr x \<and> f x = Inl e)"
  by (cases m) auto

lemma ebind_assoc: "ebind (ebind m f) g = ebind m (\<lambda>x. ebind (f x) g)"
  by (cases m) auto

lemma ebind_cong [fundef_cong]:
  "m = m' \<Longrightarrow> (\<And>x. m' = Inr x \<Longrightarrow> f x = f' x) \<Longrightarrow> ebind m f = ebind m' f'"
  by (cases m') auto

lemma ebind_Inr_right [simp]: "ebind m Inr = m"
  by (cases m) auto

text \<open>Evaluating the elements of a list in order, and a loop over a list with a loop state.\<close>

fun emap :: "('a \<Rightarrow> 'b res) \<Rightarrow> 'a list \<Rightarrow> 'b list res" where
  "emap f [] = Inr []"
| "emap f (x # xs) = ebind (f x) (\<lambda>y. ebind (emap f xs) (\<lambda>ys. Inr (y # ys)))"

fun efold :: "('a \<Rightarrow> 's \<Rightarrow> 's res) \<Rightarrow> 'a list \<Rightarrow> 's \<Rightarrow> 's res" where
  "efold f [] s = Inr s"
| "efold f (x # xs) s = ebind (f x s) (efold f xs)"

lemma emap_Inr_iff:
  "emap f xs = Inr ys \<longleftrightarrow> list_all2 (\<lambda>x y. f x = Inr y) xs ys"
  by (induction xs arbitrary: ys) (auto simp: res_simps list_all2_Cons1)

lemma emap_length: "emap f xs = Inr ys \<Longrightarrow> length ys = length xs"
  by (auto simp: emap_Inr_iff dest: list_all2_lengthD)

lemma emap_nth: "emap f xs = Inr ys \<Longrightarrow> i < length xs \<Longrightarrow> f (xs ! i) = Inr (ys ! i)"
  by (auto simp: emap_Inr_iff dest: list_all2_nthD)

lemma emap_total: "(\<And>x. x \<in> set xs \<Longrightarrow> f x = Inr (g x)) \<Longrightarrow> emap f xs = Inr (map g xs)"
  by (induction xs) auto

lemma emap_cong [fundef_cong]:
  "xs = ys \<Longrightarrow> (\<And>x. x \<in> set ys \<Longrightarrow> f x = g x) \<Longrightarrow> emap f xs = emap g ys"
  by (induction xs arbitrary: ys) auto

lemma efold_append: "efold f (xs @ ys) s = ebind (efold f xs s) (efold f ys)"
  by (induction xs arbitrary: s) (simp_all add: ebind_assoc cong: ebind_cong)

text \<open>The loop rule: an invariant indexed by the elements already processed.\<close>

lemma efold_upt_invariant:
  assumes "efold f [0..<n] s = Inr t" and "P 0 s"
    and "\<And>i a b. i < n \<Longrightarrow> P i a \<Longrightarrow> f i a = Inr b \<Longrightarrow> P (Suc i) b"
  shows "P n t"
  using assms
proof (induction n arbitrary: t)
  case 0
  then show ?case by simp
next
  case (Suc n)
  then obtain u where "efold f [0..<n] s = Inr u" and step: "f n u = Inr t"
    by (auto simp: efold_append res_simps)
  with Suc have "P n u" by simp
  with step Suc.prems(3) show ?case by blast
qed

lemma efold_range_total:
  assumes "lo \<le> hi" and "P lo s"
    and "\<And>i a. lo \<le> i \<Longrightarrow> i < hi \<Longrightarrow> P i a \<Longrightarrow> \<exists>b. f i a = Inr b \<and> P (Suc i) b"
  shows "\<exists>t. efold f [lo..<hi] s = Inr t \<and> P hi t"
  using assms
proof (induction hi rule: dec_induct)
  case base
  then show ?case by simp
next
  case (step hi)
  then obtain u where "efold f [lo..<hi] s = Inr u" "P hi u"
    by fastforce
  with step.prems(2) [of hi u] step.hyps show ?case
    by (auto simp: efold_append)
qed

section \<open>Reading a buffer\<close>

text \<open>\<open>rd buf p n\<close> loads the \<open>n\<close> bytes at offset \<open>p\<close>: undefined past the end of the buffer.\<close>

definition rd :: "buffer \<Rightarrow> ptr \<Rightarrow> nat \<Rightarrow> u8 list res" where
  "rd buf p n = (if p + n \<le> length buf then Inr (take n (drop p buf))
                 else Inl (Undefined ReadOutOfBounds))"

lemma rd_eq_Inr [res_simps]:
  "rd buf p n = Inr bs \<longleftrightarrow> p + n \<le> length buf \<and> bs = take n (drop p buf)"
  by (auto simp: rd_def)

lemma rd_length: "rd buf p n = Inr bs \<Longrightarrow> length bs = n"
  by (auto simp: res_simps)

text \<open>Reading back what was laid out: the bytes before, the bytes read, the bytes after.\<close>

lemma rd_append: "p = length xs \<Longrightarrow> n = length ys \<Longrightarrow> rd (xs @ ys @ zs) p n = Inr ys"
  by (simp add: rd_def)

lemma rd_append_off:
  "q + n \<le> length ys \<Longrightarrow> rd (xs @ ys @ zs) (length xs + q) n = Inr (take n (drop q ys))"
  by (simp add: rd_def)

section \<open>Signed 32-bit results\<close>

text \<open>Arithmetic on \<open>int\<close> is computed exactly and is undefined when the result does not fit.\<close>

definition fits_int :: "int \<Rightarrow> bool" where
  "fits_int i \<longleftrightarrow> - (2 ^ 31) \<le> i \<and> i < 2 ^ 31"

definition int_result :: "int \<Rightarrow> int res" where
  "int_result i = (if fits_int i then Inr i else Inl (Undefined SignedOverflow))"

lemma int_result_Inr [res_simps]: "int_result i = Inr j \<longleftrightarrow> fits_int i \<and> j = i"
  by (auto simp: int_result_def)

section \<open>Vectors\<close>

text \<open>\<open>std::vector::resize\<close>: keeps the common prefix and value-initialises the rest.\<close>

definition vec_resize :: "nat \<Rightarrow> 'a \<Rightarrow> 'a list \<Rightarrow> 'a list" where
  "vec_resize n d xs = take n xs @ replicate (n - length xs) d"

lemma length_vec_resize [simp]: "length (vec_resize n d xs) = n"
  by (simp add: vec_resize_def)

lemma vec_resize_same [simp]: "length xs = n \<Longrightarrow> vec_resize n d xs = xs"
  by (simp add: vec_resize_def)

text \<open>One step of a loop that overwrites a vector from the front.\<close>

lemma update_prefix:
  "i < length xs \<Longrightarrow> (map f [0..<i] @ drop i xs)[i := f i] = map f [0..<i] @ f i # drop (Suc i) xs"
  by (simp add: list_update_append flip: Cons_nth_drop_Suc)

section \<open>Strings\<close>

text \<open>\<open>c_str()\<close>: what a C function sees of a \<open>std::string\<close>.\<close>

definition c_str :: "string \<Rightarrow> string" where
  "c_str s = takeWhile (\<lambda>c. c \<noteq> CHR 0x00) s"

lemma c_str_id: "CHR 0x00 \<notin> set s \<Longrightarrow> c_str s = s"
  unfolding c_str_def by (rule takeWhile_eq_all_conv [THEN iffD2]) auto

section \<open>Lists of chunks\<close>

lemma replicate_4: "replicate 4 x = [x, x, x, x]"
  by (simp add: numeral_eq_Suc)

lemma length_concat_const:
  "(\<And>x. x \<in> set xs \<Longrightarrow> length (f x) = w) \<Longrightarrow> length (concat (map f xs)) = length xs * w"
  by (induction xs) auto

lemma drop_concat_const:
  assumes "\<And>x. x \<in> set xs \<Longrightarrow> length (f x) = w" and "i \<le> length xs"
  shows "drop (i * w) (concat (map f xs)) = concat (map f (drop i xs))"
  using assms
proof (induction xs arbitrary: i)
  case Nil
  then show ?case by simp
next
  case (Cons x xs)
  then show ?case
    by (cases i) (auto simp: add.commute)
qed

lemma take_drop_concat_const:
  assumes "\<And>x. x \<in> set xs \<Longrightarrow> length (f x) = w" and "i < length xs"
  shows "take w (drop (i * w) (concat (map f xs))) = f (xs ! i)"
proof -
  have "drop (i * w) (concat (map f xs)) = concat (map f (drop i xs))"
    using assms by (intro drop_concat_const) auto
  also have "drop i xs = xs ! i # drop (Suc i) xs"
    using assms(2) by (simp add: Cons_nth_drop_Suc)
  finally show ?thesis
    using assms by simp
qed

end
