(* ===== verification/Primitives.thy ===== *)
theory Primitives
  imports Prelude
begin

text \<open>
  \<open>sections/primatives.hpp\<close>: the byte-reversing \<open>revPrimitive\<close> and the \<open>BigEndianPrimative\<close>
  wrapper with its \<open>get\<close> and \<open>set\<close>, over the memory image of an integer on the little-endian
  host the driver runs on. A \<open>float\<close> is its bit pattern, a word of the same size. The interface
  \<open>be_codec\<close> is what the packet structures rely on: fixed width and decoding after encoding.
\<close>

section \<open>The memory image of an integer\<close>

text \<open>The \<open>n\<close> low-order bytes of a number, least significant first, and back.\<close>

fun nat_bytes :: "nat \<Rightarrow> nat \<Rightarrow> u8 list" where
  "nat_bytes 0 x = []"
| "nat_bytes (Suc n) x = word_of_nat x # nat_bytes n (x div 256)"

fun bytes_nat :: "u8 list \<Rightarrow> nat" where
  "bytes_nat [] = 0"
| "bytes_nat (b # bs) = unat b + 256 * bytes_nat bs"

lemma length_nat_bytes [simp]: "length (nat_bytes n x) = n"
  by (induction n arbitrary: x) auto

lemma unat_of_nat_u8: "unat (word_of_nat x :: u8) = x mod 256"
  by (simp add: unat_of_nat)

lemma bytes_nat_bytes: "bytes_nat (nat_bytes n x) = x mod 256 ^ n"
proof (induction n arbitrary: x)
  case 0
  then show ?case by simp
next
  case (Suc n)
  then show ?case
    by (simp add: unat_of_nat_u8 mod_mult2_eq)
qed

lemma bytes_nat_less: "bytes_nat bs < 256 ^ length bs"
proof (induction bs)
  case Nil
  then show ?case by simp
next
  case (Cons b bs)
  have "unat b < 256"
    using unat_bound [of b] by simp
  with Cons show ?case by simp
qed

lemma nat_bytes_nat: "length bs = n \<Longrightarrow> nat_bytes n (bytes_nat bs) = bs"
proof (induction bs arbitrary: n)
  case Nil
  then show ?case by simp
next
  case (Cons b bs)
  have b: "unat b < 256"
    using unat_bound [of b] by simp
  then have "(unat b + 256 * bytes_nat bs) div 256 = bytes_nat bs"
    by simp
  moreover have "(word_of_nat (unat b + 256 * bytes_nat bs) :: u8) = b"
  proof -
    have "unat (word_of_nat (unat b + 256 * bytes_nat bs) :: u8) = unat b"
      using b by (simp only: unat_of_nat_u8) simp
    then show ?thesis by (simp only: word_unat_eq_iff)
  qed
  ultimately show ?case
    using Cons by auto
qed

definition sizeof :: "'a::len word itself \<Rightarrow> nat" where
  "sizeof T = LENGTH('a) div 8"

definition to_mem :: "'a::len word \<Rightarrow> u8 list" where
  "to_mem w = nat_bytes (LENGTH('a) div 8) (unat w)"

definition of_mem :: "u8 list \<Rightarrow> 'a::len word" where
  "of_mem bs = word_of_nat (bytes_nat bs)"

lemma length_to_mem [simp]: "length (to_mem (w :: 'a::len word)) = LENGTH('a) div 8"
  by (simp add: to_mem_def)

lemma pow_256_div_8: "8 dvd n \<Longrightarrow> 256 ^ (n div 8) = (2::nat) ^ n"
proof -
  assume "8 dvd n"
  then have "(2::nat) ^ n = (2 ^ 8) ^ (n div 8)"
    by (metis dvd_mult_div_cancel power_mult)
  then show ?thesis by simp
qed

lemma of_to_mem [simp]:
  assumes "8 dvd LENGTH('a::len)"
  shows "of_mem (to_mem w) = (w :: 'a word)"
proof -
  have "unat w < 256 ^ (LENGTH('a) div 8)"
    using unat_bound [of w] assms by (simp add: pow_256_div_8)
  then show ?thesis
    by (simp add: of_mem_def to_mem_def bytes_nat_bytes)
qed

lemma to_of_mem:
  assumes "8 dvd LENGTH('a::len)" and "length bs = LENGTH('a) div 8"
  shows "to_mem (of_mem bs :: 'a word) = bs"
proof -
  have "bytes_nat bs < 2 ^ LENGTH('a)"
    using bytes_nat_less [of bs] assms by (simp add: pow_256_div_8)
  then have "unat (of_mem bs :: 'a word) = bytes_nat bs"
    by (simp add: of_mem_def unat_of_nat)
  then show ?thesis
    using assms by (simp add: to_mem_def nat_bytes_nat)
qed

lemma unat_of_mem:
  assumes "8 dvd LENGTH('a::len)" and "length bs = LENGTH('a) div 8"
  shows "unat (of_mem bs :: 'a word) = bytes_nat bs"
  using bytes_nat_less [of bs] assms
  by (simp add: of_mem_def unat_of_nat pow_256_div_8)

section \<open>\<open>revPrimitive\<close> and \<open>BigEndianPrimative\<close>\<close>

text \<open>
  \<open>revPrimitive\<close> copies the bytes of the source union into the destination union, the
  \<open>k\<close>-th from the \<open>(sizeof(T) - k - 1)\<close>-th.
\<close>

definition revPrimitive :: "'a::len word \<Rightarrow> 'a word" where
  "revPrimitive u =
     (let source = to_mem u; n = LENGTH('a) div 8
      in of_mem (map (\<lambda>k. source ! (n - k - 1)) [0..<n]))"

lemma map_nth_rev: "n = length xs \<Longrightarrow> map (\<lambda>k. xs ! (n - k - 1)) [0..<n] = rev xs"
  by (rule nth_equalityI) (auto simp: rev_nth)

lemma revPrimitive_mem: "revPrimitive (u :: 'a::len word) = of_mem (rev (to_mem u))"
  by (simp only: revPrimitive_def Let_def map_nth_rev length_to_mem)

lemma to_mem_revPrimitive:
  "8 dvd LENGTH('a::len) \<Longrightarrow> to_mem (revPrimitive (u :: 'a word)) = rev (to_mem u)"
  by (simp add: revPrimitive_mem to_of_mem)

lemma revPrimitive_involution:
  "8 dvd LENGTH('a::len) \<Longrightarrow> revPrimitive (revPrimitive (u :: 'a word)) = u"
  by (metis of_to_mem revPrimitive_mem rev_rev_ident to_mem_revPrimitive)

text \<open>The struct holds the value as it lies in memory.\<close>

datatype 'a BigEndianPrimative = BE (raw: 'a)

definition get :: "'a::len word BigEndianPrimative \<Rightarrow> 'a word" where
  "get x = revPrimitive (raw x)"

definition set_be :: "'a::len word \<Rightarrow> 'a word BigEndianPrimative" where
  "set_be v = BE (revPrimitive v)"

text \<open>
  The assignment operator from another arithmetic type converts to the wrapped type first: an
  integer is reduced modulo the width.
\<close>

definition assign_int :: "int \<Rightarrow> 'a::len word BigEndianPrimative" where
  "assign_int i = set_be (word_of_int i)"

type_synonym BE_u8 = "u8 BigEndianPrimative"
type_synonym BE_u16 = "u16 BigEndianPrimative"
type_synonym BE_u32 = "u32 BigEndianPrimative"
type_synonym BE_s16 = "u16 BigEndianPrimative"
type_synonym BE_f32 = "u32 BigEndianPrimative"

text \<open>The bytes a wrapped value occupies, and the value found in given bytes.\<close>

definition be_mem :: "'a::len word BigEndianPrimative \<Rightarrow> u8 list" where
  "be_mem x = to_mem (raw x)"

definition be_of_mem :: "u8 list \<Rightarrow> 'a::len word BigEndianPrimative" where
  "be_of_mem bs = BE (of_mem bs)"

text \<open>Reading a wrapped value through a pointer, and a field of a structure's image.\<close>

definition load_be :: "buffer \<Rightarrow> ptr \<Rightarrow> 'a::len word BigEndianPrimative res" where
  "load_be buf p = ebind (rd buf p (LENGTH('a) div 8)) (\<lambda>bs. Inr (be_of_mem bs))"

definition field_be :: "u8 list \<Rightarrow> nat \<Rightarrow> 'a::len word BigEndianPrimative" where
  "field_be bs off = be_of_mem (take (LENGTH('a) div 8) (drop off bs))"

lemma length_be_mem [simp]: "length (be_mem (x :: 'a::len word BigEndianPrimative)) = LENGTH('a) div 8"
  by (simp add: be_mem_def)

lemma get_set_be [simp]: "8 dvd LENGTH('a::len) \<Longrightarrow> get (set_be (v :: 'a word)) = v"
  by (simp add: get_def set_be_def revPrimitive_involution)

lemma set_get_be: "8 dvd LENGTH('a::len) \<Longrightarrow> set_be (get (x :: 'a word BigEndianPrimative)) = x"
  by (cases x) (simp add: get_def set_be_def revPrimitive_involution)

lemma be_of_be_mem [simp]:
  "8 dvd LENGTH('a::len) \<Longrightarrow> be_of_mem (be_mem x) = (x :: 'a word BigEndianPrimative)"
  by (cases x) (simp add: be_of_mem_def be_mem_def)

lemma be_mem_of_mem:
  "8 dvd LENGTH('a::len) \<Longrightarrow> length bs = LENGTH('a) div 8 \<Longrightarrow>
   be_mem (be_of_mem bs :: 'a word BigEndianPrimative) = bs"
  by (simp add: be_of_mem_def be_mem_def to_of_mem)

text \<open>
  The bytes of a wrapped value are the value's bytes most significant first, and reading a
  wrapped value reads a big-endian number.
\<close>

lemma be_mem_set_be:
  "8 dvd LENGTH('a::len) \<Longrightarrow> be_mem (set_be (v :: 'a word)) = rev (to_mem v)"
  by (simp add: be_mem_def set_be_def to_mem_revPrimitive)

lemma unat_get_of_mem:
  assumes "8 dvd LENGTH('a::len)" and "length bs = LENGTH('a) div 8"
  shows "unat (get (be_of_mem bs :: 'a word BigEndianPrimative)) = bytes_nat (rev bs)"
  using assms
  by (simp add: get_def be_of_mem_def revPrimitive_mem to_of_mem unat_of_mem)

lemma get_of_mem:
  assumes "8 dvd LENGTH('a::len)" and "length bs = LENGTH('a) div 8"
  shows "get (be_of_mem bs :: 'a word BigEndianPrimative) = of_mem (rev bs)"
  using assms
  by (simp add: get_def be_of_mem_def revPrimitive_mem to_of_mem)

lemma load_be_eq_Inr [res_simps]:
  "load_be buf p = Inr (x :: 'a::len word BigEndianPrimative) \<longleftrightarrow>
   p + LENGTH('a) div 8 \<le> length buf \<and> x = field_be buf p"
  by (auto simp: load_be_def res_simps field_be_def)

text \<open>A field of bytes that were read as a block.\<close>

lemma load_be_within:
  assumes "rd buf p n = Inr d" and "off + LENGTH('a) div 8 \<le> n"
  shows "load_be buf (p + off) = Inr (field_be d off :: 'a::len word BigEndianPrimative)"
  using assms by (auto simp: res_simps field_be_def drop_take min_def add.commute)

lemma field_be_append:
  assumes "8 dvd LENGTH('a::len)" and "off = length xs"
  shows "field_be (xs @ be_mem (x :: 'a word BigEndianPrimative) @ ys) off = x"
  using assms by (simp add: field_be_def)

subsection \<open>Evaluating concrete bytes\<close>

lemma nat_bytes_eval:
  "nat_bytes 1 x = [word_of_nat x]"
  "nat_bytes 2 x = [word_of_nat x, word_of_nat (x div 256)]"
  "nat_bytes 4 x = [word_of_nat x, word_of_nat (x div 256), word_of_nat (x div 65536),
     word_of_nat (x div 16777216)]"
proof -
  have two: "nat_bytes (Suc (Suc n)) x =
      word_of_nat x # word_of_nat (x div 256) # nat_bytes n (x div 65536)" for n x
    by (simp add: div_mult2_eq [symmetric])
  show "nat_bytes 1 x = [word_of_nat x]" by simp
  show "nat_bytes 2 x = [word_of_nat x, word_of_nat (x div 256)]"
    by (simp add: numeral_2_eq_2)
  have "(4::nat) = Suc (Suc (Suc (Suc 0)))" by simp
  moreover have "x div 65536 div 256 = x div 16777216"
    by (simp add: div_mult2_eq [symmetric])
  ultimately show "nat_bytes 4 x = [word_of_nat x, word_of_nat (x div 256),
      word_of_nat (x div 65536), word_of_nat (x div 16777216)]"
    by (simp only: two nat_bytes.simps(1))
qed

lemma of_mem_eval:
  "of_mem [a] = ucast a"
  "of_mem [a, b] = ucast a + 256 * ucast b"
  "of_mem [a, b, c, d] = ucast a + 256 * ucast b + 65536 * ucast c + 16777216 * ucast d"
  by (simp_all add: of_mem_def distrib_left)

lemma get_mem_eval:
  "get (be_of_mem [a] :: BE_u8) = of_mem [a]"
  "get (be_of_mem [a, b] :: BE_u16) = of_mem [b, a]"
  "get (be_of_mem [a, b, c, d] :: BE_u32) = of_mem [d, c, b, a]"
  by (subst get_of_mem; simp)+

lemma be_mem_eval:
  "be_mem (set_be (v :: u8)) = rev (nat_bytes 1 (unat v))"
  "be_mem (set_be (w :: u16)) = rev (nat_bytes 2 (unat w))"
  "be_mem (set_be (x :: u32)) = rev (nat_bytes 4 (unat x))"
  by (simp_all add: be_mem_set_be to_mem_def)

lemmas mem_eval = nat_bytes_eval of_mem_eval get_mem_eval be_mem_eval

section \<open>Fixed-width codecs\<close>

text \<open>
  What a structure relies on for each of its fields and arrays: every value occupies the same
  number of bytes, and decoding those bytes gives the value back.
\<close>

locale be_codec =
  fixes enc :: "'v \<Rightarrow> u8 list"
    and dec :: "u8 list \<Rightarrow> 'v"
    and width :: nat
  assumes enc_length: "length (enc v) = width"
    and dec_enc: "dec (enc v) = v"
    and width_pos: "0 < width"
begin

lemma array_length: "length (concat (map enc vs)) = length vs * width"
  by (intro length_concat_const) (simp add: enc_length)

text \<open>Indexing an array of fields: element \<open>i\<close> is found \<open>i\<close> widths into the array.\<close>

lemma array_element:
  assumes "i < length vs" and "p = length xs + i * width"
  shows "dec (take width (drop p (xs @ concat (map enc vs) @ ys))) = vs ! i"
proof -
  have "take width (drop (i * width) (concat (map enc vs))) = enc (vs ! i)"
    using assms(1) by (intro take_drop_concat_const) (simp_all add: enc_length)
  moreover have "i * width + width \<le> length (concat (map enc vs))"
    using assms(1) by (simp add: array_length flip: mult_Suc add.commute)
  ultimately show ?thesis
    using assms(2) by (simp add: dec_enc)
qed

lemma enc_inject: "enc v = enc w \<longleftrightarrow> v = w"
  by (metis dec_enc)

lemma array_inject: "length vs = length ws \<Longrightarrow>
    concat (map enc vs) = concat (map enc ws) \<longleftrightarrow> vs = ws"
  by (induction vs ws rule: list_induct2) (auto simp: enc_length enc_inject)

text \<open>Decoding the whole array again.\<close>

fun dec_array :: "nat \<Rightarrow> u8 list \<Rightarrow> 'v list" where
  "dec_array 0 bs = []"
| "dec_array (Suc n) bs = dec (take width bs) # dec_array n (drop width bs)"

lemma dec_array_enc: "n = length vs \<Longrightarrow> dec_array n (concat (map enc vs) @ ys) = vs"
  by (induction vs arbitrary: n) (auto simp: enc_length dec_enc)

end

interpretation be8: be_codec "be_mem :: BE_u8 \<Rightarrow> u8 list" be_of_mem 1
  by unfold_locales auto

interpretation be16: be_codec "be_mem :: BE_u16 \<Rightarrow> u8 list" be_of_mem 2
  by unfold_locales auto

interpretation be32: be_codec "be_mem :: BE_u32 \<Rightarrow> u8 list" be_of_mem 4
  by unfold_locales auto

end
