(* ===== verification/Floats.thy ===== *)
theory Floats
  imports Complex_Main Primitives "HOL-Library.Log_Nat"
begin

text \<open>
  The C++ types \<open>float\<close> and \<open>double\<close> on the driver's targets: IEEE 754 binary32 and binary64 with
  round to nearest, ties to even. A value is its bit pattern (\<open>u32\<close>, \<open>u64\<close>); the operations the
  conversions use (product, sum, difference, quotient, conversion from an unsigned integer,
  widening and narrowing) decode, compute the exact result and round it once, so no contraction
  into a fused operation takes place. A NaN result is the canonical quiet NaN: payloads of NaN
  operands are not propagated.
\<close>

section \<open>Formats and decoded values\<close>

record float_format =
  precision :: nat   \<comment> \<open>bits of the significand\<close>
  emin :: int        \<comment> \<open>exponent of the unit in the last place of subnormals\<close>
  emax :: int        \<comment> \<open>the same for the largest finite numbers\<close>

definition binary32 :: float_format where
  "binary32 = \<lparr>precision = 24, emin = - 149, emax = 104\<rparr>"

definition binary64 :: float_format where
  "binary64 = \<lparr>precision = 53, emin = - 1074, emax = 971\<rparr>"

text \<open>\<open>Finite s m e\<close> is \<open>m * 2 ^ e\<close>, negated when \<open>s\<close>; zeros keep their sign.\<close>

datatype fvalue = NotANumber | Infinite bool | Finite bool nat int

section \<open>Rounding\<close>

text \<open>The integer nearest to \<open>n / d\<close>, the even one of two.\<close>

definition round_half_even :: "nat \<Rightarrow> nat \<Rightarrow> nat" where
  "round_half_even n d =
     (let q = n div d; r = n mod d
      in if 2 * r < d \<or> (2 * r = d \<and> even q) then q else Suc q)"

text \<open>
  \<open>float_round fmt s n d e\<close> rounds \<open>n / d * 2 ^ e\<close>: \<open>quantum\<close> is the exponent at which the
  rounded significand has the format's precision, or \<open>emin\<close> for subnormal results.
\<close>

definition quantum :: "float_format \<Rightarrow> nat \<Rightarrow> nat \<Rightarrow> int \<Rightarrow> int" where
  "quantum fmt n d e =
     (let p = precision fmt;
          E = e + int (floorlog 2 n) - int (floorlog 2 d) - int p
      in max (emin fmt)
           (if n * 2 ^ nat (e - E) < 2 ^ p * (d * 2 ^ nat (E - e)) then E else E + 1))"

definition float_round :: "float_format \<Rightarrow> bool \<Rightarrow> nat \<Rightarrow> nat \<Rightarrow> int \<Rightarrow> fvalue" where
  "float_round fmt s n d e =
     (if n = 0 then Finite s 0 (emin fmt)
      else
        let p = precision fmt; E = quantum fmt n d e;
            q = round_half_even (n * 2 ^ nat (e - E)) (d * 2 ^ nat (E - e));
            (m, E') = (if q = 2 ^ p then (2 ^ (p - 1), E + 1) else (q, E))
        in if emax fmt < E' then Infinite s else Finite s m E')"

section \<open>Operations on decoded values\<close>

fun float_neg :: "fvalue \<Rightarrow> fvalue" where
  "float_neg NotANumber = NotANumber"
| "float_neg (Infinite s) = Infinite (\<not> s)"
| "float_neg (Finite s m e) = Finite (\<not> s) m e"

fun float_mult :: "float_format \<Rightarrow> fvalue \<Rightarrow> fvalue \<Rightarrow> fvalue" where
  "float_mult fmt NotANumber y = NotANumber"
| "float_mult fmt x NotANumber = NotANumber"
| "float_mult fmt (Infinite s) (Infinite t) = Infinite (s \<noteq> t)"
| "float_mult fmt (Infinite s) (Finite t m e) = (if m = 0 then NotANumber else Infinite (s \<noteq> t))"
| "float_mult fmt (Finite t m e) (Infinite s) = (if m = 0 then NotANumber else Infinite (s \<noteq> t))"
| "float_mult fmt (Finite s m e) (Finite t n f) = float_round fmt (s \<noteq> t) (m * n) 1 (e + f)"

fun float_div :: "float_format \<Rightarrow> fvalue \<Rightarrow> fvalue \<Rightarrow> fvalue" where
  "float_div fmt NotANumber y = NotANumber"
| "float_div fmt x NotANumber = NotANumber"
| "float_div fmt (Infinite s) (Infinite t) = NotANumber"
| "float_div fmt (Infinite s) (Finite t m e) = Infinite (s \<noteq> t)"
| "float_div fmt (Finite t m e) (Infinite s) = Finite (s \<noteq> t) 0 (emin fmt)"
| "float_div fmt (Finite s m e) (Finite t n f) =
     (if n = 0 then (if m = 0 then NotANumber else Infinite (s \<noteq> t))
      else float_round fmt (s \<noteq> t) m n (e - f))"

text \<open>The signed significand of a finite value at a smaller exponent.\<close>

definition scaled :: "int \<Rightarrow> bool \<Rightarrow> nat \<Rightarrow> int \<Rightarrow> int" where
  "scaled e0 s m e = (if s then -1 else 1) * int m * 2 ^ nat (e - e0)"

fun float_add :: "float_format \<Rightarrow> fvalue \<Rightarrow> fvalue \<Rightarrow> fvalue" where
  "float_add fmt NotANumber y = NotANumber"
| "float_add fmt x NotANumber = NotANumber"
| "float_add fmt (Infinite s) (Infinite t) = (if s = t then Infinite s else NotANumber)"
| "float_add fmt (Infinite s) (Finite t m e) = Infinite s"
| "float_add fmt (Finite t m e) (Infinite s) = Infinite s"
| "float_add fmt (Finite s m e) (Finite t n f) =
     (let e0 = min e f; x = scaled e0 s m e + scaled e0 t n f
      in if x = 0 then Finite (s \<and> t) 0 (emin fmt)
         else float_round fmt (x < 0) (nat \<bar>x\<bar>) 1 e0)"

fun float_convert :: "float_format \<Rightarrow> fvalue \<Rightarrow> fvalue" where
  "float_convert fmt NotANumber = NotANumber"
| "float_convert fmt (Infinite s) = Infinite s"
| "float_convert fmt (Finite s m e) = float_round fmt s m 1 e"

section \<open>Bit patterns\<close>

definition f32_decode :: "u32 \<Rightarrow> fvalue" where
  "f32_decode w =
     (let n = unat w; s = (2 ^ 31 \<le> n); ex = n div 2 ^ 23 mod 2 ^ 8; fr = n mod 2 ^ 23
      in if ex = 255 then (if fr = 0 then Infinite s else NotANumber)
         else if ex = 0 then Finite s fr (- 149)
         else Finite s (2 ^ 23 + fr) (int ex - 150))"

fun f32_encode :: "fvalue \<Rightarrow> u32" where
  "f32_encode NotANumber = 0x7FC00000"
| "f32_encode (Infinite s) = word_of_nat ((if s then 2 ^ 31 else 0) + 255 * 2 ^ 23)"
| "f32_encode (Finite s m e) =
     word_of_nat ((if s then 2 ^ 31 else 0)
       + (if m < 2 ^ 23 then m else nat (e + 150) * 2 ^ 23 + (m - 2 ^ 23)))"

definition f64_decode :: "u64 \<Rightarrow> fvalue" where
  "f64_decode w =
     (let n = unat w; s = (2 ^ 63 \<le> n); ex = n div 2 ^ 52 mod 2 ^ 11; fr = n mod 2 ^ 52
      in if ex = 2047 then (if fr = 0 then Infinite s else NotANumber)
         else if ex = 0 then Finite s fr (- 1074)
         else Finite s (2 ^ 52 + fr) (int ex - 1075))"

fun f64_encode :: "fvalue \<Rightarrow> u64" where
  "f64_encode NotANumber = 0x7FF8000000000000"
| "f64_encode (Infinite s) = word_of_nat ((if s then 2 ^ 63 else 0) + 2047 * 2 ^ 52)"
| "f64_encode (Finite s m e) =
     word_of_nat ((if s then 2 ^ 63 else 0)
       + (if m < 2 ^ 52 then m else nat (e + 1075) * 2 ^ 52 + (m - 2 ^ 52)))"

section \<open>The operations of the source\<close>

definition f32_mul :: "u32 \<Rightarrow> u32 \<Rightarrow> u32" where
  "f32_mul a b = f32_encode (float_mult binary32 (f32_decode a) (f32_decode b))"

definition f32_add :: "u32 \<Rightarrow> u32 \<Rightarrow> u32" where
  "f32_add a b = f32_encode (float_add binary32 (f32_decode a) (f32_decode b))"

definition f32_sub :: "u32 \<Rightarrow> u32 \<Rightarrow> u32" where
  "f32_sub a b = f32_encode (float_add binary32 (f32_decode a) (float_neg (f32_decode b)))"

definition f32_div :: "u32 \<Rightarrow> u32 \<Rightarrow> u32" where
  "f32_div a b = f32_encode (float_div binary32 (f32_decode a) (f32_decode b))"

text \<open>Conversion of an unsigned integer, and a literal \<open>n / d\<close> in the source.\<close>

definition f32_of_nat :: "nat \<Rightarrow> u32" where
  "f32_of_nat n = f32_encode (float_round binary32 False n 1 0)"

definition f32_literal :: "nat \<Rightarrow> nat \<Rightarrow> u32" where
  "f32_literal n d = f32_encode (float_round binary32 False n d 0)"

definition f64_of_nat :: "nat \<Rightarrow> u64" where
  "f64_of_nat n = f64_encode (float_round binary64 False n 1 0)"

definition f64_mul :: "u64 \<Rightarrow> u64 \<Rightarrow> u64" where
  "f64_mul a b = f64_encode (float_mult binary64 (f64_decode a) (f64_decode b))"

definition f64_div :: "u64 \<Rightarrow> u64 \<Rightarrow> u64" where
  "f64_div a b = f64_encode (float_div binary64 (f64_decode a) (f64_decode b))"

definition f64_of_f32 :: "u32 \<Rightarrow> u64" where
  "f64_of_f32 a = f64_encode (float_convert binary64 (f32_decode a))"

definition f32_of_f64 :: "u64 \<Rightarrow> u32" where
  "f32_of_f64 a = f32_encode (float_convert binary32 (f64_decode a))"

lemmas float_eval = f32_mul_def f32_add_def f32_sub_def f32_div_def f32_of_nat_def f32_literal_def
  f64_of_nat_def f64_mul_def f64_div_def f64_of_f32_def f32_of_f64_def f32_decode_def
  f64_decode_def float_round_def quantum_def round_half_even_def binary32_def binary64_def
  scaled_def Let_def

section \<open>What rounding guarantees\<close>

fun fvalue_real :: "fvalue \<Rightarrow> real" where
  "fvalue_real NotANumber = 0"
| "fvalue_real (Infinite s) = 0"
| "fvalue_real (Finite s m e) = (if s then -1 else 1) * real m * 2 powi e"

fun is_finite :: "fvalue \<Rightarrow> bool" where
  "is_finite (Finite s m e) = True"
| "is_finite _ = False"

text \<open>Finite values in the one representation the format's bit patterns have.\<close>

definition canonical :: "float_format \<Rightarrow> fvalue \<Rightarrow> bool" where
  "canonical fmt v = (case v of Finite s m e \<Rightarrow>
      m < 2 ^ precision fmt \<and> emin fmt \<le> e \<and> e \<le> emax fmt
      \<and> (m < 2 ^ (precision fmt - 1) \<longrightarrow> e = emin fmt) | _ \<Rightarrow> True)"

definition good_format :: "float_format \<Rightarrow> bool" where
  "good_format fmt \<longleftrightarrow> 1 < precision fmt \<and> emin fmt \<le> emax fmt
     \<and> emin fmt \<le> - int (precision fmt) \<and> 0 < emax fmt"

lemma good_formats [simp]: "good_format binary32" "good_format binary64"
  by (simp_all add: good_format_def binary32_def binary64_def)

lemma round_half_even_error:
  assumes "0 < d"
  shows "\<bar>real (round_half_even n d) - real n / real d\<bar> \<le> 1 / 2"
proof -
  define q r where "q = n div d" and "r = n mod d"
  have n: "n = q * d + r" and r: "r < d"
    using assms by (simp_all add: q_def r_def)
  have eq: "real n / real d = real q + real r / real d"
    using assms by (simp add: n add_divide_distrib)
  have t: "0 \<le> real r / real d" "real r / real d \<le> 1"
    using r by simp_all
  show ?thesis
  proof (cases "2 * r < d \<or> (2 * r = d \<and> even q)")
    case True
    then have "real r / real d \<le> 1 / 2"
      using assms by (auto simp: field_simps)
    with True eq t show ?thesis
      by (simp add: round_half_even_def q_def r_def)
  next
    case False
    then have "1 / 2 \<le> real r / real d"
      using assms by (auto simp: field_simps)
    moreover have "round_half_even n d = Suc q"
      using False by (simp add: round_half_even_def Let_def q_def r_def)
    ultimately show ?thesis
      using eq t by simp
  qed
qed

lemma round_half_even_exact [simp]: "0 < d \<Longrightarrow> round_half_even (k * d) d = k"
  by (simp add: round_half_even_def Let_def)

lemma round_half_even_1 [simp]: "round_half_even n 1 = n" "round_half_even n (Suc 0) = n"
  by (simp_all add: round_half_even_def Let_def)

lemma round_half_even_less: "0 < d \<Longrightarrow> n < k * d \<Longrightarrow> round_half_even n d \<le> k"
  by (auto simp: round_half_even_def Let_def less_mult_imp_div_less Suc_leI less_imp_le)

lemma round_half_even_ge: "0 < d \<Longrightarrow> k * d \<le> n \<Longrightarrow> k \<le> round_half_even n d"
  by (auto simp: round_half_even_def Let_def less_eq_div_iff_mult_less_eq intro: le_SucI)

text \<open>Scaling by a power of two, as a quotient of integers and as a real number.\<close>

lemma scaled_quotient:
  assumes "0 < d"
  shows "real (n * 2 ^ nat (e - E)) / real (d * 2 ^ nat (E - e)) * 2 powi E
         = real n / real d * 2 powi e"
proof (cases "E \<le> e")
  case True
  then have "(2::real) ^ nat (e - E) = 2 powi (e - E)"
    by (simp add: power_int_def)
  then show ?thesis
    using True by (simp add: power_int_diff)
next
  case False
  then have "(2::real) ^ nat (E - e) = 2 powi (E - e)"
    by (simp add: power_int_def)
  then show ?thesis
    using False by (simp add: power_int_diff)
qed

lemma powi_2_pos [simp]: "0 < (2::real) powi k"
  by simp

lemma floorlog_2_bounds:
  assumes "0 < k"
  shows "2 ^ floorlog 2 k \<le> 2 * real k" and "real k < 2 ^ floorlog 2 k"
proof -
  have L: "0 < floorlog 2 k"
    using assms by (simp add: floorlog_eq_zero_iff flip: neq0_conv)
  have b: "(2::nat) ^ (floorlog 2 k - 1) \<le> k" "k < 2 ^ floorlog 2 k"
    using floorlog_bounds [of k 2] assms by auto
  have "(2::nat) ^ floorlog 2 k = 2 * 2 ^ (floorlog 2 k - 1)"
    using L by (simp flip: power_Suc)
  with b(1) have "(2::nat) ^ floorlog 2 k \<le> 2 * k"
    by simp
  then show "2 ^ floorlog 2 k \<le> 2 * real k"
    by (metis of_nat_le_iff of_nat_mult of_nat_numeral of_nat_power)
  show "real k < 2 ^ floorlog 2 k"
    using b(2) by (metis of_nat_less_iff of_nat_numeral of_nat_power)
qed

lemma floorlog_ratio:
  assumes "0 < n" and "0 < d"
  shows "2 ^ floorlog 2 n < 2 * (real n / real d * 2 ^ floorlog 2 d)"
    and "real n / real d * 2 ^ floorlog 2 d < 2 * 2 ^ floorlog 2 n"
proof -
  note n = floorlog_2_bounds [OF assms(1)] and d = floorlog_2_bounds [OF assms(2)]
  have "real n * real d < real n * 2 ^ floorlog 2 d"
    using d(2) assms(1) by simp
  then have "real n < real n / real d * 2 ^ floorlog 2 d"
    using assms(2) by (simp add: field_simps)
  with n(1) show "2 ^ floorlog 2 n < 2 * (real n / real d * 2 ^ floorlog 2 d)"
    by simp
  have "real n * 2 ^ floorlog 2 d \<le> real n * (2 * real d)"
    using d(1) by (intro mult_left_mono) auto
  then have "real n / real d * 2 ^ floorlog 2 d \<le> 2 * real n"
    using assms(2) by (simp add: field_simps)
  with n(2) show "real n / real d * 2 ^ floorlog 2 d < 2 * 2 ^ floorlog 2 n"
    by linarith
qed

lemma scaled_compare:
  assumes "0 < d"
  shows "n * 2 ^ nat (e - E) < 2 ^ p * (d * 2 ^ nat (E - e))
         \<longleftrightarrow> real n / real d * 2 powi (e - E) < 2 ^ p"
proof -
  let ?N = "n * 2 ^ nat (e - E)" and ?D = "d * 2 ^ nat (E - e)"
  have "real ?N / real ?D * 2 powi E = real n / real d * 2 powi (e - E) * 2 powi E"
    unfolding scaled_quotient [OF assms] by (simp add: power_int_diff)
  then have "real ?N / real ?D = real n / real d * 2 powi (e - E)"
    by (simp only: mult_cancel_right) simp
  moreover have "?N < 2 ^ p * ?D \<longleftrightarrow> real ?N < real (2 ^ p * ?D)"
    by (rule of_nat_less_iff [symmetric])
  moreover have "real (2 ^ p * ?D) = 2 ^ p * real ?D"
    by simp
  moreover have "0 < real ?D"
    using assms by simp
  ultimately show ?thesis
    by (metis pos_divide_less_eq)
qed

text \<open>At the chosen quantum the significand has at most, and unless subnormal exactly, \<open>p\<close> bits.\<close>

lemma quantum_range:
  assumes "0 < n" and "0 < d" and "E = quantum fmt n d e"
  shows "real n / real d * 2 powi (e - E) < 2 ^ precision fmt"
    and "E \<noteq> emin fmt \<Longrightarrow> 2 ^ precision fmt \<le> 2 * (real n / real d * 2 powi (e - E))"
    and "emin fmt \<le> E"
proof -
  define p where "p = precision fmt"
  define x where "x = real n / real d"
  define E0 where "E0 = e + int (floorlog 2 n) - int (floorlog 2 d) - int p"
  define E1 where "E1 = (if x * 2 powi (e - E0) < 2 ^ p then E0 else E0 + 1)"
  have x: "0 < x" using assms by (simp add: x_def)
  have E: "E = max (emin fmt) E1"
    unfolding assms(3) quantum_def Let_def E1_def x_def scaled_compare [OF assms(2), symmetric]
    by (simp add: E0_def p_def)
  have lo: "2 ^ p < 2 * (x * 2 powi (e - E0))"
    and hi: "x * 2 powi (e - E0) < 2 * 2 ^ p"
  proof -
    have "2 powi (e - E0) = 2 ^ p * 2 ^ floorlog 2 d / (2::real) ^ floorlog 2 n"
    proof -
      have "e - E0 = int p + int (floorlog 2 d) - int (floorlog 2 n)"
        by (simp add: E0_def)
      then show ?thesis
        by (simp add: power_int_diff power_int_add)
    qed
    then have ex: "x * 2 powi (e - E0) * 2 ^ floorlog 2 n = x * 2 ^ floorlog 2 d * 2 ^ p"
      by simp
    have "2 ^ floorlog 2 n * 2 ^ p < 2 * (x * 2 ^ floorlog 2 d) * 2 ^ p"
      using mult_strict_right_mono [OF floorlog_ratio(1) [OF assms(1,2)], of "2 ^ p"]
      by (simp add: x_def)
    also have "\<dots> = 2 * (x * 2 powi (e - E0)) * 2 ^ floorlog 2 n"
      using ex by auto
    finally have "2 ^ floorlog 2 n * 2 ^ p < 2 * (x * 2 powi (e - E0)) * 2 ^ floorlog 2 n" .
    then show "2 ^ p < 2 * (x * 2 powi (e - E0))"
      by (simp add: mult.commute)
    have "x * 2 ^ floorlog 2 d * 2 ^ p < 2 * 2 ^ p * 2 ^ floorlog 2 n"
      using mult_strict_right_mono [OF floorlog_ratio(2) [OF assms(1,2)], of "2 ^ p"]
      by (simp add: x_def mult.assoc mult.commute [of "2 ^ p"])
    then have "x * 2 powi (e - E0) * 2 ^ floorlog 2 n < 2 * 2 ^ p * 2 ^ floorlog 2 n"
      unfolding ex .
    then show "x * 2 powi (e - E0) < 2 * 2 ^ p"
      by simp
  qed
  have one: "x * 2 powi (e - (E0 + 1)) = x * 2 powi (e - E0) / 2"
    by (simp add: power_int_diff power_int_add)
  have E1_hi: "x * 2 powi (e - E1) < 2 ^ p"
    using hi by (auto simp: E1_def one)
  have E1_lo: "2 ^ p \<le> 2 * (x * 2 powi (e - E1))"
    using lo by (auto simp: E1_def one)
  have "x * 2 powi (e - E) \<le> x * 2 powi (e - E1)"
    using x E by (intro mult_left_mono power_int_increasing) auto
  with E1_hi show "real n / real d * 2 powi (e - E) < 2 ^ precision fmt"
    by (simp add: x_def p_def)
  show "2 ^ precision fmt \<le> 2 * (real n / real d * 2 powi (e - E))" if "E \<noteq> emin fmt"
    using that E E1_lo by (auto simp: x_def p_def max_def split: if_splits)
  show "emin fmt \<le> E"
    using E by simp
qed

text \<open>
  The main fact about rounding: a finite result is canonical and within half a unit in its last
  place of the exact value.
\<close>

lemma rounded_significand:
  fixes n d :: nat and e :: int and fmt :: float_format
  defines "E \<equiv> quantum fmt n d e" and "p \<equiv> precision fmt"
  defines "q \<equiv> round_half_even (n * 2 ^ nat (e - E)) (d * 2 ^ nat (E - e))"
  assumes n: "0 < n" and d: "0 < d" and p: "1 < p"
  shows "q \<le> 2 ^ p" and "E \<noteq> emin fmt \<Longrightarrow> 2 ^ (p - 1) \<le> q"
    and "\<bar>real q * 2 powi E - real n / real d * 2 powi e\<bar> \<le> 2 powi E / 2"
proof -
  define N where "N = n * 2 ^ nat (e - E)"
  define D where "D = d * 2 ^ nat (E - e)"
  define y where "y = real n / real d * 2 powi (e - E)"
  have D: "0 < D" using d by (simp add: D_def)
  have x: "real n / real d * 2 powi e = y * 2 powi E"
    by (simp add: y_def power_int_diff)
  have "y * 2 powi E = real N / real D * 2 powi E"
    unfolding N_def D_def scaled_quotient [OF d] x ..
  then have y: "y = real N / real D"
    by (simp only: mult_cancel_right) simp
  have q: "q = round_half_even N D" by (simp add: q_def N_def D_def)
  have "E = quantum fmt n d e" by (simp add: E_def)
  note range = quantum_range [OF n d this, folded y_def p_def]
  have "real N < 2 ^ p * real D"
    using range(1) D by (simp add: y pos_divide_less_eq)
  also have "\<dots> = real (2 ^ p * D)" by simp
  finally show "q \<le> 2 ^ p"
    unfolding of_nat_less_iff q by (rule round_half_even_less [OF D])
  show "2 ^ (p - 1) \<le> q" if "E \<noteq> emin fmt"
  proof -
    have "(2::real) ^ p = 2 * 2 ^ (p - 1)"
      using p by (simp flip: power_Suc)
    then have "real (2 ^ (p - 1) * D) \<le> real N"
      using range(2) [OF that] D by (simp add: y pos_le_divide_eq)
    then show ?thesis
      unfolding of_nat_le_iff q by (rule round_half_even_ge [OF D])
  qed
  have "\<bar>real q - y\<bar> * 2 powi E \<le> 1 / 2 * 2 powi E"
    using round_half_even_error [OF D, of N] by (intro mult_right_mono) (simp_all add: q y)
  moreover have "\<bar>real q - y\<bar> * 2 powi E = \<bar>real q * 2 powi E - y * 2 powi E\<bar>"
    by (simp add: abs_mult flip: left_diff_distrib)
  ultimately show "\<bar>real q * 2 powi E - real n / real d * 2 powi e\<bar> \<le> 2 powi E / 2"
    unfolding x by simp
qed

lemma float_round_nearest:
  assumes fmt: "good_format fmt" and d: "0 < d"
    and r: "float_round fmt s n d e = Finite s' m E'"
  shows "s' = s \<and> canonical fmt (Finite s' m E')
    \<and> \<bar>real m * 2 powi E' - real n / real d * 2 powi e\<bar> \<le> 2 powi E' / 2"
proof (cases "n = 0")
  case True
  with r fmt show ?thesis
    by (auto simp: float_round_def canonical_def good_format_def)
next
  case False
  define p where "p = precision fmt"
  define E where "E = quantum fmt n d e"
  define q where "q = round_half_even (n * 2 ^ nat (e - E)) (d * 2 ^ nat (E - e))"
  have p: "1 < p" "(2::nat) ^ (p - 1) < 2 ^ p" and two: "(2::nat) ^ p = 2 * 2 ^ (p - 1)"
    using fmt by (simp_all add: good_format_def p_def flip: power_Suc)
  have n: "0 < n" using False by simp
  note sig = rounded_significand [OF n d, of fmt e, folded E_def p_def, folded q_def, OF p(1)]
  have Emin: "emin fmt \<le> E"
    by (rule quantum_range(3) [OF n d E_def])
  have res: "(m, E') = (if q = 2 ^ p then (2 ^ (p - 1), E + 1) else (q, E))"
    and E'max: "E' \<le> emax fmt" and s: "s' = s"
    using r False unfolding float_round_def Let_def E_def [symmetric] p_def [symmetric]
      q_def [symmetric] by (simp_all split: if_splits prod.splits)
  show ?thesis
  proof (cases "q = 2 ^ p")
    case True
    have q: "real q = 2 * 2 ^ (p - 1)"
      unfolding True two by simp
    have m: "m = 2 ^ (p - 1)" and E': "E' = E + 1" using res True by simp_all
    have eq: "real m * 2 powi E' = real q * 2 powi E" and le: "2 powi E / 2 \<le> (2::real) powi E' / 2"
      by (simp_all add: q m E' power_int_add)
    have "\<bar>real m * 2 powi E' - real n / real d * 2 powi e\<bar> \<le> 2 powi E' / 2"
      unfolding eq using sig(3) le by (rule order_trans)
    then show ?thesis
      using s m E' E'max Emin p by (simp add: canonical_def p_def [symmetric])
  next
    case False
    then have m: "m = q" and E': "E' = E" using res by simp_all
    have "E = emin fmt" if "q < 2 ^ (p - 1)"
      using sig(2) that by (cases "E = emin fmt") auto
    then show ?thesis
      using s sig(1,3) E'max Emin False by (simp add: canonical_def p_def [symmetric] m E')
  qed
qed

text \<open>Integers that fit the significand are represented exactly.\<close>

lemma float_round_small_int:
  assumes fmt: "good_format fmt" and n: "n < 2 ^ precision fmt"
  shows "\<exists>m e. float_round fmt s n 1 0 = Finite s m e \<and> real m * 2 powi e = real n"
proof (cases "n = 0")
  case True
  then show ?thesis by (simp add: float_round_def)
next
  case False
  define p where "p = precision fmt"
  define E where "E = quantum fmt n 1 0"
  define q where "q = round_half_even (n * 2 ^ nat (- E)) (2 ^ nat E)"
  have "floorlog 2 n \<le> p"
    using n by (intro floorlog_leI) (simp_all add: p_def)
  moreover have "floorlog 2 (Suc 0) = 1"
    by (simp add: compute_floorlog)
  ultimately have E: "E \<le> 0"
    using fmt by (auto simp: E_def quantum_def Let_def good_format_def p_def)
  then have q: "q = n * 2 ^ nat (- E)"
    by (simp add: q_def)
  have val: "real q * 2 powi E = real n"
    using E by (simp add: q power_int_def flip: power_mult_distrib)
  have two: "(2::real) ^ p = 2 * 2 ^ (p - 1)"
    using fmt by (simp add: good_format_def p_def flip: power_Suc)
  have res: "float_round fmt s n 1 0 = (let (m, E') = (if q = 2 ^ p then (2 ^ (p - 1), E + 1) else (q, E))
      in if emax fmt < E' then Infinite s else Finite s m E')"
    using False by (simp add: float_round_def Let_def q_def p_def E_def)
  show ?thesis
  proof (cases "q = 2 ^ p")
    case True
    then have "real n = 2 ^ p * 2 powi E"
      using val by simp
    with True fmt E two show ?thesis
      unfolding res by (simp add: good_format_def power_int_add)
  next
    case False
    with val fmt E show ?thesis
      unfolding res by (simp add: good_format_def)
  qed
qed

text \<open>Bit patterns carry canonical values without loss.\<close>

lemma f32_fields:
  assumes "n = (if s then 2 ^ 31 else 0) + k * 2 ^ 23 + f" and "k < 256" and "f < 2 ^ 23"
  shows "unat (word_of_nat n :: u32) = n" and "2 ^ 31 \<le> n \<longleftrightarrow> s"
    and "n div 2 ^ 23 mod 2 ^ 8 = k" and "n mod 2 ^ 23 = f"
proof -
  have "k * 2 ^ 23 + f < 2 ^ 31"
    using assms(2,3) by simp
  then show "2 ^ 31 \<le> n \<longleftrightarrow> s"
    using assms(1) by auto
  have "n < 2 ^ 32"
    using assms(1) \<open>k * 2 ^ 23 + f < 2 ^ 31\<close> by auto
  then show "unat (word_of_nat n :: u32) = n"
    unfolding unat_of_nat by simp
  obtain c where c: "c = (if s then 256 else 0) + k"
    by simp
  have n: "n = c * 2 ^ 23 + f"
    using assms(1) by (simp add: c)
  show "n mod 2 ^ 23 = f"
    using assms(3) by (simp add: n)
  have "n div 2 ^ 23 = c"
    using assms(3) by (simp add: n)
  then show "n div 2 ^ 23 mod 2 ^ 8 = k"
    using assms(2) by (simp add: c)
qed

lemma f32_decode_encode:
  assumes "canonical binary32 v"
  shows "f32_decode (f32_encode v) = v"
proof (cases v)
  case NotANumber
  then show ?thesis by (simp add: f32_decode_def)
next
  case (Infinite s)
  show ?thesis
    using f32_fields [of _ s 255 0, OF refl]
    by (simp add: Infinite f32_decode_def Let_def del: of_nat_add of_nat_mult of_nat_numeral)
next
  case (Finite s m e)
  show ?thesis
  proof (cases "m < 2 ^ 23")
    case True
    have "f32_encode v = word_of_nat ((if s then 2 ^ 31 else 0) + 0 * 2 ^ 23 + m)"
      using True by (simp add: Finite)
    moreover have "e = - 149"
      using assms True by (simp add: Finite canonical_def binary32_def)
    ultimately show ?thesis
      using f32_fields [of _ s 0 m, OF refl] True
      by (simp add: Finite f32_decode_def Let_def del: of_nat_add of_nat_mult)
  next
    case False
    define f where "f = m - 2 ^ 23"
    have m: "m = 2 ^ 23 + f" and f: "f < 2 ^ 23" and e: "- 149 \<le> e" "e \<le> 104"
      using assms False by (auto simp: f_def Finite canonical_def binary32_def)
    define k where "k = nat (e + 150)"
    have k: "0 < k" "k < 255" "int k - 150 = e"
      using e by (simp_all add: k_def)
    have "f32_encode v = word_of_nat ((if s then 2 ^ 31 else 0) + k * 2 ^ 23 + f)"
      by (simp add: Finite m k_def add.assoc del: of_nat_add of_nat_mult)
    then show ?thesis
      using f32_fields [of _ s k f, OF refl _ f] k
      by (simp add: Finite m f32_decode_def Let_def del: of_nat_add of_nat_mult)
  qed
qed

text \<open>
  What the source's products and quotients return, in terms of real numbers: a finite result of a
  product of finite values is within half a unit in its last place of the exact product.
\<close>

lemma f32_mul_nearest:
  assumes a: "f32_decode a = Finite s m e" and b: "f32_decode b = Finite t n f"
    and r: "float_round binary32 (s \<noteq> t) (m * n) 1 (e + f) = Finite u q E"
  shows "f32_decode (f32_mul a b) = Finite u q E"
    and "\<bar>fvalue_real (f32_decode (f32_mul a b)) - fvalue_real (f32_decode a) * fvalue_real (f32_decode b)\<bar>
         \<le> 2 powi E / 2"
proof -
  note nearest = float_round_nearest [OF good_formats(1) zero_less_one r]
  have mul: "f32_mul a b = f32_encode (Finite u q E)"
    unfolding f32_mul_def a b float_mult.simps r ..
  show dec: "f32_decode (f32_mul a b) = Finite u q E"
    unfolding mul using nearest by (blast intro: f32_decode_encode)
  have prod: "fvalue_real (f32_decode a) * fvalue_real (f32_decode b)
      = (if u then - 1 else 1) * (real (m * n) / real (1::nat) * 2 powi (e + f))"
    using nearest by (auto simp: a b power_int_add)
  have "\<bar>(if u then - 1 else 1) * (real q * 2 powi E)
      - (if u then - 1 else 1) * (real (m * n) / real (1::nat) * 2 powi (e + f))\<bar>
      = \<bar>real q * 2 powi E - real (m * n) / real (1::nat) * 2 powi (e + f)\<bar>"
    by (cases u) (simp_all only: if_True if_False mult_minus_left mult_1 abs_minus_commute
        minus_diff_minus abs_minus_cancel)
  then show "\<bar>fvalue_real (f32_decode (f32_mul a b)) - fvalue_real (f32_decode a) * fvalue_real (f32_decode b)\<bar>
      \<le> 2 powi E / 2"
    unfolding prod dec using nearest by (simp only: fvalue_real.simps mult.assoc)
qed

text \<open>An unsigned 16-bit integer becomes the \<open>float\<close> of exactly its value.\<close>

lemma f32_of_nat_exact:
  assumes "n < 2 ^ 24"
  shows "\<exists>m e. f32_decode (f32_of_nat n) = Finite False m e \<and> real m * 2 powi e = real n"
proof -
  obtain m e where r: "float_round binary32 False n 1 0 = Finite False m e"
      and v: "real m * 2 powi e = real n"
    using float_round_small_int [OF good_formats(1), of n False] assms
    by (auto simp: binary32_def)
  then have "f32_decode (f32_of_nat n) = Finite False m e"
    using float_round_nearest [OF good_formats(1) zero_less_one r]
    unfolding f32_of_nat_def r by (intro f32_decode_encode) simp
  with v show ?thesis by blast
qed

end
