(* ===== verification/Sections.thy ===== *)
theory Sections
  imports Floats "HOL-Library.Char_ord"
begin

unbundle bit_operations_syntax

text \<open>
  \<open>sections/*.hpp\<close>: the common section header, the base class \<open>Section\<close> and the ten section
  interpreters. A section object is its class and the pointer it was constructed with; every
  method reads the receive buffer through that pointer, so it takes the buffer as its first
  argument and reads outside it are undefined. A pointer result is an offset; the structures it
  points to are decoded by the \<open>load_\<close> functions.
\<close>

section \<open>Section headers\<close>

datatype section_type = H0 | R0 | A0 | A1 | A2 | I1 | G0 | G1 | Q0 | M0

text \<open>The \<open>nominalType\<close> of each class, and the virtual call.\<close>

definition H0_nominalType :: string where
  [simp]: "H0_nominalType = ''H0''"

definition R0_nominalType :: string where
  [simp]: "R0_nominalType = ''R0''"

definition A0_nominalType :: string where
  [simp]: "A0_nominalType = ''A0''"

definition A1_nominalType :: string where
  [simp]: "A1_nominalType = ''A1''"

definition A2_nominalType :: string where
  [simp]: "A2_nominalType = ''A2''"

definition I1_nominalType :: string where
  [simp]: "I1_nominalType = ''I1''"

definition G0_nominalType :: string where
  [simp]: "G0_nominalType = ''G0''"

definition G1_nominalType :: string where
  [simp]: "G1_nominalType = ''G1''"

definition Q0_nominalType :: string where
  [simp]: "Q0_nominalType = ''Q0''"

definition M0_nominalType :: string where
  [simp]: "M0_nominalType = ''M0''"

fun section_nominalType :: "section_type \<Rightarrow> string" where
  "section_nominalType H0 = H0_nominalType"
| "section_nominalType R0 = R0_nominalType"
| "section_nominalType A0 = A0_nominalType"
| "section_nominalType A1 = A1_nominalType"
| "section_nominalType A2 = A2_nominalType"
| "section_nominalType I1 = I1_nominalType"
| "section_nominalType G0 = G0_nominalType"
| "section_nominalType G1 = G1_nominalType"
| "section_nominalType Q0 = Q0_nominalType"
| "section_nominalType M0 = M0_nominalType"

text \<open>The bytes of a string literal, and of the NUL-terminated array a literal denotes.\<close>

definition str_bytes :: "string \<Rightarrow> u8 list" where
  "str_bytes s = map of_char s"

definition c_string :: "string \<Rightarrow> u8 list" where
  "c_string s = str_bytes s @ [0]"

text \<open>\<open>strncmp\<close>: at most \<open>n\<close> characters, none after a terminating NUL.\<close>

fun strncmp :: "u8 list \<Rightarrow> u8 list \<Rightarrow> nat \<Rightarrow> int" where
  "strncmp (a # as) (b # bs) (Suc n) =
     (if a \<noteq> b then uint a - uint b else if a = 0 then 0 else strncmp as bs n)"
| "strncmp _ _ _ = 0"

text \<open>\<open>struct SectionInfo\<close>: two name characters and a big-endian size.\<close>

definition sizeof_SectionInfo :: nat where
  "sizeof_SectionInfo = 4"

record sonar_section =
  sec_type :: section_type
  start_bit :: ptr

definition mk_section :: "section_type \<Rightarrow> ptr \<Rightarrow> sonar_section" where
  "mk_section t p = \<lparr>sec_type = t, start_bit = p\<rparr>"

definition section_isType :: "buffer \<Rightarrow> sonar_section \<Rightarrow> bool res" where
  "section_isType buf s = ebind (rd buf (start_bit s) 2) (\<lambda>name.
     Inr (strncmp name (c_string (section_nominalType (sec_type s))) 2 = 0))"

definition section_exists :: "buffer \<Rightarrow> sonar_section \<Rightarrow> bool res" where
  "section_exists buf s = section_isType buf s"

definition section_getSize :: "buffer \<Rightarrow> sonar_section \<Rightarrow> u16 res" where
  "section_getSize buf s = ebind (section_exists buf s) (\<lambda>ex.
     if \<not> ex then Inr 0
     else ebind (rd buf (start_bit s + 2) 2) (\<lambda>bs. Inr (revPrimitive (of_mem bs))))"

definition section_end :: "buffer \<Rightarrow> sonar_section \<Rightarrow> ptr res" where
  "section_end buf s = ebind (section_getSize buf s) (\<lambda>n. Inr (start_bit s + unat n))"

definition existanceErrorCheck :: "buffer \<Rightarrow> sonar_section \<Rightarrow> unit res" where
  "existanceErrorCheck buf s = ebind (section_exists buf s) (\<lambda>ex.
     if \<not> ex then Inl (OutOfRange ''requested optional section was not in this packet'')
     else Inr ())"

section \<open>H0: general ping information\<close>

record H0_Body =
  ModelNumber :: "u8 list"
  SerialNumber :: "u8 list"
  TimeSeconds :: BE_u32
  TimeNanoseconds :: BE_u32
  H0_PingNumber :: BE_u32
  PingPeriod :: BE_f32
  SoundSpeed :: BE_f32
  Frequency :: BE_f32
  TxPower :: BE_f32
  TxPulseWidth :: BE_f32
  TxBeamwidthVert :: BE_f32
  TxBeamwidthHoriz :: BE_f32
  TxSteeringVert :: BE_f32
  TxSteeringHoriz :: BE_f32
  TxMiscInfo :: BE_u16
  VTX_Offset :: BE_s16
  RxBandwidth :: BE_f32
  RxSampleRate :: BE_f32
  RxRange :: BE_f32
  RxGain :: BE_f32
  RxSpreading :: BE_f32
  RxAbsorption :: BE_f32
  RxMountTilt :: BE_f32
  RxMiscInfo :: BE_u32
  H0_reserved :: BE_u16
  H0_Beams :: BE_u16

definition sizeof_H0_Body :: nat where
  "sizeof_H0_Body = 112"

definition H0_Body_of :: "u8 list \<Rightarrow> H0_Body" where
  "H0_Body_of bs =
     \<lparr>ModelNumber = take 12 bs, SerialNumber = take 12 (drop 12 bs),
      TimeSeconds = field_be bs 24, TimeNanoseconds = field_be bs 28,
      H0_PingNumber = field_be bs 32, PingPeriod = field_be bs 36,
      SoundSpeed = field_be bs 40, Frequency = field_be bs 44,
      TxPower = field_be bs 48, TxPulseWidth = field_be bs 52,
      TxBeamwidthVert = field_be bs 56, TxBeamwidthHoriz = field_be bs 60,
      TxSteeringVert = field_be bs 64, TxSteeringHoriz = field_be bs 68,
      TxMiscInfo = field_be bs 72, VTX_Offset = field_be bs 74,
      RxBandwidth = field_be bs 76, RxSampleRate = field_be bs 80,
      RxRange = field_be bs 84, RxGain = field_be bs 88,
      RxSpreading = field_be bs 92, RxAbsorption = field_be bs 96,
      RxMountTilt = field_be bs 100, RxMiscInfo = field_be bs 104,
      H0_reserved = field_be bs 108, H0_Beams = field_be bs 110\<rparr>"

text \<open>\<open>body()\<close> of H0 does not check that the section exists.\<close>

definition H0_body :: "sonar_section \<Rightarrow> ptr" where
  "H0_body s = start_bit s + sizeof_SectionInfo"

definition load_H0_Body :: "buffer \<Rightarrow> ptr \<Rightarrow> H0_Body res" where
  "load_H0_Body buf p = ebind (rd buf p sizeof_H0_Body) (\<lambda>bs. Inr (H0_Body_of bs))"

section \<open>R0: bathy point ranges\<close>

definition R0_scaliningFactor :: "sonar_section \<Rightarrow> ptr" where
  "R0_scaliningFactor s = start_bit s + sizeof_SectionInfo"

definition R0_range :: "sonar_section \<Rightarrow> u16 \<Rightarrow> ptr" where
  "R0_range s beam_no = start_bit s + sizeof_SectionInfo + 4 + 2 * unat beam_no"

definition R0_getRange :: "buffer \<Rightarrow> sonar_section \<Rightarrow> u16 \<Rightarrow> u16 res" where
  "R0_getRange buf s beam_no = ebind (load_be buf (R0_range s beam_no)) (\<lambda>x. Inr (get x))"

definition R0_getScaledRange :: "buffer \<Rightarrow> sonar_section \<Rightarrow> u16 \<Rightarrow> u32 res" where
  "R0_getScaledRange buf s beam_no =
     ebind (R0_getRange buf s beam_no) (\<lambda>r.
     ebind (load_be buf (R0_scaliningFactor s)) (\<lambda>k.
     Inr (f32_mul (f32_of_nat (unat r)) (get (k :: BE_f32)))))"

section \<open>A0, A1, A2: beam angles\<close>

record A0_Body =
  A0_AngleFirst :: BE_f32
  A0_AngleLast :: BE_f32
  A0_MoreInfo :: "BE_f32 list"

definition sizeof_A0_Body :: nat where
  "sizeof_A0_Body = 32"

definition A0_Body_of :: "u8 list \<Rightarrow> A0_Body" where
  "A0_Body_of bs = \<lparr>A0_AngleFirst = field_be bs 0, A0_AngleLast = field_be bs 4,
     A0_MoreInfo = map (\<lambda>i. field_be bs (8 + 4 * i)) [0..<6]\<rparr>"

definition A0_body :: "buffer \<Rightarrow> sonar_section \<Rightarrow> ptr res" where
  "A0_body buf s = ebind (existanceErrorCheck buf s) (\<lambda>_. Inr (start_bit s + sizeof_SectionInfo))"

definition load_A0_Body :: "buffer \<Rightarrow> ptr \<Rightarrow> A0_Body res" where
  "load_A0_Body buf p = ebind (rd buf p sizeof_A0_Body) (\<lambda>bs. Inr (A0_Body_of bs))"

record A1_Body =
  A1_MoreInfo :: "BE_f32 list"

definition sizeof_A1_Body :: nat where
  "sizeof_A1_Body = 24"

definition A1_BeamAngle :: "buffer \<Rightarrow> sonar_section \<Rightarrow> u16 \<Rightarrow> ptr res" where
  "A1_BeamAngle buf s beam_no = ebind (existanceErrorCheck buf s) (\<lambda>_.
     Inr (start_bit s + sizeof_SectionInfo + sizeof_A1_Body + 4 * unat beam_no))"

record A2_Body =
  A2_AngleFirst :: BE_f32
  A2_ScalingFactor :: BE_f32
  A2_MoreInfo :: "BE_f32 list"

definition sizeof_A2_Body :: nat where
  "sizeof_A2_Body = 32"

definition A2_Body_of :: "u8 list \<Rightarrow> A2_Body" where
  "A2_Body_of bs = \<lparr>A2_AngleFirst = field_be bs 0, A2_ScalingFactor = field_be bs 4,
     A2_MoreInfo = map (\<lambda>i. field_be bs (8 + 4 * i)) [0..<6]\<rparr>"

definition A2_body :: "buffer \<Rightarrow> sonar_section \<Rightarrow> ptr res" where
  "A2_body buf s = ebind (existanceErrorCheck buf s) (\<lambda>_. Inr (start_bit s + sizeof_SectionInfo))"

definition load_A2_Body :: "buffer \<Rightarrow> ptr \<Rightarrow> A2_Body res" where
  "load_A2_Body buf p = ebind (rd buf p sizeof_A2_Body) (\<lambda>bs. Inr (A2_Body_of bs))"

definition A2_AngleStep :: "buffer \<Rightarrow> sonar_section \<Rightarrow> u16 \<Rightarrow> ptr res" where
  "A2_AngleStep buf s beam_no = ebind (existanceErrorCheck buf s) (\<lambda>_.
     Inr (start_bit s + sizeof_SectionInfo + sizeof_A2_Body + 2 * unat beam_no))"

section \<open>I1: intensities\<close>

definition I1_ScalingFactor :: "buffer \<Rightarrow> sonar_section \<Rightarrow> ptr res" where
  "I1_ScalingFactor buf s = ebind (existanceErrorCheck buf s) (\<lambda>_.
     Inr (start_bit s + sizeof_SectionInfo))"

definition I1_Intensity :: "buffer \<Rightarrow> sonar_section \<Rightarrow> u16 \<Rightarrow> ptr res" where
  "I1_Intensity buf s beam_no = ebind (existanceErrorCheck buf s) (\<lambda>_.
     Inr (start_bit s + sizeof_SectionInfo + 4 + 2 * unat beam_no))"

definition I1_getScaledIntensity :: "buffer \<Rightarrow> sonar_section \<Rightarrow> u16 \<Rightarrow> u32 res" where
  "I1_getScaledIntensity buf s beam_no =
     ebind (I1_Intensity buf s beam_no) (\<lambda>pi. ebind (load_be buf pi) (\<lambda>i.
     ebind (I1_ScalingFactor buf s) (\<lambda>pk. ebind (load_be buf pk) (\<lambda>k.
     Inr (f32_mul (f32_of_nat (unat (get (i :: BE_u16)))) (get (k :: BE_f32)))))))"

section \<open>G0, G1: depth gates\<close>

record G0_Body =
  G0_DepthGateMin :: BE_f32
  G0_DepthGateMax :: BE_f32
  G0_DepthGateSlope :: BE_f32

definition sizeof_G0_Body :: nat where
  "sizeof_G0_Body = 12"

definition G0_Body_of :: "u8 list \<Rightarrow> G0_Body" where
  "G0_Body_of bs = \<lparr>G0_DepthGateMin = field_be bs 0, G0_DepthGateMax = field_be bs 4,
     G0_DepthGateSlope = field_be bs 8\<rparr>"

definition G0_body :: "buffer \<Rightarrow> sonar_section \<Rightarrow> ptr res" where
  "G0_body buf s = ebind (existanceErrorCheck buf s) (\<lambda>_. Inr (start_bit s + sizeof_SectionInfo))"

definition load_G0_Body :: "buffer \<Rightarrow> ptr \<Rightarrow> G0_Body res" where
  "load_G0_Body buf p = ebind (rd buf p sizeof_G0_Body) (\<lambda>bs. Inr (G0_Body_of bs))"

record Gate =
  RangeMin :: BE_u8
  RangeMax :: BE_u8

definition sizeof_Gate :: nat where
  "sizeof_Gate = 2"

definition G1_ScalingFactor :: "buffer \<Rightarrow> sonar_section \<Rightarrow> ptr res" where
  "G1_ScalingFactor buf s = ebind (existanceErrorCheck buf s) (\<lambda>_.
     Inr (start_bit s + sizeof_SectionInfo))"

definition G1_gate :: "buffer \<Rightarrow> sonar_section \<Rightarrow> u16 \<Rightarrow> ptr res" where
  "G1_gate buf s beam_no = ebind (existanceErrorCheck buf s) (\<lambda>_.
     Inr (start_bit s + sizeof_SectionInfo + 4 + sizeof_Gate * unat beam_no))"

definition load_Gate :: "buffer \<Rightarrow> ptr \<Rightarrow> Gate res" where
  "load_Gate buf p = ebind (rd buf p sizeof_Gate) (\<lambda>bs.
     Inr \<lparr>RangeMin = field_be bs 0, RangeMax = field_be bs 1\<rparr>)"

section \<open>Recognising a section\<close>

text \<open>The two name bytes of each section class, and that they tell the classes apart.\<close>

definition name_bytes :: "section_type \<Rightarrow> u8 list" where
  "name_bytes t = str_bytes (section_nominalType t)"

lemma name_bytes_eval [simp]:
  "name_bytes H0 = [0x48, 0x30]" "name_bytes R0 = [0x52, 0x30]" "name_bytes A0 = [0x41, 0x30]"
  "name_bytes A1 = [0x41, 0x31]" "name_bytes A2 = [0x41, 0x32]" "name_bytes I1 = [0x49, 0x31]"
  "name_bytes G0 = [0x47, 0x30]" "name_bytes G1 = [0x47, 0x31]" "name_bytes Q0 = [0x51, 0x30]"
  "name_bytes M0 = [0x4D, 0x30]"
  by (simp_all add: name_bytes_def str_bytes_def)

lemma length_name_bytes [simp]: "length (name_bytes t) = 2"
  by (cases t) simp_all

lemma name_bytes_inject [simp]: "name_bytes t = name_bytes u \<longleftrightarrow> t = u"
  by (cases t; cases u) simp_all

lemma c_string_nominalType: "c_string (section_nominalType t) = name_bytes t @ [0]"
  by (simp add: c_string_def name_bytes_def)

lemma strncmp_zero_iff:
  "n \<le> length as \<Longrightarrow> n \<le> length bs \<Longrightarrow> 0 \<notin> set (take n bs) \<Longrightarrow>
   strncmp as bs n = 0 \<longleftrightarrow> take n as = take n bs"
proof (induction as bs n rule: strncmp.induct)
  case (1 a as b bs n)
  have "uint a - uint b = 0 \<longleftrightarrow> a = b"
    by (simp add: word_uint_eq_iff)
  with 1 show ?case by auto
qed auto

lemma strncmp_name:
  assumes "length bs = 2"
  shows "strncmp bs (name_bytes t @ [0]) 2 = 0 \<longleftrightarrow> bs = name_bytes t"
proof -
  have "0 \<notin> set (name_bytes t)"
    by (cases t) simp_all
  then show ?thesis
    using assms by (subst strncmp_zero_iff) auto
qed

lemma section_exists_iff:
  "section_exists buf s = Inr ex \<longleftrightarrow> start_bit s + 2 \<le> length buf
     \<and> (ex \<longleftrightarrow> take 2 (drop (start_bit s) buf) = name_bytes (sec_type s))"
  by (auto simp: section_exists_def section_isType_def res_simps c_string_nominalType strncmp_name)

lemma section_exists_eq:
  "start_bit s + 2 \<le> length buf \<Longrightarrow>
   section_exists buf s = Inr (take 2 (drop (start_bit s) buf) = name_bytes (sec_type s))"
  by (simp add: section_exists_iff)

lemma existanceErrorCheck_iff:
  "existanceErrorCheck buf s = Inr u \<longleftrightarrow> section_exists buf s = Inr True"
  by (auto simp: existanceErrorCheck_def res_simps split: if_splits)

lemma existanceErrorCheck_throws:
  "section_exists buf s = Inr False \<Longrightarrow>
   existanceErrorCheck buf s = Inl (OutOfRange ''requested optional section was not in this packet'')"
  by (simp add: existanceErrorCheck_def)

text \<open>A section that does not exist has size 0, so the next one is looked for at the same place.\<close>

lemma section_end_absent:
  "section_exists buf s = Inr False \<Longrightarrow> section_end buf s = Inr (start_bit s)"
  by (simp add: section_end_def section_getSize_def)

lemma section_end_present:
  assumes "section_exists buf s = Inr True" and "start_bit s + 4 \<le> length buf"
  shows "section_end buf s
    = Inr (start_bit s + unat (get (field_be buf (start_bit s + 2) :: BE_u16)))"
  using assms
  by (simp add: section_end_def section_getSize_def rd_def get_def field_be_def be_of_mem_def
      add.commute)

lemma section_end_bounds:
  assumes "section_end buf s = Inr p"
  shows "start_bit s \<le> p" and "p \<le> start_bit s + 65535"
proof -
  obtain n :: u16 where "p = start_bit s + unat n"
    using assms by (auto simp: section_end_def res_simps)
  moreover have "unat n < 65536"
    using unat_bound [of n] by simp
  ultimately show "start_bit s \<le> p" and "p \<le> start_bit s + 65535"
    by simp_all
qed

section \<open>The layout of a section in a packet\<close>

text \<open>
  The uplink format itself: a section is its name, its total size in big-endian order and its
  contents. \<open>section_bytes\<close> is the reference the interpreters are compared with.
\<close>

definition section_bytes :: "section_type \<Rightarrow> u8 list \<Rightarrow> u8 list" where
  "section_bytes t payload =
     name_bytes t @ be_mem (set_be (word_of_nat (4 + length payload) :: u16)) @ payload"

lemma length_section_bytes [simp]: "length (section_bytes t payload) = 4 + length payload"
  by (simp add: section_bytes_def)

lemma take_2_section_bytes [simp]: "take 2 (section_bytes t payload) = name_bytes t"
  by (simp add: section_bytes_def)

lemma section_found:
  assumes "p = length xs"
  shows "section_exists (xs @ section_bytes t payload @ zs) (mk_section u p) = Inr (t = u)"
  using assms by (auto simp: section_exists_iff mk_section_def)

lemma section_found_end:
  assumes "p = length xs" and "4 + length payload < 65536"
  shows "section_end (xs @ section_bytes t payload @ zs) (mk_section t p)
         = Inr (p + length (section_bytes t payload))"
proof -
  let ?buf = "xs @ section_bytes t payload @ zs" and ?n = "4 + length payload"
  have ex: "section_exists ?buf (mk_section t p) = Inr True"
    using assms(1) by (simp add: section_found)
  have "?buf = (xs @ name_bytes t) @ be_mem (set_be (word_of_nat ?n :: u16)) @ payload @ zs"
    by (simp add: section_bytes_def)
  then have "field_be ?buf (p + 2) = (set_be (word_of_nat ?n) :: BE_u16)"
    using assms(1) by (simp only:) (rule field_be_append; simp)
  then have "unat (get (field_be ?buf (p + 2) :: BE_u16)) = ?n"
    using assms(2) by (simp add: unat_of_nat del: of_nat_add)
  with section_end_present [OF ex] assms(1) show ?thesis
    by (simp add: mk_section_def)
qed

end
