(* ===== verification/SectionChain.thy ===== *)
theory SectionChain
  imports Sections
begin

text \<open>
  How a packet's sections are found: each accessor of \<open>packets/bth0.hpp\<close> and \<open>packets/aid0.hpp\<close>
  constructs its section at the end of the previous one, and a section that is not there has
  size 0. \<open>chain_end\<close> is that walk over the classes of a packet type; the locale
  \<open>section_layout\<close> states what a packet type provides, the order of its sections, and proves once
  that the walk finds the sections of every packet laid out in that order.
\<close>

section \<open>The order of the sections\<close>

text \<open>Both packet types list their sections in one order, which makes the classes a linear order.\<close>

fun section_rank :: "section_type \<Rightarrow> nat" where
  "section_rank H0 = 0" | "section_rank R0 = 1" | "section_rank A0 = 2" | "section_rank A1 = 3"
| "section_rank A2 = 4" | "section_rank I1 = 5" | "section_rank G0 = 6" | "section_rank G1 = 7"
| "section_rank Q0 = 8" | "section_rank M0 = 9"

lemma section_rank_inject: "section_rank t = section_rank u \<Longrightarrow> t = u"
  by (cases t; cases u) simp_all

instantiation section_type :: linorder
begin

definition less_eq_section_type :: "section_type \<Rightarrow> section_type \<Rightarrow> bool" where
  "less_eq_section_type t u \<longleftrightarrow> section_rank t \<le> section_rank u"

definition less_section_type :: "section_type \<Rightarrow> section_type \<Rightarrow> bool" where
  "less_section_type t u \<longleftrightarrow> section_rank t < section_rank u"

instance
  by standard (auto simp: less_eq_section_type_def less_section_type_def intro: section_rank_inject)

end

lemmas section_order = less_eq_section_type_def less_section_type_def

section \<open>Walking the sections\<close>

fun chain_end :: "buffer \<Rightarrow> ptr \<Rightarrow> section_type list \<Rightarrow> ptr res" where
  "chain_end buf p [] = Inr p"
| "chain_end buf p (t # ts) = ebind (section_end buf (mk_section t p)) (\<lambda>q. chain_end buf q ts)"

lemma chain_end_append:
  "chain_end buf p (ts @ us) = ebind (chain_end buf p ts) (\<lambda>q. chain_end buf q us)"
  by (induction ts arbitrary: p) (simp_all add: ebind_assoc)

lemma chain_end_mono: "chain_end buf p ts = Inr q \<Longrightarrow> p \<le> q"
  by (induction ts arbitrary: p)
    (auto simp: res_simps mk_section_def dest!: section_end_bounds(1) intro: le_trans)

section \<open>Packets laid out in order\<close>

type_synonym section_data = "section_type \<times> u8 list"

definition sections_bytes :: "section_data list \<Rightarrow> u8 list" where
  "sections_bytes secs = concat (map (\<lambda>(t, d). section_bytes t d) secs)"

lemma sections_bytes_simps [simp]:
  "sections_bytes [] = []"
  "sections_bytes ((t, d) # secs) = section_bytes t d @ sections_bytes secs"
  "sections_bytes (secs @ secs') = sections_bytes secs @ sections_bytes secs'"
  by (simp_all add: sections_bytes_def)

text \<open>
  A section list a packet type may carry: ascending, each section small enough for its 16-bit
  size field.
\<close>

definition section_list_ok :: "section_type list \<Rightarrow> section_data list \<Rightarrow> bool" where
  "section_list_ok layout secs \<longleftrightarrow> sorted_wrt (<) (map fst secs) \<and> set (map fst secs) \<subseteq> set layout
     \<and> (\<forall>(t, d) \<in> set secs. 4 + length d < 65536)"

text \<open>
  The bytes after the last section, up to the end of the buffer, are not part of the packet, but
  the accessors read two of them when they look for a section that would come after the last
  one. They do not spell the name of such a section.
\<close>

definition tail_ok :: "section_type list \<Rightarrow> section_data list \<Rightarrow> u8 list \<Rightarrow> bool" where
  "tail_ok layout secs zs \<longleftrightarrow> (\<forall>t \<in> set layout. (\<forall>u \<in> fst ` set secs. u < t) \<longrightarrow>
     2 \<le> length zs \<and> take 2 zs \<noteq> name_bytes t)"

text \<open>It is enough that they spell no section at all, and a packet that carries the last class
  of its layout may be followed by anything, also by the end of the buffer.\<close>

lemma tail_okI:
  "2 \<le> length zs \<Longrightarrow> take 2 zs \<notin> name_bytes ` set layout \<Longrightarrow> tail_ok layout secs zs"
  by (auto simp: tail_ok_def)

lemma tail_ok_last:
  "\<forall>t \<in> set layout. t \<le> last_t \<Longrightarrow> last_t \<in> fst ` set secs \<Longrightarrow> tail_ok layout secs zs"
  unfolding tail_ok_def using leD by blast

text \<open>The sections before class \<open>t\<close>.\<close>

definition sections_before :: "section_type \<Rightarrow> section_data list \<Rightarrow> section_data list" where
  "sections_before t secs = filter (\<lambda>(u, d). u < t) secs"

definition sections_from :: "section_type \<Rightarrow> section_data list \<Rightarrow> section_data list" where
  "sections_from t secs = filter (\<lambda>(u, d). t \<le> u) secs"

lemma sections_split:
  "sorted_wrt (<) (map fst secs) \<Longrightarrow> sections_before t secs @ sections_from t secs = secs"
proof (induction secs)
  case Nil
  then show ?case by (simp add: sections_before_def sections_from_def)
next
  case (Cons s secs)
  obtain u d where s: "s = (u, d)" by (cases s)
  show ?case
  proof (cases "u < t")
    case True
    with Cons show ?thesis
      by (simp add: s sections_before_def sections_from_def)
  next
    case False
    have up: "(\<lambda>(v, e). v < t) x = False" "(\<lambda>(v, e). t \<le> v) x = True" if "x \<in> set secs" for x
    proof -
      have "u < fst x"
        using Cons.prems that by (auto simp: s)
      with False show "(\<lambda>(v, e). v < t) x = False" "(\<lambda>(v, e). t \<le> v) x = True"
        by (auto split: prod.splits)
    qed
    then have "sections_before t secs = []" "sections_from t secs = secs"
      by (simp_all add: sections_before_def sections_from_def filter_empty_conv filter_id_conv)
    with False show ?thesis
      by (simp add: s sections_before_def sections_from_def)
  qed
qed

text \<open>One step of the walk: over a section of the class looked for, and past a missing one.\<close>

lemma chain_end_present:
  assumes "p = length xs" and "4 + length d < 65536"
  shows "chain_end (xs @ section_bytes t d @ zs) p (t # ts)
    = chain_end ((xs @ section_bytes t d) @ zs) (length (xs @ section_bytes t d)) ts"
  using section_found_end [OF assms(1,2), of t zs] assms(1) by simp

lemma chain_end_absent:
  assumes "p = length xs" and "2 \<le> length bs" and "take 2 bs \<noteq> name_bytes t"
  shows "chain_end (xs @ bs) p (t # ts) = chain_end (xs @ bs) p ts"
proof -
  have "section_exists (xs @ bs) (mk_section t p) = Inr False"
    using assms by (simp add: section_exists_iff mk_section_def)
  then show ?thesis
    by (simp add: section_end_absent mk_section_def)
qed

text \<open>
  The walk over any ascending list of classes stops where the sections of those classes end. The
  induction generalises the bytes before the current position.
\<close>

lemma chain_end_sections:
  assumes "sorted_wrt (<) ts" and "sorted_wrt (<) (map fst secs)"
    and "\<forall>(t, d) \<in> set secs. 4 + length d < 65536"
    and "\<And>u t. u \<in> fst ` set secs \<Longrightarrow> t \<in> set ts \<Longrightarrow> u < t \<Longrightarrow> u \<in> set ts"
    and "\<And>t. t \<in> set ts \<Longrightarrow> \<forall>u \<in> fst ` set secs. u < t \<Longrightarrow> 2 \<le> length zs \<and> take 2 zs \<noteq> name_bytes t"
    and "p = length xs"
  shows "chain_end (xs @ sections_bytes secs @ zs) p ts
    = Inr (p + length (sections_bytes (filter (\<lambda>(u, d). u \<in> set ts) secs)))"
  using assms
proof (induction ts arbitrary: xs secs p)
  case Nil
  then show ?case by simp
next
  case (Cons t ts)
  note prems = Cons.prems
  have ts: "sorted_wrt (<) ts" and first: "\<And>v. v \<in> set ts \<Longrightarrow> t < v"
    using prems(1) by auto
  show ?case
  proof (cases "\<exists>d rest. secs = (t, d) # rest")
    case True
    then obtain d rest where secs: "secs = (t, d) # rest" by blast
    have above: "t < u" if "u \<in> fst ` set rest" for u
      using prems(2) that by (auto simp: secs)
    have "t \<notin> fst ` set rest"
      using above by blast
    then have eq: "filter (\<lambda>(u, d). u = t \<or> u \<in> set ts) rest = filter (\<lambda>(u, d). u \<in> set ts) rest"
      by (intro filter_cong refl) force
    let ?xs = "xs @ section_bytes t d"
    have "chain_end (?xs @ sections_bytes rest @ zs) (length ?xs) ts
        = Inr (length ?xs + length (sections_bytes (filter (\<lambda>(u, d). u \<in> set ts) rest)))"
    proof (rule Cons.IH [OF ts _ _ _ _ refl])
      show "sorted_wrt (<) (map fst rest)" and "\<forall>(t, d) \<in> set rest. 4 + length d < 65536"
        using prems(2,3) by (simp_all add: secs)
      show "u \<in> set ts" if "u \<in> fst ` set rest" "v \<in> set ts" "u < v" for u v
        using prems(4) [of u v] that above [OF that(1)] by (auto simp: secs)
      show "2 \<le> length zs \<and> take 2 zs \<noteq> name_bytes v"
        if "v \<in> set ts" "\<forall>u \<in> fst ` set rest. u < v" for v
        using prems(5) [of v] that first [OF that(1)] by (simp add: secs)
    qed
    then show ?thesis
      using prems(3,6) by (subst secs) (simp add: chain_end_present eq secs del: chain_end.simps)
  next
    case False
    have absent: "t \<notin> fst ` set secs"
    proof
      assume t: "t \<in> fst ` set secs"
      then obtain u d rest where secs: "secs = (u, d) # rest" "u \<noteq> t"
        using False by (cases secs) auto
      with t prems(2) have "u < t" by auto
      with prems(4) [of u t] prems(1) show False by (auto simp: secs)
    qed
    then have eq: "filter (\<lambda>(u, d). u = t \<or> u \<in> set ts) secs = filter (\<lambda>(u, d). u \<in> set ts) secs"
      using absent by (intro filter_cong refl) force
    have "take 2 (sections_bytes secs @ zs) \<noteq> name_bytes t" "2 \<le> length (sections_bytes secs @ zs)"
      using absent prems(5) [of t] by (cases secs; force)+
    then have "chain_end (xs @ sections_bytes secs @ zs) p (t # ts)
        = chain_end (xs @ sections_bytes secs @ zs) p ts"
      using prems(6) by (intro chain_end_absent)
    also have "\<dots> = Inr (p + length (sections_bytes (filter (\<lambda>(u, d). u \<in> set ts) secs)))"
    proof (rule Cons.IH [OF ts prems(2,3) _ _ prems(6)])
      show "u \<in> set ts" if "u \<in> fst ` set secs" "v \<in> set ts" "u < v" for u v
        using prems(4) [of u v] that absent by auto
      show "2 \<le> length zs \<and> take 2 zs \<noteq> name_bytes v"
        if "v \<in> set ts" "\<forall>u \<in> fst ` set secs. u < v" for v
        using prems(5) [of v] that by simp
    qed
    finally show ?thesis
      by (simp only: list.set insert_iff eq)
  qed
qed

section \<open>What a packet type provides, and what follows for its packets\<close>

lemma sorted_takeWhile_less:
  fixes t :: section_type
  assumes "sorted_wrt (<) ts" and "t \<in> set ts"
  shows "set (takeWhile (\<lambda>u. u \<noteq> t) ts) = {u \<in> set ts. u < t}"
  using assms by (induction ts) force+

locale section_layout =
  fixes layout :: "section_type list"
  assumes ascending: "sorted_wrt (<) layout"
begin

lemma walk_to_section:
  assumes ok: "section_list_ok layout secs" and tail: "tail_ok layout secs zs"
    and t: "t \<in> set layout" and p: "p = length xs"
  shows "chain_end (xs @ sections_bytes secs @ zs) p (takeWhile (\<lambda>u. u \<noteq> t) layout)
    = Inr (p + length (sections_bytes (sections_before t secs)))"
proof -
  note before = sorted_takeWhile_less [OF ascending t]
  have "filter (\<lambda>(u, d). u \<in> set (takeWhile (\<lambda>u. u \<noteq> t) layout)) secs = sections_before t secs"
    unfolding sections_before_def before using ok
    by (intro filter_cong refl) (force simp: section_list_ok_def)
  moreover have "sorted_wrt (<) (takeWhile (\<lambda>u. u \<noteq> t) layout)"
    using ascending sorted_wrt_append takeWhile_dropWhile_id by metis
  ultimately show ?thesis
    using chain_end_sections [of "takeWhile (\<lambda>u. u \<noteq> t) layout" secs zs p xs] ok tail p
    unfolding before section_list_ok_def tail_ok_def by (force simp: section_order)
qed

text \<open>At that position the section is found exactly when the packet carries it.\<close>

lemma section_exists_at:
  assumes ok: "section_list_ok layout secs" and tail: "tail_ok layout secs zs"
    and t: "t \<in> set layout" and p: "p = length (xs @ sections_bytes (sections_before t secs))"
  shows "section_exists (xs @ sections_bytes secs @ zs) (mk_section t p)
    = Inr (t \<in> fst ` set secs)"
proof -
  have split: "sections_before t secs @ sections_from t secs = secs"
    using ok by (intro sections_split) (simp add: section_list_ok_def)
  have bytes: "sections_bytes secs
      = sections_bytes (sections_before t secs) @ sections_bytes (sections_from t secs)"
    by (subst split [symmetric]) simp
  then have "take 2 (drop p (xs @ sections_bytes secs @ zs))
      = take 2 (sections_bytes (sections_from t secs) @ zs)"
    using p by simp
  moreover have "t \<in> fst ` set secs \<longleftrightarrow> t \<in> fst ` set (sections_from t secs)"
    by (force simp: sections_from_def)
  moreover have "take 2 (sections_bytes (sections_from t secs) @ zs) = name_bytes t
      \<longleftrightarrow> t \<in> fst ` set (sections_from t secs)"
  proof (cases "sections_from t secs")
    case Nil
    then have "\<forall>u \<in> fst ` set secs. u < t"
      by (force simp: sections_from_def filter_empty_conv)
    with Nil show ?thesis using tail t by (simp add: tail_ok_def)
  next
    case (Cons s rest)
    obtain u d where s: "s = (u, d)" by (cases s)
    have "sorted_wrt (<) (map fst (sections_from t secs))"
      using ok split unfolding section_list_ok_def by (metis map_append sorted_wrt_append)
    then have "u \<noteq> t \<Longrightarrow> t \<notin> fst ` set (sections_from t secs)"
      using Cons s set_ConsD [of _ s rest] by (force simp: sections_from_def filter_eq_Cons_iff)
    then show ?thesis by (auto simp: Cons s)
  qed
  moreover have "2 \<le> length (sections_bytes (sections_from t secs) @ zs)"
  proof (cases "sections_from t secs")
    case Nil
    then have "\<forall>u \<in> fst ` set secs. u < t"
      by (force simp: sections_from_def filter_empty_conv)
    with Nil show ?thesis using tail t by (simp add: tail_ok_def)
  qed (auto split: prod.splits)
  then have "p + 2 \<le> length (xs @ sections_bytes secs @ zs)"
    using bytes p by simp
  ultimately show ?thesis
    by (simp add: section_exists_iff mk_section_def)
qed

text \<open>And its contents are the packet's.\<close>

lemma section_contents:
  assumes ok: "section_list_ok layout secs" and d: "(t, d) \<in> set secs"
    and p: "p = length (xs @ sections_bytes (sections_before t secs))"
    and off: "off + n \<le> length d"
  shows "rd (xs @ sections_bytes secs @ zs) (p + sizeof_SectionInfo + off) n
    = Inr (take n (drop off d))"
proof -
  have sorted: "sorted_wrt (<) (map fst secs)"
    using ok by (simp add: section_list_ok_def)
  obtain ls rs where secs: "secs = ls @ (t, d) # rs"
    using d by (meson split_list)
  have "\<forall>s \<in> set ls. fst s < t" "\<forall>s \<in> set rs. t < fst s"
    using sorted by (auto simp: secs sorted_wrt_append)
  then have "filter (\<lambda>(u, d). u < t) ls = ls" "filter (\<lambda>(u, d). u < t) rs = []"
    by (auto intro!: filter_True filter_False)
  then have "sections_before t secs = ls"
    by (simp add: secs sections_before_def)
  then have "xs @ sections_bytes secs @ zs = (xs @ sections_bytes (sections_before t secs)
      @ name_bytes t @ be_mem (set_be (word_of_nat (4 + length d) :: u16))) @ d @ sections_bytes rs @ zs"
    by (simp add: secs section_bytes_def)
  moreover have "p + sizeof_SectionInfo = length (xs @ sections_bytes (sections_before t secs)
      @ name_bytes t @ be_mem (set_be (word_of_nat (4 + length d) :: u16)))"
    using p by (simp add: sizeof_SectionInfo_def)
  ultimately show ?thesis
    by (simp only: rd_append_off [OF off])
qed

end

end
