(* ===== verification/QualityFlags.thy ===== *)
theory QualityFlags
  imports Sections
begin

unbundle bit_operations_syntax

text \<open>
  \<open>sections/q0.hpp\<close>: the 4-bit quality flags, eight to a big-endian 32-bit word. The reference
  the interpreter is compared with reads the flag straight from the byte that holds it.
\<close>

section \<open>The interpreter\<close>

definition qualityWordsBE :: "sonar_section \<Rightarrow> ptr" where
  "qualityWordsBE s = start_bit s + sizeof_SectionInfo"

definition read_be_u32 :: "buffer \<Rightarrow> ptr \<Rightarrow> u32 res" where
  "read_be_u32 buf p = ebind (rd buf p 4) (\<lambda>bs. Inr (
     push_bit 24 (ucast (bs ! 0)) OR push_bit 16 (ucast (bs ! 1))
     OR push_bit 8 (ucast (bs ! 2)) OR push_bit 0 (ucast (bs ! 3))))"

definition getQualityFlag :: "buffer \<Rightarrow> sonar_section \<Rightarrow> u16 \<Rightarrow> u8 res" where
  "getQualityFlag buf s beam_no =
     (let word_index = (ucast beam_no :: u32) div 8;
          nib_index = (ucast beam_no :: u32) mod 8;
          word_ptr = qualityWordsBE s + unat (word_index * 4)
      in ebind (read_be_u32 buf word_ptr) (\<lambda>w.
         let shift = (7 - nib_index) * 4
         in Inr (ucast (drop_bit (unat shift) w AND 0x0F))))"

definition phaseDetect :: "buffer \<Rightarrow> sonar_section \<Rightarrow> u16 \<Rightarrow> bool res" where
  "phaseDetect buf s beam_no = ebind (getQualityFlag buf s beam_no) (\<lambda>f. Inr (f AND 0x08 \<noteq> 0))"

definition magnitudeDetect :: "buffer \<Rightarrow> sonar_section \<Rightarrow> u16 \<Rightarrow> bool res" where
  "magnitudeDetect buf s beam_no = ebind (getQualityFlag buf s beam_no) (\<lambda>f. Inr (f AND 0x04 \<noteq> 0))"

section \<open>The flag of a beam in the byte stream\<close>

text \<open>Two beams to a byte, the even one in the high half.\<close>

definition quality_nibble :: "u8 list \<Rightarrow> nat \<Rightarrow> u8" where
  "quality_nibble qs b =
     (let byte = qs ! (b div 2) in if even b then drop_bit 4 byte else byte AND 0x0F)"

lemma and_15_u8: "(x :: u8) AND 15 = take_bit 4 x"
  by (simp add: take_bit_eq_mask mask_eq_exp_minus_1)

lemma and_15_u32: "(x :: u32) AND 15 = take_bit 4 x"
  by (simp add: take_bit_eq_mask mask_eq_exp_minus_1)

lemma not_bit_u8: "8 \<le> n \<Longrightarrow> \<not> bit (x :: u8) n"
  using bit_imp_le_length [of x n] by auto

text \<open>Cutting the word built from four bytes: the nibble at shift \<open>4 * (7 - k)\<close>.\<close>

lemma word_nibble:
  fixes a b c d :: u8
  defines "w \<equiv> (push_bit 24 (ucast a) OR push_bit 16 (ucast b) OR push_bit 8 (ucast c)
                OR push_bit 0 (ucast d) :: u32)"
  assumes "k < 8"
  shows "(ucast (drop_bit ((7 - k) * 4) w AND 0x0F) :: u8) = quality_nibble [a, b, c, d] k"
proof -
  have cases: "k = 0 \<or> k = 1 \<or> k = 2 \<or> k = 3 \<or> k = 4 \<or> k = 5 \<or> k = 6 \<or> k = 7"
    using assms(2) by arith
  have nib: "(ucast (drop_bit (8 * j + 4) w AND 0x0F) :: u8) = drop_bit 4 x"
      "(ucast (drop_bit (8 * j) w AND 0x0F) :: u8) = take_bit 4 x"
    if "\<And>n. n < 8 \<Longrightarrow> bit w (8 * j + n) = bit x n" for j and x :: u8
  proof -
    have b: "bit w (8 * j + n) = bit x n" if "n < 8" for n
      using \<open>\<And>n. n < 8 \<Longrightarrow> bit w (8 * j + n) = bit x n\<close> [OF that] .
    have "bit x (4 + n) \<longleftrightarrow> n < 4 \<and> bit w (8 * j + 4 + n)" for n
      using b [of "4 + n"] bit_imp_le_length [of x "4 + n"] by (cases "n < 4") (auto simp: add.assoc)
    then show "(ucast (drop_bit (8 * j + 4) w AND 0x0F) :: u8) = drop_bit 4 x"
      by (intro bit_word_eqI) (auto simp: and_15_u32 bit_simps)
    show "(ucast (drop_bit (8 * j) w AND 0x0F) :: u8) = take_bit 4 x"
      by (intro bit_word_eqI) (auto simp: and_15_u32 bit_simps b)
  qed
  have "bit w n = bit d n" "bit w (8 + n) = bit c n" "bit w (16 + n) = bit b n"
      "bit w (24 + n) = bit a n" if "n < 8" for n
    using that by (auto simp: w_def bit_simps not_bit_u8)
  then show ?thesis
    using cases nib [of 0 d] nib [of 1 c] nib [of 2 b] nib [of 3 a]
    by (auto simp: quality_nibble_def Let_def and_15_u8)
qed

lemma quality_flag_word:
  assumes "start_bit s + 4 + 4 * (unat beam_no div 8) + 4 \<le> length buf"
  shows "getQualityFlag buf s beam_no
         = Inr (quality_nibble (drop (start_bit s + 4) buf) (unat beam_no))"
proof -
  define i where "i = unat beam_no div 8"
  define k where "k = unat beam_no mod 8"
  define p where "p = start_bit s + 4 + 4 * i"
  have k: "k < 8" by (simp add: k_def)
  have bi: "unat beam_no = 8 * i + k" by (simp add: i_def k_def)
  have len: "p + 4 \<le> length buf"
    using assms by (simp add: p_def i_def)
  have i16: "i < 8192"
    using unat_bound [of beam_no] by (simp add: i_def)
  have wi: "unat ((ucast beam_no :: u32) div 8 * 4) = 4 * i"
    using i16 by (simp add: unat_word_ariths unat_div i_def)
  have ni: "unat ((7 - (ucast beam_no :: u32) mod 8) * 4) = (7 - k) * 4"
  proof -
    have "unat ((ucast beam_no :: u32) mod 8) = k"
      by (simp add: unat_mod k_def)
    moreover from this have "(ucast beam_no :: u32) mod 8 \<le> 7"
      using k by (simp add: word_le_nat_alt)
    ultimately have "unat (7 - (ucast beam_no :: u32) mod 8) = 7 - k"
      by (simp only: unat_sub) simp
    then show ?thesis
      by (subst unat_word_ariths) simp
  qed
  have bytes: "take 4 (drop p buf) = [buf ! p, buf ! (p + 1), buf ! (p + 2), buf ! (p + 3)]"
    using len by (intro nth_equalityI) (auto simp: less_Suc_eq numeral_eq_Suc)
  have ptr: "qualityWordsBE s + 4 * i = p"
    by (simp add: qualityWordsBE_def sizeof_SectionInfo_def p_def)
  have flag: "getQualityFlag buf s beam_no
      = Inr (quality_nibble [buf ! p, buf ! (p + 1), buf ! (p + 2), buf ! (p + 3)] k)"
    unfolding getQualityFlag_def Let_def wi ni ptr read_be_u32_def
    using len by (simp add: rd_def bytes word_nibble [OF k, simplified])
  have "[buf ! p, buf ! (p + 1), buf ! (p + 2), buf ! (p + 3)] ! (k div 2)
      = drop (start_bit s + 4) buf ! (unat beam_no div 2)"
  proof -
    have "unat beam_no div 2 = 4 * i + k div 2"
      unfolding bi by simp
    moreover have "k div 2 = 0 \<or> k div 2 = 1 \<or> k div 2 = 2 \<or> k div 2 = 3"
      using k by arith
    ultimately show ?thesis
      using len by (auto simp: p_def)
  qed
  moreover have "even (unat beam_no) \<longleftrightarrow> even k"
    unfolding bi by simp
  ultimately show ?thesis
    by (simp add: flag quality_nibble_def)
qed

text \<open>The two detection bits of a beam's nibble: bit 3 is phase, bit 2 is magnitude.\<close>

lemma detect_flags:
  assumes "getQualityFlag buf s b = Inr f"
  shows "phaseDetect buf s b = Inr (bit f 3)" and "magnitudeDetect buf s b = Inr (bit f 2)"
proof -
  have "f AND 8 = f AND push_bit 3 1" "f AND 4 = f AND push_bit 2 1" by simp_all
  then have "f AND 8 \<noteq> 0 \<longleftrightarrow> bit f 3" "f AND 4 \<noteq> 0 \<longleftrightarrow> bit f 2"
    by (simp_all only: and_exp_eq_0_iff_not_bit push_bit_of_1 not_not)
  with assms show "phaseDetect buf s b = Inr (bit f 3)" "magnitudeDetect buf s b = Inr (bit f 2)"
    by (simp_all add: phaseDetect_def magnitudeDetect_def)
qed

text \<open>
  C27: on every beam whose word lies in the buffer, the shift-and-mask of the interpreter returns
  the nibble of the byte that carries the beam's flags: the high half for even beams, the low
  half for odd ones; its bit 3 is what \<open>phaseDetect\<close> answers and bit 2 what \<open>magnitudeDetect\<close> answers.
\<close>

theorem quality_flag_nibble:
  assumes "start_bit s + 4 + 4 * (unat beam_no div 8) + 4 \<le> length buf"
    and "nibble = quality_nibble (drop (start_bit s + 4) buf) (unat beam_no)"
  shows "getQualityFlag buf s beam_no = Inr nibble \<and> phaseDetect buf s beam_no = Inr (bit nibble 3)
    \<and> magnitudeDetect buf s beam_no = Inr (bit nibble 2)"
  using quality_flag_word [OF assms(1)] detect_flags assms(2) by simp

theorem quality_flag_nibble_witness:
  "getQualityFlag [0x51, 0x30, 0, 12, 0x84, 0xC1, 0, 0, 0, 0, 0, 0x2F] (mk_section Q0 0) 15
     = Inr (quality_nibble (drop 4 [0x51, 0x30, 0, 12, 0x84, 0xC1, 0, 0, 0, 0, 0, 0x2F]) 15)"
  using quality_flag_nibble [of "mk_section Q0 0" 15
    "[0x51, 0x30, 0, 12, 0x84, 0xC1, 0, 0, 0, 0, 0, 0x2F]", OF _ refl]
  by (simp add: mk_section_def)

lemma getQualityFlag_returns:
  assumes "start_bit s + 4 + 4 * (unat beam_no div 8) + 4 \<le> length buf"
  shows "\<exists>f. getQualityFlag buf s beam_no = Inr f"
proof -
  have "unat beam_no div 8 * 4 < 2 ^ 32"
    using unat_bound [of beam_no] by simp
  then have "unat ((ucast beam_no :: u32) div 8 * 4) = unat beam_no div 8 * 4"
    by (simp add: unat_word_ariths unat_div)
  with assms show ?thesis
    by (simp add: getQualityFlag_def Let_def read_be_u32_def rd_def qualityWordsBE_def
        sizeof_SectionInfo_def)
qed

end
