(* ===== verification/Magnitudes.thy ===== *)
theory Magnitudes
  imports Sections
begin

text \<open>
  \<open>sections/m0.hpp\<close>: the header of an acoustic image section and the address of one magnitude
  sample. The index arithmetic keeps the types of the source: beam numbers are promoted to
  \<open>int\<close>, the bin number arrives as 16 bits and is subtracted as an unsigned 32-bit value.
\<close>

section \<open>The interpreter\<close>

record M0_Body =
  M0_PingNumber :: BE_u32
  M0_ScalingFactor :: BE_f32
  M0_TotalSamples :: BE_u32
  M0_TotalBins :: BE_u32
  M0_FirstBin :: BE_u32
  M0_Bins :: BE_u16
  M0_TotalBeams :: BE_u16
  M0_FirstBeam :: BE_u16
  M0_Beams :: BE_u16
  M0_reserved :: BE_u32

definition sizeof_M0_Body :: nat where
  "sizeof_M0_Body = 32"

definition M0_Body_of :: "u8 list \<Rightarrow> M0_Body" where
  "M0_Body_of bs =
     \<lparr>M0_PingNumber = field_be bs 0, M0_ScalingFactor = field_be bs 4,
      M0_TotalSamples = field_be bs 8, M0_TotalBins = field_be bs 12,
      M0_FirstBin = field_be bs 16, M0_Bins = field_be bs 20,
      M0_TotalBeams = field_be bs 22, M0_FirstBeam = field_be bs 24,
      M0_Beams = field_be bs 26, M0_reserved = field_be bs 28\<rparr>"

definition M0_body :: "buffer \<Rightarrow> sonar_section \<Rightarrow> ptr res" where
  "M0_body buf s = ebind (existanceErrorCheck buf s) (\<lambda>_. Inr (start_bit s + sizeof_SectionInfo))"

definition load_M0_Body :: "buffer \<Rightarrow> ptr \<Rightarrow> M0_Body res" where
  "load_M0_Body buf p = ebind (rd buf p sizeof_M0_Body) (\<lambda>bs. Inr (M0_Body_of bs))"

definition M0_magnitude :: "buffer \<Rightarrow> sonar_section \<Rightarrow> u16 \<Rightarrow> u16 \<Rightarrow> ptr res" where
  "M0_magnitude buf s beam_no bin_no =
     ebind (existanceErrorCheck buf s) (\<lambda>_.
     ebind (M0_body buf s) (\<lambda>p. ebind (load_M0_Body buf p) (\<lambda>b.
     let beam_idx = uint beam_no - uint (get (M0_FirstBeam b));
         bin_idx = (ucast bin_no :: u32) - get (M0_FirstBin b)
     in ebind (int_result (beam_idx * uint (get (M0_Bins b)))) (\<lambda>row.
        Inr (start_bit s + sizeof_SectionInfo + sizeof_M0_Body
             + unat (bin_idx + word_of_int row))))))"

section \<open>Where a sample lies\<close>

text \<open>
  For a beam and bin of the section, with bin numbers that fit 16 bits, the sample is found in
  row-major order: one row of \<open>Bins\<close> samples per beam.
\<close>

lemma M0_magnitude_addr:
  assumes ex: "section_exists buf s = Inr True"
    and body: "load_M0_Body buf (start_bit s + 4) = Inr b"
    and beam: "unat (get (M0_FirstBeam b)) \<le> unat beam_no"
    and bin: "unat (get (M0_FirstBin b)) \<le> unat bin_no"
    and small: "(unat beam_no - unat (get (M0_FirstBeam b))) * unat (get (M0_Bins b))
                + (unat bin_no - unat (get (M0_FirstBin b))) < 2 ^ 31"
  shows "M0_magnitude buf s beam_no bin_no = Inr (start_bit s + 36
     + ((unat beam_no - unat (get (M0_FirstBeam b))) * unat (get (M0_Bins b))
        + (unat bin_no - unat (get (M0_FirstBin b)))))"
proof -
  define r where "r = (unat beam_no - unat (get (M0_FirstBeam b))) * unat (get (M0_Bins b))"
  define c where "c = unat bin_no - unat (get (M0_FirstBin b))"
  have rc: "r + c < 2 ^ 31" using small by (simp add: r_def c_def)
  have row: "(uint beam_no - uint (get (M0_FirstBeam b))) * uint (get (M0_Bins b)) = int r"
    using beam by (simp add: r_def of_nat_diff)
  have fits: "fits_int (int r)"
    using rc by (simp add: fits_int_def)
  have "get (M0_FirstBin b) \<le> ucast bin_no"
    using bin by (simp add: word_le_nat_alt)
  then have "unat ((ucast bin_no :: u32) - get (M0_FirstBin b)) = c"
    by (simp add: unat_sub c_def)
  moreover have "unat (word_of_nat r :: u32) = r"
    using rc unfolding unat_of_nat by simp
  ultimately have idx: "unat ((ucast bin_no :: u32) - get (M0_FirstBin b) + word_of_int (int r)) = c + r"
    using rc unfolding of_int_of_nat_eq by (subst unat_word_ariths) simp
  have check: "existanceErrorCheck buf s = Inr ()"
    using ex by (simp add: existanceErrorCheck_iff)
  show ?thesis
    using body fits
    by (simp only: M0_magnitude_def M0_body_def check ebind.simps sizeof_SectionInfo_def Let_def
        row int_result_def if_True idx sizeof_M0_Body_def r_def [symmetric] c_def [symmetric])
      simp
qed

end
