(* ===== verification/Packets.thy ===== *)
theory Packets
  imports SectionChain QualityFlags Magnitudes
begin

text \<open>
  \<open>packets/packet.hpp\<close>, \<open>packets/bth0.hpp\<close> and \<open>packets/aid0.hpp\<close>: the packet header, the type
  check, and the accessors that find a packet's sections. The accessors call one another as in
  the source, each repeating the type check. The two packet types interpret \<open>section_layout\<close>.
\<close>

section \<open>The base class\<close>

text \<open>\<open>struct MiniHeader\<close> of \<open>sections/miniheader.hpp\<close>.\<close>

record MiniHeader =
  PacketName :: "u8 list"
  PacketSize :: BE_u32
  DataStreamID :: BE_u32

definition sizeof_MiniHeader :: nat where
  "sizeof_MiniHeader = 12"

definition MiniHeader_of :: "u8 list \<Rightarrow> MiniHeader" where
  "MiniHeader_of bs = \<lparr>PacketName = take 4 bs, PacketSize = field_be bs 4,
     DataStreamID = field_be bs 8\<rparr>"

datatype packet_type = BTH0 | AID0

definition BTH0_nominalType :: string where
  [simp]: "BTH0_nominalType = ''BTH0''"

definition AID0_nominalType :: string where
  [simp]: "AID0_nominalType = ''AID0''"

fun packet_nominalType :: "packet_type \<Rightarrow> string" where
  "packet_nominalType BTH0 = BTH0_nominalType"
| "packet_nominalType AID0 = AID0_nominalType"

record packet =
  pkt_type :: packet_type
  pkt_start :: ptr

definition mk_packet :: "packet_type \<Rightarrow> ptr \<Rightarrow> packet" where
  "mk_packet t p = \<lparr>pkt_type = t, pkt_start = p\<rparr>"

definition miniHeader :: "buffer \<Rightarrow> packet \<Rightarrow> MiniHeader res" where
  "miniHeader buf pkt = ebind (rd buf (pkt_start pkt) sizeof_MiniHeader) (\<lambda>bs. Inr (MiniHeader_of bs))"

definition startBit :: "packet \<Rightarrow> ptr" where
  "startBit pkt = pkt_start pkt"

text \<open>The 32-bit size of the header is returned as 16 bits.\<close>

definition packet_getSize :: "buffer \<Rightarrow> packet \<Rightarrow> u16 res" where
  "packet_getSize buf pkt = ebind (miniHeader buf pkt) (\<lambda>h. Inr (ucast (get (PacketSize h))))"

definition packet_end :: "buffer \<Rightarrow> packet \<Rightarrow> ptr res" where
  "packet_end buf pkt = ebind (packet_getSize buf pkt) (\<lambda>n. Inr (startBit pkt + unat n))"

definition SectionsStartBit :: "packet \<Rightarrow> ptr" where
  "SectionsStartBit pkt = startBit pkt + sizeof_MiniHeader"

definition packet_isType :: "buffer \<Rightarrow> packet \<Rightarrow> bool res" where
  "packet_isType buf pkt = ebind (miniHeader buf pkt) (\<lambda>h.
     Inr (strncmp (PacketName h) (c_string (packet_nominalType (pkt_type pkt))) 4 = 0))"

text \<open>A \<open>std::string\<close> built from a \<open>char*\<close>: up to the first NUL, wherever that is.\<close>

definition string_at :: "buffer \<Rightarrow> ptr \<Rightarrow> string res" where
  "string_at buf p =
     (if 0 \<in> set (drop p buf)
      then Inr (map (\<lambda>b. char_of (unat b)) (takeWhile (\<lambda>b. b \<noteq> 0) (drop p buf)))
      else Inl (Undefined ReadOutOfBounds))"

definition typeErrorCheck :: "buffer \<Rightarrow> packet \<Rightarrow> unit res" where
  "typeErrorCheck buf pkt = ebind (packet_isType buf pkt) (\<lambda>ok.
     if \<not> ok then
       ebind (string_at buf (pkt_start pkt)) (\<lambda>rec.
         Inl (OutOfRange (''Attempted to interpret a '' @ rec @ '' as a ''
                @ packet_nominalType (pkt_type pkt) @ '' message.'')))
     else Inr ())"

section \<open>BTH0 and its sections\<close>

definition BTH0_h0 :: "buffer \<Rightarrow> packet \<Rightarrow> sonar_section res" where
  "BTH0_h0 buf pkt = ebind (typeErrorCheck buf pkt) (\<lambda>_. Inr (mk_section H0 (SectionsStartBit pkt)))"

definition BTH0_r0 :: "buffer \<Rightarrow> packet \<Rightarrow> sonar_section res" where
  "BTH0_r0 buf pkt = ebind (typeErrorCheck buf pkt) (\<lambda>_.
     ebind (BTH0_h0 buf pkt) (\<lambda>s. ebind (section_end buf s) (\<lambda>p. Inr (mk_section R0 p))))"

definition BTH0_a0 :: "buffer \<Rightarrow> packet \<Rightarrow> sonar_section res" where
  "BTH0_a0 buf pkt = ebind (typeErrorCheck buf pkt) (\<lambda>_.
     ebind (BTH0_r0 buf pkt) (\<lambda>s. ebind (section_end buf s) (\<lambda>p. Inr (mk_section A0 p))))"

definition BTH0_a2 :: "buffer \<Rightarrow> packet \<Rightarrow> sonar_section res" where
  "BTH0_a2 buf pkt = ebind (typeErrorCheck buf pkt) (\<lambda>_.
     ebind (BTH0_a0 buf pkt) (\<lambda>s. ebind (section_end buf s) (\<lambda>p. Inr (mk_section A2 p))))"

definition BTH0_i1 :: "buffer \<Rightarrow> packet \<Rightarrow> sonar_section res" where
  "BTH0_i1 buf pkt = ebind (typeErrorCheck buf pkt) (\<lambda>_.
     ebind (BTH0_a2 buf pkt) (\<lambda>s. ebind (section_end buf s) (\<lambda>p. Inr (mk_section I1 p))))"

definition BTH0_g0 :: "buffer \<Rightarrow> packet \<Rightarrow> sonar_section res" where
  "BTH0_g0 buf pkt = ebind (typeErrorCheck buf pkt) (\<lambda>_.
     ebind (BTH0_i1 buf pkt) (\<lambda>s. ebind (section_end buf s) (\<lambda>p. Inr (mk_section G0 p))))"

definition BTH0_g1 :: "buffer \<Rightarrow> packet \<Rightarrow> sonar_section res" where
  "BTH0_g1 buf pkt = ebind (typeErrorCheck buf pkt) (\<lambda>_.
     ebind (BTH0_g0 buf pkt) (\<lambda>s. ebind (section_end buf s) (\<lambda>p. Inr (mk_section G1 p))))"

definition BTH0_q0 :: "buffer \<Rightarrow> packet \<Rightarrow> sonar_section res" where
  "BTH0_q0 buf pkt = ebind (typeErrorCheck buf pkt) (\<lambda>_.
     ebind (BTH0_g1 buf pkt) (\<lambda>s. ebind (section_end buf s) (\<lambda>p. Inr (mk_section Q0 p))))"

section \<open>AID0 and its sections\<close>

definition AID0_h0 :: "buffer \<Rightarrow> packet \<Rightarrow> sonar_section res" where
  "AID0_h0 buf pkt = ebind (typeErrorCheck buf pkt) (\<lambda>_. Inr (mk_section H0 (SectionsStartBit pkt)))"

definition AID0_a1 :: "buffer \<Rightarrow> packet \<Rightarrow> sonar_section res" where
  "AID0_a1 buf pkt = ebind (typeErrorCheck buf pkt) (\<lambda>_.
     ebind (AID0_h0 buf pkt) (\<lambda>s. ebind (section_end buf s) (\<lambda>p. Inr (mk_section A1 p))))"

definition AID0_m0 :: "buffer \<Rightarrow> packet \<Rightarrow> sonar_section res" where
  "AID0_m0 buf pkt = ebind (typeErrorCheck buf pkt) (\<lambda>_.
     ebind (AID0_a1 buf pkt) (\<lambda>s. ebind (section_end buf s) (\<lambda>p. Inr (mk_section M0 p))))"

definition isFirstInSeries :: "buffer \<Rightarrow> packet \<Rightarrow> bool res" where
  "isFirstInSeries buf pkt = ebind (AID0_h0 buf pkt) (section_exists buf)"

definition AID0_getPingNo :: "buffer \<Rightarrow> packet \<Rightarrow> u32 res" where
  "AID0_getPingNo buf pkt =
     ebind (AID0_h0 buf pkt) (\<lambda>h. ebind (section_exists buf h) (\<lambda>has_h.
     ebind (if has_h then ebind (load_H0_Body buf (H0_body h)) (\<lambda>b. Inr (get (H0_PingNumber b)))
            else Inr 0) (\<lambda>n.
     ebind (AID0_m0 buf pkt) (\<lambda>m. ebind (section_exists buf m) (\<lambda>has_m.
     if has_m then ebind (M0_body buf m) (\<lambda>p. ebind (load_M0_Body buf p) (\<lambda>b.
       Inr (get (M0_PingNumber b))))
     else Inr n)))))"

section \<open>Recognising a packet\<close>

definition packet_name_bytes :: "packet_type \<Rightarrow> u8 list" where
  "packet_name_bytes t = str_bytes (packet_nominalType t)"

lemma packet_name_bytes_eval [simp]:
  "packet_name_bytes BTH0 = [0x42, 0x54, 0x48, 0x30]"
  "packet_name_bytes AID0 = [0x41, 0x49, 0x44, 0x30]"
  by (simp_all add: packet_name_bytes_def str_bytes_def)

lemma length_packet_name_bytes [simp]: "length (packet_name_bytes t) = 4"
  by (cases t) simp_all

lemma packet_isType_iff:
  "packet_isType buf pkt = Inr b \<longleftrightarrow> pkt_start pkt + 12 \<le> length buf
     \<and> (b \<longleftrightarrow> take 4 (drop (pkt_start pkt) buf) = packet_name_bytes (pkt_type pkt))"
proof -
  have "c_string (packet_nominalType t) = packet_name_bytes t @ [0]" for t
    by (simp add: c_string_def packet_name_bytes_def)
  moreover have "0 \<notin> set (packet_name_bytes t)" for t
    by (cases t) simp_all
  ultimately show ?thesis
    by (auto simp: packet_isType_def miniHeader_def MiniHeader_of_def sizeof_MiniHeader_def
        res_simps strncmp_zero_iff)
qed

lemma typeErrorCheck_iff:
  "typeErrorCheck buf pkt = Inr u \<longleftrightarrow> packet_isType buf pkt = Inr True"
  by (auto simp: typeErrorCheck_def res_simps split: if_splits)

text \<open>The whole packet, laid out as the uplink format describes it.\<close>

definition packet_bytes :: "packet_type \<Rightarrow> u32 \<Rightarrow> section_data list \<Rightarrow> u8 list" where
  "packet_bytes t stream secs = packet_name_bytes t
     @ be_mem (set_be (word_of_nat (12 + length (sections_bytes secs)) :: u32))
     @ be_mem (set_be stream) @ sections_bytes secs"

lemma length_packet_bytes [simp]:
  "length (packet_bytes t stream secs) = 12 + length (sections_bytes secs)"
  by (simp add: packet_bytes_def)

lemma packet_type_found:
  "packet_isType (xs @ packet_bytes t stream secs @ zs) (mk_packet u (length xs)) = Inr (t = u)"
  by (auto simp: packet_isType_iff mk_packet_def packet_bytes_def) (cases t; cases u; simp)+

lemma packet_getSize_found:
  "packet_getSize (xs @ packet_bytes t stream secs @ zs) (mk_packet u (length xs))
   = Inr (word_of_nat (12 + length (sections_bytes secs)))"
proof -
  let ?n = "word_of_nat (12 + length (sections_bytes secs)) :: u32"
  have "take 12 (packet_bytes t stream secs) = packet_name_bytes t @ be_mem (set_be ?n) @ be_mem (set_be stream)"
    by (simp add: packet_bytes_def)
  moreover have "field_be (packet_name_bytes t @ be_mem (set_be ?n) @ be_mem (set_be stream)) 4 = set_be ?n"
    by (rule field_be_append) simp_all
  ultimately show ?thesis
    by (simp add: packet_getSize_def miniHeader_def rd_def mk_packet_def sizeof_MiniHeader_def
        MiniHeader_of_def ucast_u16_of_nat del: of_nat_add)
qed

section \<open>The sections of a laid-out packet\<close>

text \<open>Where the sections of a well-formed packet start.\<close>

definition section_pos :: "ptr \<Rightarrow> section_type \<Rightarrow> section_data list \<Rightarrow> ptr" where
  "section_pos p t secs = p + 12 + length (sections_bytes (sections_before t secs))"

definition header_bytes :: "packet_type \<Rightarrow> u32 \<Rightarrow> section_data list \<Rightarrow> u8 list" where
  "header_bytes t stream secs = packet_name_bytes t
     @ be_mem (set_be (word_of_nat (12 + length (sections_bytes secs)) :: u32)) @ be_mem (set_be stream)"

lemma packet_bytes_header:
  "xs @ packet_bytes t stream secs @ zs = (xs @ header_bytes t stream secs) @ sections_bytes secs @ zs"
  and length_header_bytes [simp]: "length (header_bytes t stream secs) = 12"
  by (simp_all add: packet_bytes_def header_bytes_def)

context section_layout
begin

text \<open>A packet of a type with this layout: the walk, the presence and the contents of a section.\<close>

lemma packet_section:
  assumes ok: "section_list_ok layout secs" and tail: "tail_ok layout secs zs" and t: "t \<in> set layout"
  shows "chain_end (xs @ packet_bytes u stream secs @ zs) (length xs + 12) (takeWhile (\<lambda>u. u \<noteq> t) layout)
      = Inr (section_pos (length xs) t secs)"
    and "section_exists (xs @ packet_bytes u stream secs @ zs) (mk_section t (section_pos (length xs) t secs))
      = Inr (t \<in> fst ` set secs)"
proof -
  let ?xs = "xs @ header_bytes u stream secs"
  have p: "section_pos (length xs) t secs = length ?xs + length (sections_bytes (sections_before t secs))"
    by (simp add: section_pos_def)
  show "chain_end (xs @ packet_bytes u stream secs @ zs) (length xs + 12) (takeWhile (\<lambda>u. u \<noteq> t) layout)
      = Inr (section_pos (length xs) t secs)"
    unfolding packet_bytes_header p by (subst walk_to_section [OF ok tail t]) simp_all
  show "section_exists (xs @ packet_bytes u stream secs @ zs) (mk_section t (section_pos (length xs) t secs))
      = Inr (t \<in> fst ` set secs)"
    unfolding packet_bytes_header p by (rule section_exists_at [OF ok tail t]) simp
qed

lemma packet_section_contents:
  assumes "section_list_ok layout secs" and "(t, d) \<in> set secs" and "off + n \<le> length d"
  shows "rd (xs @ packet_bytes u stream secs @ zs)
      (section_pos (length xs) t secs + sizeof_SectionInfo + off) n = Inr (take n (drop off d))"
  unfolding packet_bytes_header using assms
  by (intro section_contents) (simp_all add: section_pos_def)

end

section \<open>The accessors as walks\<close>

definition bth0_layout :: "section_type list" where
  "bth0_layout = [H0, R0, A0, A2, I1, G0, G1, Q0]"

definition aid0_layout :: "section_type list" where
  "aid0_layout = [H0, A1, M0]"

interpretation bth0: section_layout bth0_layout
  by unfold_locales (simp add: bth0_layout_def section_order)

interpretation aid0: section_layout aid0_layout
  by unfold_locales (simp add: aid0_layout_def section_order)

text \<open>Every accessor with the class of the section it returns.\<close>

definition BTH0_accessors :: "(section_type \<times> (buffer \<Rightarrow> packet \<Rightarrow> sonar_section res)) list" where
  "BTH0_accessors = [(H0, BTH0_h0), (R0, BTH0_r0), (A0, BTH0_a0), (A2, BTH0_a2), (I1, BTH0_i1),
     (G0, BTH0_g0), (G1, BTH0_g1), (Q0, BTH0_q0)]"

definition AID0_accessors :: "(section_type \<times> (buffer \<Rightarrow> packet \<Rightarrow> sonar_section res)) list" where
  "AID0_accessors = [(H0, AID0_h0), (A1, AID0_a1), (M0, AID0_m0)]"

lemma start_bit_mk_section [simp]: "start_bit (mk_section t p) = p"
  by (simp add: mk_section_def)

lemma sec_type_mk_section [simp]: "sec_type (mk_section t p) = t"
  by (simp add: mk_section_def)

lemma BTH0_accessor_walk:
  assumes "(t, acc) \<in> set BTH0_accessors" and "typeErrorCheck buf pkt = Inr ()"
  shows "acc buf pkt = ebind (chain_end buf (SectionsStartBit pkt) (takeWhile (\<lambda>u. u \<noteq> t) bth0_layout))
                         (\<lambda>p. Inr (mk_section t p))"
  using assms
  by (auto simp: BTH0_accessors_def bth0_layout_def BTH0_h0_def BTH0_r0_def BTH0_a0_def BTH0_a2_def
      BTH0_i1_def BTH0_g0_def BTH0_g1_def BTH0_q0_def ebind_assoc)

lemma AID0_accessor_walk:
  assumes "(t, acc) \<in> set AID0_accessors" and "typeErrorCheck buf pkt = Inr ()"
  shows "acc buf pkt = ebind (chain_end buf (SectionsStartBit pkt) (takeWhile (\<lambda>u. u \<noteq> t) aid0_layout))
                         (\<lambda>p. Inr (mk_section t p))"
  using assms
  by (auto simp: AID0_accessors_def aid0_layout_def AID0_h0_def AID0_a1_def AID0_m0_def ebind_assoc)

lemma accessor_layouts:
  "(t, acc) \<in> set BTH0_accessors \<Longrightarrow> t \<in> set bth0_layout"
  "(u, acc') \<in> set AID0_accessors \<Longrightarrow> u \<in> set aid0_layout"
  by (auto simp: BTH0_accessors_def bth0_layout_def AID0_accessors_def aid0_layout_def)

lemma typed_packet_check:
  "typeErrorCheck (xs @ packet_bytes t stream secs @ zs) (mk_packet t (length xs)) = Inr ()"
  by (simp add: typeErrorCheck_iff packet_type_found)

lemma SectionsStartBit_mk [simp]: "SectionsStartBit (mk_packet t p) = p + 12"
  by (simp add: SectionsStartBit_def startBit_def mk_packet_def sizeof_MiniHeader_def)

lemma BTH0_accessor_found:
  assumes ok: "section_list_ok bth0_layout secs" and tail: "tail_ok bth0_layout secs zs"
    and acc: "(t, acc) \<in> set BTH0_accessors"
  shows "acc (xs @ packet_bytes BTH0 stream secs @ zs) (mk_packet BTH0 (length xs))
      = Inr (mk_section t (section_pos (length xs) t secs))"
    and "section_exists (xs @ packet_bytes BTH0 stream secs @ zs)
        (mk_section t (section_pos (length xs) t secs)) = Inr (t \<in> fst ` set secs)"
  using bth0.packet_section [OF ok tail accessor_layouts(1) [OF acc]]
  by (simp_all add: BTH0_accessor_walk [OF acc] typed_packet_check)

lemma AID0_accessor_found:
  assumes ok: "section_list_ok aid0_layout secs" and tail: "tail_ok aid0_layout secs zs"
    and acc: "(t, acc) \<in> set AID0_accessors"
  shows "acc (xs @ packet_bytes AID0 stream secs @ zs) (mk_packet AID0 (length xs))
      = Inr (mk_section t (section_pos (length xs) t secs))"
    and "section_exists (xs @ packet_bytes AID0 stream secs @ zs)
        (mk_section t (section_pos (length xs) t secs)) = Inr (t \<in> fst ` set secs)"
  using aid0.packet_section [OF ok tail accessor_layouts(2) [OF acc]]
  by (simp_all add: AID0_accessor_walk [OF acc] typed_packet_check)

text \<open>What the accessors of a packet type show of a buffer: the sections, and where they are.\<close>

definition packet_view ::
  "(section_type \<times> (buffer \<Rightarrow> packet \<Rightarrow> sonar_section res)) list \<Rightarrow> buffer \<Rightarrow> packet
   \<Rightarrow> section_data list \<Rightarrow> (section_type \<Rightarrow> ptr) \<Rightarrow> bool" where
  "packet_view accs buf pkt secs pos \<longleftrightarrow>
     (\<forall>(t, acc) \<in> set accs. acc buf pkt = Inr (mk_section t (pos t))
        \<and> section_exists buf (mk_section t (pos t)) = Inr (t \<in> fst ` set secs))
     \<and> (\<forall>(t, d) \<in> set secs. rd buf (pos t + sizeof_SectionInfo) (length d) = Inr d)"

lemma bth0_packet_view:
  assumes "section_list_ok bth0_layout secs" and "tail_ok bth0_layout secs zs"
  shows "packet_view BTH0_accessors (xs @ packet_bytes BTH0 stream secs @ zs)
    (mk_packet BTH0 (length xs)) secs (\<lambda>t. section_pos (length xs) t secs)"
  using BTH0_accessor_found [OF assms] bth0.packet_section_contents [OF assms(1), of _ _ 0]
  by (auto simp: packet_view_def)

lemma aid0_packet_view:
  assumes "section_list_ok aid0_layout secs" and "tail_ok aid0_layout secs zs"
  shows "packet_view AID0_accessors (xs @ packet_bytes AID0 stream secs @ zs)
    (mk_packet AID0 (length xs)) secs (\<lambda>t. section_pos (length xs) t secs)"
  using AID0_accessor_found [OF assms] aid0.packet_section_contents [OF assms(1), of _ _ 0]
  by (auto simp: packet_view_def)

lemma view_contents:
  assumes "packet_view accs buf pkt secs pos" and "(t, d) \<in> set secs"
  shows "rd buf (pos t + sizeof_SectionInfo) (length d) = Inr d"
  using assms by (auto simp: packet_view_def)

lemma rd_block: "rd buf p (length d) = Inr d \<Longrightarrow> n \<le> length d \<Longrightarrow> rd buf p n = Inr (take n d)"
  by (auto simp: rd_def take_take min_def dest: arg_cong [where f = "take n"] split: if_splits)

text \<open>A header block at the start of a section's contents.\<close>

lemma view_block:
  assumes "packet_view accs buf pkt secs pos" and "(t, d) \<in> set secs" and "n \<le> length d"
  shows "rd buf (pos t + sizeof_SectionInfo) n = Inr (take n d)"
  using assms by (intro rd_block view_contents)

text \<open>The sections of a packet class, in order, and their accessors.\<close>

fun packet_layout :: "packet_type \<Rightarrow> section_type list" where
  "packet_layout BTH0 = bth0_layout"
| "packet_layout AID0 = aid0_layout"

fun packet_accessors :: "packet_type \<Rightarrow> (section_type \<times> (buffer \<Rightarrow> packet \<Rightarrow> sonar_section res)) list" where
  "packet_accessors BTH0 = BTH0_accessors"
| "packet_accessors AID0 = AID0_accessors"



text \<open>
  The walk does not know where the packet ends: bytes behind it that spell the name of a section it
  does not carry are taken for that section.
\<close>

lemma stale_section_found:
  assumes ok: "section_list_ok bth0_layout secs" and absent: "Q0 \<notin> fst ` set secs"
    and stale: "take 2 zs = name_bytes Q0" and len: "2 \<le> length zs"
  shows "BTH0_q0 (xs @ packet_bytes BTH0 stream secs @ zs) (mk_packet BTH0 (length xs))
      = Inr (mk_section Q0 (length xs + length (packet_bytes BTH0 stream secs)))
    \<and> section_exists (xs @ packet_bytes BTH0 stream secs @ zs)
        (mk_section Q0 (length xs + length (packet_bytes BTH0 stream secs))) = Inr True"
proof -
  let ?buf = "xs @ packet_bytes BTH0 stream secs @ zs" and ?ts = "[H0, R0, A0, A2, I1, G0, G1]"
  have "filter (\<lambda>(u, d). u \<in> set ?ts) secs = secs"
    using ok absent by (intro filter_True) (force simp: section_list_ok_def bth0_layout_def)
  moreover have "chain_end ?buf (length xs + 12) ?ts
      = Inr (length xs + 12 + length (sections_bytes (filter (\<lambda>(u, d). u \<in> set ?ts) secs)))"
    unfolding packet_bytes_header using ok absent stale len
    by (intro chain_end_sections) (auto simp: section_list_ok_def section_order bth0_layout_def)
  ultimately have "chain_end ?buf (length xs + 12) ?ts
      = Inr (length xs + length (packet_bytes BTH0 stream secs))"
    by simp
  moreover have "takeWhile (\<lambda>u. u \<noteq> Q0) bth0_layout = ?ts"
    by (simp add: bth0_layout_def)
  moreover have "(Q0, BTH0_q0) \<in> set BTH0_accessors"
    by (simp add: BTH0_accessors_def)
  ultimately have "BTH0_q0 ?buf (mk_packet BTH0 (length xs))
      = Inr (mk_section Q0 (length xs + length (packet_bytes BTH0 stream secs)))"
    by (simp add: BTH0_accessor_walk typed_packet_check del: length_packet_bytes)
  then show ?thesis
    using stale len by (simp add: section_exists_iff del: length_packet_bytes)
qed

text \<open>However the sizes are chosen, a walk over \<open>n\<close> sections moves at most \<open>65535 * n\<close> bytes.\<close>

lemma chain_end_le: "chain_end buf p ts = Inr q \<Longrightarrow> q \<le> p + 65535 * length ts"
proof (induction ts arbitrary: p)
  case Nil
  then show ?case by simp
next
  case (Cons t ts)
  then obtain p' where "section_end buf (mk_section t p) = Inr p'" and "q \<le> p' + 65535 * length ts"
    by (auto simp: res_simps)
  with section_end_bounds(2) [of buf "mk_section t p" p'] show ?case by simp
qed

text \<open>Where a walk stays when every section it passes has its size field in the buffer.\<close>

lemma section_end_returns:
  assumes "start_bit s + 4 \<le> length buf"
  shows "\<exists>p. section_end buf s = Inr p"
proof -
  have "section_exists buf s = Inr True \<or> section_exists buf s = Inr False"
    using assms by (simp add: section_exists_iff)
  then show ?thesis
    using section_end_present [OF _ assms] section_end_absent by auto
qed

lemma chain_end_returns:
  "p + 65535 * length ts + 4 \<le> length buf \<Longrightarrow> \<exists>q. chain_end buf p ts = Inr q"
proof (induction ts arbitrary: p)
  case Nil
  then show ?case by simp
next
  case (Cons t ts)
  then obtain p' where p': "section_end buf (mk_section t p) = Inr p'"
    using section_end_returns [of "mk_section t p" buf] by auto
  then have "p' \<le> p + 65535" using section_end_bounds(2) [OF p'] by simp
  with Cons have "\<exists>q. chain_end buf p' ts = Inr q" by simp
  with p' show ?case by simp
qed

lemma accessor_in_buffer:
  assumes walk: "acc buf pkt = ebind (chain_end buf (SectionsStartBit pkt) ts) (\<lambda>p. Inr (mk_section t p))"
    and buf: "length buf = 262144" and start: "pkt_start pkt = 0" and short: "length ts \<le> 3"
  shows "\<exists>s ex. acc buf pkt = Inr s \<and> section_exists buf s = Inr ex"
proof -
  have p0: "SectionsStartBit pkt = 12"
    by (simp add: SectionsStartBit_def startBit_def start sizeof_MiniHeader_def)
  have "12 + 65535 * length ts + 4 \<le> length buf"
    using short buf by simp
  then obtain q where q: "chain_end buf 12 ts = Inr q"
    using chain_end_returns by blast
  then have "q \<le> 12 + 65535 * length ts" by (rule chain_end_le)
  then have "start_bit (mk_section t q) + 2 \<le> length buf"
    using short buf by simp
  then show ?thesis
    using section_exists_eq [of "mk_section t q" buf] by (simp add: walk p0 q)
qed



end
