(* ===== verification/Messages.thy ===== *)
theory Messages
  imports Primitives
begin

text \<open>
  The ROS messages the driver fills. Their definitions belong to other packages (and, for
  \<open>RawPacket\<close>, to \<open>r2sonic_interfaces\<close>), so a record lists the fields the driver's code assigns,
  each holding the value assigned; the conversion to the field's declared type is the message
  package's. The constants of those packages are constructors of a datatype.
\<close>

text \<open>\<open>std_msgs/Header\<close>.\<close>

record ros_header =
  stamp_sec :: u32
  stamp_nanosec :: u32
  frame_id :: string

text \<open>\<open>marine_acoustic_msgs/PingInfo\<close>; the beam widths and the scalars are \<open>float\<close> values.\<close>

record PingInfo =
  frequency :: u32
  sound_speed :: u32
  tx_beamwidths :: "u32 list"
  rx_beamwidths :: "u32 list"

datatype DetectionFlag = DETECT_OK | DETECT_BAD_SONAR

text \<open>\<open>marine_acoustic_msgs/SonarDetections\<close>.\<close>

record SonarDetections =
  det_header :: ros_header
  det_ping_info :: PingInfo
  two_way_travel_times :: "u32 list"
  det_tx_delays :: "u32 list"
  intensities :: "u32 list"
  det_tx_angles :: "u32 list"
  det_rx_angles :: "u32 list"
  flags :: "DetectionFlag list"

datatype image_dtype = DTYPE_UNSET | DTYPE_UINT8

text \<open>\<open>marine_acoustic_msgs/RawSonarImage\<close> with its \<open>SonarImageData\<close>; the sample rate is the \<open>double\<close> assigned.\<close>

record RawSonarImage =
  img_header :: ros_header
  img_ping_info :: PingInfo
  sample_rate :: u64
  samples_per_beam :: u32
  sample0 :: u32
  img_tx_delays :: "u32 list"
  img_tx_angles :: "u32 list"
  img_rx_angles :: "u32 list"
  image_dtype :: image_dtype
  beam_count :: u32
  image_data :: "u8 list"

text \<open>\<open>r2sonic_interfaces/RawPacket\<close>.\<close>

record RawPacket =
  raw_frame_id :: string
  raw_data :: "u8 list"

text \<open>Default-constructed messages.\<close>

definition ros_header0 :: ros_header where
  "ros_header0 = \<lparr>stamp_sec = 0, stamp_nanosec = 0, frame_id = []\<rparr>"

definition PingInfo0 :: PingInfo where
  "PingInfo0 = \<lparr>frequency = 0, sound_speed = 0, tx_beamwidths = [], rx_beamwidths = []\<rparr>"

definition SonarDetections0 :: SonarDetections where
  "SonarDetections0 = \<lparr>det_header = ros_header0, det_ping_info = PingInfo0,
     two_way_travel_times = [], det_tx_delays = [], intensities = [], det_tx_angles = [],
     det_rx_angles = [], flags = []\<rparr>"

definition RawSonarImage0 :: RawSonarImage where
  "RawSonarImage0 = \<lparr>img_header = ros_header0, img_ping_info = PingInfo0, sample_rate = 0,
     samples_per_beam = 0, sample0 = 0, img_tx_delays = [], img_tx_angles = [], img_rx_angles = [],
     image_dtype = DTYPE_UNSET, beam_count = 0, image_data = []\<rparr>"

definition RawPacket0 :: RawPacket where
  "RawPacket0 = \<lparr>raw_frame_id = [], raw_data = []\<rparr>"

end
