(* ===== verification/Conversions.thy ===== *)
theory Conversions
  imports Packets Messages
begin

text \<open>
  \<open>src/conversions.cpp\<close>: from the sections of a packet to ROS messages. A function that fills a
  message through a pointer takes the message and returns it updated. \<open>float\<close> expressions keep
  the operations and the order of the source.
\<close>

section \<open>Header and ping information\<close>

definition h02Header :: "buffer \<Rightarrow> sonar_section \<Rightarrow> ros_header \<Rightarrow> ros_header res" where
  "h02Header buf h0_pkt header = ebind (load_H0_Body buf (H0_body h0_pkt)) (\<lambda>b.
     Inr (header\<lparr>stamp_sec := get (TimeSeconds b), stamp_nanosec := get (TimeNanoseconds b)\<rparr>))"

definition set_beamwidths :: "H0_Body \<Rightarrow> nat \<Rightarrow> PingInfo \<Rightarrow> PingInfo" where
  "set_beamwidths b i m =
     m\<lparr>tx_beamwidths := (tx_beamwidths m)[i := get (TxBeamwidthVert b)],
       rx_beamwidths := (rx_beamwidths m)[i := get (TxBeamwidthHoriz b)]\<rparr>"

definition h02PingInfo :: "buffer \<Rightarrow> sonar_section \<Rightarrow> PingInfo \<Rightarrow> PingInfo res" where
  "h02PingInfo buf h0_pkt msg = ebind (load_H0_Body buf (H0_body h0_pkt)) (\<lambda>b.
     let num_beams = unat (get (H0_Beams b));
         msg = msg\<lparr>frequency := get (Frequency b), sound_speed := get (SoundSpeed b),
                   tx_beamwidths := vec_resize num_beams 0 (tx_beamwidths msg),
                   rx_beamwidths := vec_resize num_beams 0 (rx_beamwidths msg)\<rparr>
     in Inr (fold (set_beamwidths b) [0..<num_beams] msg))"

text \<open>The point count announced by the contents of an H0 section.\<close>

definition announced_beams :: "u8 list \<Rightarrow> nat" where
  "announced_beams h = unat (get (H0_Beams (H0_Body_of (take sizeof_H0_Body h))))"

lemma unat_index [simp]: "i < n \<Longrightarrow> n \<le> 65535 \<Longrightarrow> unat (word_of_nat i :: u16) = i"
  by (simp add: unat_of_nat)

lemma announced_beams_le: "announced_beams h \<le> 65535"
  using unat_bound [of "get (H0_Beams (H0_Body_of (take sizeof_H0_Body h)))"]
  by (simp add: announced_beams_def)

text \<open>The ping information in closed form: its lists are as long as the head announces beams.\<close>

lemma fold_set_beamwidths:
  assumes "length (tx_beamwidths m) = n" and "length (rx_beamwidths m) = n" and "i \<le> n"
  shows "fold (set_beamwidths b) [0..<i] m
    = m\<lparr>tx_beamwidths := replicate i (get (TxBeamwidthVert b)) @ drop i (tx_beamwidths m),
        rx_beamwidths := replicate i (get (TxBeamwidthHoriz b)) @ drop i (rx_beamwidths m)\<rparr>"
  using assms(3)
proof (induction i)
  case 0
  then show ?case by simp
next
  case (Suc i)
  have "(replicate i v @ drop i xs)[i := v] = replicate (Suc i) v @ drop (Suc i) xs"
    if "i < length xs" for v :: u32 and xs
    using that by (simp add: list_update_append replicate_append_same flip: Cons_nth_drop_Suc)
  with Suc assms show ?case
    by (simp add: set_beamwidths_def)
qed

lemma h02PingInfo_eq:
  "h02PingInfo buf s m = ebind (load_H0_Body buf (H0_body s)) (\<lambda>b.
     Inr \<lparr>frequency = get (Frequency b), sound_speed = get (SoundSpeed b),
       tx_beamwidths = replicate (unat (get (H0_Beams b))) (get (TxBeamwidthVert b)),
       rx_beamwidths = replicate (unat (get (H0_Beams b))) (get (TxBeamwidthHoriz b))\<rparr>)"
  by (cases m) (simp add: h02PingInfo_def Let_def fold_set_beamwidths)

section \<open>BTH0 to sonar detections\<close>

text \<open>The parts of the loop body: range, intensity, receive angle and quality flag of beam \<open>i\<close>.\<close>

definition beam_range :: "buffer \<Rightarrow> packet \<Rightarrow> nat \<Rightarrow> u32 res" where
  "beam_range buf pkt i =
     ebind (BTH0_r0 buf pkt) (\<lambda>r0. R0_getScaledRange buf r0 (word_of_nat i))"

definition beam_intensity :: "buffer \<Rightarrow> packet \<Rightarrow> nat \<Rightarrow> u32 res" where
  "beam_intensity buf pkt i =
     ebind (ebind (BTH0_i1 buf pkt) (section_exists buf)) (\<lambda>ex.
     if ex then ebind (BTH0_i1 buf pkt) (\<lambda>i1. I1_getScaledIntensity buf i1 (word_of_nat i))
     else Inr 0)"

definition beam_tx_angle :: "buffer \<Rightarrow> packet \<Rightarrow> u32 res" where
  "beam_tx_angle buf pkt =
     ebind (BTH0_h0 buf pkt) (\<lambda>h0. ebind (load_H0_Body buf (H0_body h0)) (\<lambda>b.
     Inr (get (TxSteeringVert b))))"

definition beam_angle_step :: "buffer \<Rightarrow> packet \<Rightarrow> nat \<Rightarrow> u16 res" where
  "beam_angle_step buf pkt i =
     ebind (BTH0_a2 buf pkt) (\<lambda>a2. ebind (A2_AngleStep buf a2 (word_of_nat i)) (\<lambda>p.
     ebind (load_be buf p) (\<lambda>x. Inr (get x))))"

definition beam_flag :: "buffer \<Rightarrow> packet \<Rightarrow> nat \<Rightarrow> DetectionFlag res" where
  "beam_flag buf pkt i =
     ebind (BTH0_q0 buf pkt) (\<lambda>q0. ebind (phaseDetect buf q0 (word_of_nat i)) (\<lambda>phase.
     ebind (if phase then Inr True
            else ebind (BTH0_q0 buf pkt) (\<lambda>q0. magnitudeDetect buf q0 (word_of_nat i))) (\<lambda>ok.
     Inr (if ok then DETECT_OK else DETECT_BAD_SONAR))))"

text \<open>What is decided before the loop: which angle and quality sections there are, and their scalars.\<close>

record angle_setup =
  has_q0 :: bool
  has_a2 :: bool
  a2_angle_first :: u32
  a2_scale_factor :: u32
  has_a0 :: bool
  a0_angle_first :: u32
  a0_delta :: u32

definition bth0_setup :: "buffer \<Rightarrow> packet \<Rightarrow> nat \<Rightarrow> angle_setup res" where
  "bth0_setup buf pkt num_beams =
     ebind (ebind (BTH0_q0 buf pkt) (section_exists buf)) (\<lambda>hq.
     ebind (ebind (BTH0_a2 buf pkt) (section_exists buf)) (\<lambda>h2.
     ebind (if h2 then
              ebind (BTH0_a2 buf pkt) (\<lambda>a2. ebind (A2_body buf a2) (\<lambda>p. ebind (load_A2_Body buf p) (\<lambda>b.
              Inr (get (A2_AngleFirst b), get (A2_ScalingFactor b)))))
            else Inr (0, 0)) (\<lambda>(first2, scale2).
     ebind (ebind (BTH0_a0 buf pkt) (section_exists buf)) (\<lambda>h0.
     ebind (if h0 \<and> 1 < num_beams then
              ebind (BTH0_a0 buf pkt) (\<lambda>a0. ebind (A0_body buf a0) (\<lambda>p. ebind (load_A0_Body buf p) (\<lambda>b.
              let angle_last = get (A0_AngleLast b); angle_first = get (A0_AngleFirst b)
              in Inr (angle_first,
                   f32_div (f32_sub angle_last angle_first) (f32_of_nat (num_beams - 1))))))
            else Inr (0, 0)) (\<lambda>(first0, delta0).
     Inr \<lparr>has_q0 = hq, has_a2 = h2, a2_angle_first = first2, a2_scale_factor = scale2,
          has_a0 = h0, a0_angle_first = first0, a0_delta = delta0\<rparr>)))))"

text \<open>The receive angle, with the running 32-bit sum of the A2 steps.\<close>

definition beam_rx_angle ::
  "buffer \<Rightarrow> packet \<Rightarrow> angle_setup \<Rightarrow> nat \<Rightarrow> u32 \<Rightarrow> (u32 \<times> u32) res" where
  "beam_rx_angle buf pkt su i a2_step_sum =
     (if has_a2 su then
        ebind (beam_angle_step buf pkt i) (\<lambda>step.
        let a2_step_sum = a2_step_sum + ucast step
        in Inr (a2_step_sum, f32_add (a2_angle_first su)
                 (f32_mul (f32_of_nat (unat a2_step_sum)) (a2_scale_factor su))))
      else if has_a0 su then
        Inr (a2_step_sum, f32_add (a0_angle_first su) (f32_mul (a0_delta su) (f32_of_nat i)))
      else Inr (a2_step_sum, 0))"

definition bth0_beam ::
  "buffer \<Rightarrow> packet \<Rightarrow> angle_setup \<Rightarrow> nat \<Rightarrow> SonarDetections \<times> u32 \<Rightarrow> (SonarDetections \<times> u32) res" where
  "bth0_beam buf pkt su i = (\<lambda>(m, a2_step_sum).
     ebind (beam_range buf pkt i) (\<lambda>range.
     let m = m\<lparr>two_way_travel_times := (two_way_travel_times m)[i := range],
               det_tx_delays := (det_tx_delays m)[i := 0]\<rparr>
     in ebind (beam_intensity buf pkt i) (\<lambda>inten.
     let m = m\<lparr>intensities := (intensities m)[i := inten]\<rparr>
     in ebind (beam_tx_angle buf pkt) (\<lambda>tx.
     let m = m\<lparr>det_tx_angles := (det_tx_angles m)[i := tx]\<rparr>
     in ebind (beam_rx_angle buf pkt su i a2_step_sum) (\<lambda>(a2_step_sum, rx).
     let m = m\<lparr>det_rx_angles := (det_rx_angles m)[i := rx]\<rparr>
     in ebind (if has_q0 su then beam_flag buf pkt i else Inr DETECT_OK) (\<lambda>flag.
     Inr (m\<lparr>flags := (flags m)[i := flag]\<rparr>, a2_step_sum)))))))"

definition bth02SonarDetections ::
  "buffer \<Rightarrow> packet \<Rightarrow> SonarDetections \<Rightarrow> SonarDetections res" where
  "bth02SonarDetections buf pkt m =
     ebind (BTH0_h0 buf pkt) (\<lambda>h0. ebind (load_H0_Body buf (H0_body h0)) (\<lambda>b.
     let num_beams = unat (get (H0_Beams b))
     in ebind (h02PingInfo buf h0 (det_ping_info m)) (\<lambda>info.
     ebind (h02Header buf h0 (det_header m)) (\<lambda>header.
     let m = m\<lparr>det_ping_info := info, det_header := header,
               two_way_travel_times := vec_resize num_beams 0 (two_way_travel_times m),
               det_tx_delays := vec_resize num_beams 0 (det_tx_delays m),
               intensities := vec_resize num_beams 0 (intensities m),
               det_tx_angles := vec_resize num_beams 0 (det_tx_angles m),
               det_rx_angles := vec_resize num_beams 0 (det_rx_angles m),
               flags := vec_resize num_beams DETECT_OK (flags m)\<rparr>
     in ebind (bth0_setup buf pkt num_beams) (\<lambda>su.
     ebind (efold (bth0_beam buf pkt su) [0..<num_beams] (m, 0)) (\<lambda>(m, _). Inr m))))))"

section \<open>The raw packet message\<close>

text \<open>\<open>resize\<close> to the packet's size, then \<open>assign\<close> the bytes between \<open>startBit()\<close> and \<open>end()\<close>.\<close>

definition packet2RawPacket :: "buffer \<Rightarrow> packet \<Rightarrow> RawPacket \<Rightarrow> RawPacket res" where
  "packet2RawPacket buf pkt m =
     ebind (packet_getSize buf pkt) (\<lambda>n.
     let m = m\<lparr>raw_data := vec_resize (unat n) 0 (raw_data m)\<rparr>
     in ebind (packet_end buf pkt) (\<lambda>e.
     ebind (rd buf (startBit pkt) (e - startBit pkt)) (\<lambda>bs. Inr (m\<lparr>raw_data := bs\<rparr>))))"

text \<open>
  The raw message of a packet of whatever length is the packet's bytes, cut to the size the
  16-bit \<open>getSize\<close> returns: packets below 64 KiB are copied whole, and of a longer one only the
  first \<open>PacketSize mod 65536\<close> bytes.
\<close>

lemma raw_packet_copy:
  "packet2RawPacket (xs @ packet_bytes t stream secs @ zs) (mk_packet u (length xs)) m
   = Inr (m\<lparr>raw_data := take (length (packet_bytes t stream secs) mod 65536) (packet_bytes t stream secs)\<rparr>)"
proof -
  let ?n = "12 + length (sections_bytes secs)"
  have le: "?n mod 65536 \<le> ?n" by simp
  have "unat (word_of_nat ?n :: u16) = ?n mod 65536"
    by (simp only: unat_of_nat) simp
  moreover have "pkt_start (mk_packet u (length xs)) = length xs"
    by (simp add: mk_packet_def)
  ultimately show ?thesis
    using le
    by (simp add: packet2RawPacket_def packet_getSize_found packet_end_def startBit_def Let_def
        rd_def trans_le_add1 del: of_nat_add)
qed

lemma raw_packet_built:
  assumes "length buf = 262144" and "pkt_start pkt = 0"
  shows "packet2RawPacket buf pkt m
    = Inr (m\<lparr>raw_data := take (unat (get (field_be buf 4 :: BE_u32)) mod 65536) buf\<rparr>)"
proof -
  let ?n = "ucast (get (field_be buf 4 :: BE_u32)) :: u16"
  have "field_be (take 12 buf) 4 = (field_be buf 4 :: BE_u32)"
    by (simp add: field_be_def drop_take)
  then have n: "packet_getSize buf pkt = Inr ?n"
    using assms by (simp add: packet_getSize_def miniHeader_def rd_def sizeof_MiniHeader_def MiniHeader_of_def startBit_def)
  have u: "unat ?n = unat (get (field_be buf 4 :: BE_u32)) mod 65536"
    by (simp add: unsigned_ucast_eq take_bit_eq_mod)
  have "unat ?n < 65536" using unat_bound [of ?n] by simp
  then show ?thesis
    using assms n by (simp add: packet2RawPacket_def packet_end_def startBit_def rd_def Let_def u)
qed

end
