(* ===== verification/BeamLoop.thy ===== *)
theory BeamLoop
  imports Conversions
begin

text \<open>
  What the loop of \<open>bth02SonarDetections\<close> computes: it refines a pure description, the list of
  beam results, read from the packet alone and then stored into the message's arrays.
\<close>

section \<open>The loop as a list of beam results\<close>

record beam_result =
  br_range :: u32
  br_intensity :: u32
  br_tx_angle :: u32
  br_rx_angle :: u32
  br_flag :: DetectionFlag

definition read_beam :: "buffer \<Rightarrow> packet \<Rightarrow> angle_setup \<Rightarrow> nat \<Rightarrow> u32 \<Rightarrow> (beam_result \<times> u32) res" where
  "read_beam buf pkt su i s =
     ebind (beam_range buf pkt i) (\<lambda>range.
     ebind (beam_intensity buf pkt i) (\<lambda>inten.
     ebind (beam_tx_angle buf pkt) (\<lambda>tx.
     ebind (beam_rx_angle buf pkt su i s) (\<lambda>(s', rx).
     ebind (if has_q0 su then beam_flag buf pkt i else Inr DETECT_OK) (\<lambda>flag.
     Inr (\<lparr>br_range = range, br_intensity = inten, br_tx_angle = tx, br_rx_angle = rx,
           br_flag = flag\<rparr>, s'))))))"

fun read_beams :: "buffer \<Rightarrow> packet \<Rightarrow> angle_setup \<Rightarrow> nat \<Rightarrow> (beam_result list \<times> u32) res" where
  "read_beams buf pkt su 0 = Inr ([], 0)"
| "read_beams buf pkt su (Suc i) =
     ebind (read_beams buf pkt su i) (\<lambda>(vs, s).
     ebind (read_beam buf pkt su i s) (\<lambda>(v, s'). Inr (vs @ [v], s')))"

definition store_beam :: "nat \<Rightarrow> beam_result \<Rightarrow> SonarDetections \<Rightarrow> SonarDetections" where
  "store_beam i v m =
     m\<lparr>two_way_travel_times := (two_way_travel_times m)[i := br_range v],
       det_tx_delays := (det_tx_delays m)[i := 0],
       intensities := (intensities m)[i := br_intensity v],
       det_tx_angles := (det_tx_angles m)[i := br_tx_angle v],
       det_rx_angles := (det_rx_angles m)[i := br_rx_angle v],
       flags := (flags m)[i := br_flag v]\<rparr>"

text \<open>Overwriting the first entries of the arrays by the results.\<close>

definition put_beams :: "beam_result list \<Rightarrow> SonarDetections \<Rightarrow> SonarDetections" where
  "put_beams vs m =
     m\<lparr>two_way_travel_times := map br_range vs @ drop (length vs) (two_way_travel_times m),
       det_tx_delays := map (\<lambda>_. 0) vs @ drop (length vs) (det_tx_delays m),
       intensities := map br_intensity vs @ drop (length vs) (intensities m),
       det_tx_angles := map br_tx_angle vs @ drop (length vs) (det_tx_angles m),
       det_rx_angles := map br_rx_angle vs @ drop (length vs) (det_rx_angles m),
       flags := map br_flag vs @ drop (length vs) (flags m)\<rparr>"

definition arrays_sized :: "nat \<Rightarrow> SonarDetections \<Rightarrow> bool" where
  "arrays_sized n m \<longleftrightarrow> length (two_way_travel_times m) = n \<and> length (det_tx_delays m) = n
     \<and> length (intensities m) = n \<and> length (det_tx_angles m) = n
     \<and> length (det_rx_angles m) = n \<and> length (flags m) = n"

lemma bth0_beam_read:
  "bth0_beam buf pkt su i (m, s) = ebind (read_beam buf pkt su i s) (\<lambda>(v, s'). Inr (store_beam i v m, s'))"
  by (simp add: bth0_beam_def read_beam_def store_beam_def Let_def ebind_assoc split_def)

lemma put_beams_Nil [simp]: "put_beams [] m = m"
  by (simp add: put_beams_def)

lemma update_next:
  "i = length vs \<Longrightarrow> i < length xs \<Longrightarrow> (map f vs @ drop i xs)[i := y] = map f vs @ [y] @ drop (Suc i) xs"
  by (simp add: list_update_append flip: Cons_nth_drop_Suc)

lemma store_put_beams:
  "arrays_sized n m \<Longrightarrow> length vs < n \<Longrightarrow>
   store_beam (length vs) v (put_beams vs m) = put_beams (vs @ [v]) m"
  by (simp add: store_beam_def put_beams_def arrays_sized_def update_next)

lemma read_beams_length: "read_beams buf pkt su n = Inr (vs, s) \<Longrightarrow> length vs = n"
  by (induction n arbitrary: vs s) (auto simp: res_simps)

lemma bth0_loop:
  assumes "arrays_sized n m" and "i \<le> n"
  shows "efold (bth0_beam buf pkt su) [0..<i] (m, 0)
    = ebind (read_beams buf pkt su i) (\<lambda>(vs, s). Inr (put_beams vs m, s))"
  using assms(2)
proof (induction i)
  case 0
  then show ?case by simp
next
  case (Suc i)
  show ?case
  proof (cases "read_beams buf pkt su i")
    case (Inl e)
    with Suc show ?thesis by (simp add: efold_append)
  next
    case (Inr r)
    obtain vs s where r: "r = (vs, s)" by (cases r)
    have "length vs = i" using Inr r by (simp add: read_beams_length)
    then have "store_beam i v (put_beams vs m) = put_beams (vs @ [v]) m" for v
      using store_put_beams [OF assms(1), of vs v] Suc.prems by simp
    with Suc Inr r show ?thesis
      by (simp add: efold_append bth0_beam_read ebind_assoc split_def)
  qed
qed

section \<open>The message as a function of the packet\<close>

definition detections_of :: "H0_Body \<Rightarrow> string \<Rightarrow> beam_result list \<Rightarrow> SonarDetections" where
  "detections_of b frame vs =
     \<lparr>det_header = \<lparr>stamp_sec = get (TimeSeconds b), stamp_nanosec = get (TimeNanoseconds b),
                    frame_id = frame\<rparr>,
      det_ping_info = \<lparr>frequency = get (Frequency b), sound_speed = get (SoundSpeed b),
                       tx_beamwidths = replicate (length vs) (get (TxBeamwidthVert b)),
                       rx_beamwidths = replicate (length vs) (get (TxBeamwidthHoriz b))\<rparr>,
      two_way_travel_times = map br_range vs,
      det_tx_delays = replicate (length vs) 0,
      intensities = map br_intensity vs,
      det_tx_angles = map br_tx_angle vs,
      det_rx_angles = map br_rx_angle vs,
      flags = map br_flag vs\<rparr>"

text \<open>
  The whole conversion: it succeeds exactly when the setup and every beam can be read, and the
  message is then determined by the packet, whatever the message held before, but for the frame.
\<close>

lemma bth02SonarDetections_eq:
  "bth02SonarDetections buf pkt m =
     ebind (BTH0_h0 buf pkt) (\<lambda>h0. ebind (load_H0_Body buf (H0_body h0)) (\<lambda>b.
     ebind (bth0_setup buf pkt (unat (get (H0_Beams b)))) (\<lambda>su.
     ebind (read_beams buf pkt su (unat (get (H0_Beams b)))) (\<lambda>(vs, _).
     Inr (detections_of b (frame_id (det_header m)) vs)))))"
proof (cases "BTH0_h0 buf pkt")
  case (Inl e)
  then show ?thesis by (simp add: bth02SonarDetections_def)
next
  case (Inr h0)
  show ?thesis
  proof (cases "load_H0_Body buf (H0_body h0)")
    case (Inl e)
    with Inr show ?thesis by (simp add: bth02SonarDetections_def)
  next
    case b: (Inr b)
    define n where "n = unat (get (H0_Beams b))"
    define m1 where "m1 = m\<lparr>
        det_ping_info := \<lparr>frequency = get (Frequency b), sound_speed = get (SoundSpeed b),
           tx_beamwidths = replicate n (get (TxBeamwidthVert b)),
           rx_beamwidths = replicate n (get (TxBeamwidthHoriz b))\<rparr>,
        det_header := (det_header m)\<lparr>stamp_sec := get (TimeSeconds b), stamp_nanosec := get (TimeNanoseconds b)\<rparr>,
        two_way_travel_times := vec_resize n 0 (two_way_travel_times m),
        det_tx_delays := vec_resize n 0 (det_tx_delays m),
        intensities := vec_resize n 0 (intensities m),
        det_tx_angles := vec_resize n 0 (det_tx_angles m),
        det_rx_angles := vec_resize n 0 (det_rx_angles m),
        flags := vec_resize n DETECT_OK (flags m)\<rparr>"
    have sized: "arrays_sized n m1"
      by (simp add: arrays_sized_def m1_def)
    have put: "put_beams vs m1 = detections_of b (frame_id (det_header m)) vs" if "length vs = n" for vs
      using that by (simp add: put_beams_def detections_of_def m1_def map_replicate_const)
    have "bth02SonarDetections buf pkt m = ebind (bth0_setup buf pkt n) (\<lambda>su.
        ebind (efold (bth0_beam buf pkt su) [0..<n] (m1, 0)) (\<lambda>(m, _). Inr m))"
      using Inr b by (simp add: bth02SonarDetections_def h02PingInfo_eq h02Header_def Let_def n_def m1_def)
    also have "\<dots> = ebind (bth0_setup buf pkt n) (\<lambda>su.
        ebind (read_beams buf pkt su n) (\<lambda>(vs, _). Inr (detections_of b (frame_id (det_header m)) vs)))"
      unfolding bth0_loop [OF sized order_refl] ebind_assoc
      by (intro ebind_cong refl) (auto simp: put read_beams_length)
    finally show ?thesis
      using Inr b by (simp add: n_def)
  qed
qed

section \<open>What a returned message was made of\<close>

lemma read_beam_Inr:
  "read_beam buf pkt su i s = Inr (v, s') \<longleftrightarrow>
     beam_range buf pkt i = Inr (br_range v) \<and> beam_intensity buf pkt i = Inr (br_intensity v)
     \<and> beam_tx_angle buf pkt = Inr (br_tx_angle v)
     \<and> beam_rx_angle buf pkt su i s = Inr (s', br_rx_angle v)
     \<and> (if has_q0 su then beam_flag buf pkt i else Inr DETECT_OK) = Inr (br_flag v)"
  by (cases v) (auto simp: read_beam_def res_simps)

lemma read_beams_nth:
  "read_beams buf pkt su n = Inr (vs, s) \<Longrightarrow> i < n \<Longrightarrow>
   \<exists>si si'. read_beam buf pkt su i si = Inr (vs ! i, si')"
proof (induction n arbitrary: vs s)
  case 0
  then show ?case by simp
next
  case (Suc n)
  then obtain us u v where us: "read_beams buf pkt su n = Inr (us, u)"
      and v: "read_beam buf pkt su n u = Inr (v, s)" and vs: "vs = us @ [v]"
    by (auto simp: res_simps)
  then have "length us = n" by (simp add: read_beams_length)
  with Suc us v vs show ?case
    by (cases "i = n") (auto simp: nth_append)
qed

lemma detections_cases:
  assumes "bth02SonarDetections buf pkt m = Inr m'"
  obtains h0 b su vs s where "BTH0_h0 buf pkt = Inr h0" "load_H0_Body buf (H0_body h0) = Inr b"
    "bth0_setup buf pkt (unat (get (H0_Beams b))) = Inr su"
    "read_beams buf pkt su (unat (get (H0_Beams b))) = Inr (vs, s)"
    "m' = detections_of b (frame_id (det_header m)) vs" "length vs = unat (get (H0_Beams b))"
  using assms by (auto simp: bth02SonarDetections_eq res_simps read_beams_length)

end
