(* ===== verification/PingSpec.thy ===== *)
theory PingSpec
  imports BeamLoop
begin

text \<open>
  What a complete BTH0 packet means: the detections message as a pure function of the contents of
  its sections, without buffer, offsets or accumulators, and the proof that \<open>bth02SonarDetections\<close>
  computes exactly this function.
\<close>

section \<open>The running sum of the steps\<close>

text \<open>The running sum of the A2 steps up to and including point \<open>i\<close>.\<close>

lemma read_beams_a2:
  assumes "has_a2 su"
  shows "read_beams buf pkt su n = Inr (vs, s) \<Longrightarrow>
    \<exists>steps. length steps = n \<and> s = (\<Sum>k<n. ucast (steps ! k))
     \<and> (\<forall>i<n. beam_angle_step buf pkt i = Inr (steps ! i)
        \<and> br_rx_angle (vs ! i) = f32_add (a2_angle_first su)
            (f32_mul (f32_of_nat (unat (\<Sum>k\<le>i. ucast (steps ! k) :: u32))) (a2_scale_factor su)))"
proof (induction n arbitrary: vs s)
  case 0
  then show ?case by simp
next
  case (Suc n)
  then obtain us u v where us: "read_beams buf pkt su n = Inr (us, u)"
      and v: "read_beam buf pkt su n u = Inr (v, s)" and vs: "vs = us @ [v]"
    by (auto simp: res_simps)
  from Suc.IH [OF us] obtain steps where steps: "length steps = n" "u = (\<Sum>k<n. ucast (steps ! k))"
    "\<forall>i<n. beam_angle_step buf pkt i = Inr (steps ! i) \<and> br_rx_angle (us ! i) = f32_add (a2_angle_first su)
        (f32_mul (f32_of_nat (unat (\<Sum>k\<le>i. ucast (steps ! k) :: u32))) (a2_scale_factor su))"
    by blast
  from v assms obtain step where step: "beam_angle_step buf pkt n = Inr step" "s = u + ucast step"
      "br_rx_angle v = f32_add (a2_angle_first su) (f32_mul (f32_of_nat (unat s)) (a2_scale_factor su))"
    by (auto simp: read_beam_Inr beam_rx_angle_def Let_def res_simps)
  have len: "length us = n" using us by (rule read_beams_length)
  have prefix: "(\<Sum>k<j. ucast ((steps @ [step]) ! k) :: u32) = (\<Sum>k<j. ucast (steps ! k))" if "j \<le> n" for j
    using that steps(1) by (intro sum.cong) (auto simp: nth_append)
  show ?case
  proof (intro exI [of _ "steps @ [step]"] conjI allI impI)
    show "length (steps @ [step]) = Suc n" using steps by simp
    show s: "s = (\<Sum>k<Suc n. ucast ((steps @ [step]) ! k))"
      using steps step prefix [of n] by (simp add: nth_append)
    fix i assume "i < Suc n"
    then consider "i < n" | "i = n" by linarith
    then show "beam_angle_step buf pkt i = Inr ((steps @ [step]) ! i)"
      by cases (use steps step in \<open>auto simp: nth_append\<close>)
    from \<open>i < Suc n\<close> consider "i < n" | "i = n" by linarith
    then show "br_rx_angle (vs ! i) = f32_add (a2_angle_first su)
        (f32_mul (f32_of_nat (unat (\<Sum>k\<le>i. ucast ((steps @ [step]) ! k) :: u32))) (a2_scale_factor su))"
      by cases (use steps step s prefix len in \<open>auto simp: vs nth_append simp flip: lessThan_Suc_atMost\<close>)
  qed
qed

section \<open>Complete packets are converted\<close>

text \<open>
  The contents a BTH0 packet's sections need for the point count its H0 section announces. Only
  H0 and R0 are mandatory.
\<close>

definition bth0_complete :: "section_data list \<Rightarrow> u8 list \<Rightarrow> u8 list \<Rightarrow> bool" where
  "bth0_complete secs h r \<longleftrightarrow> map_of secs H0 = Some h \<and> map_of secs R0 = Some r
     \<and> sizeof_H0_Body \<le> length h \<and> 4 + 2 * announced_beams h \<le> length r
     \<and> (\<forall>(t, d) \<in> set secs.
         (t = A0 \<longrightarrow> sizeof_A0_Body \<le> length d)
         \<and> (t = A2 \<longrightarrow> sizeof_A2_Body + 2 * announced_beams h \<le> length d)
         \<and> (t = I1 \<longrightarrow> 4 + 2 * announced_beams h \<le> length d)
         \<and> (t = Q0 \<longrightarrow> 4 * ((announced_beams h + 7) div 8) \<le> length d))"

text \<open>The meaning of the sections: element \<open>i\<close> of an array of scaled 16-bit values.\<close>

definition scaled_element :: "u8 list \<Rightarrow> nat \<Rightarrow> u32" where
  "scaled_element d i = f32_mul (f32_of_nat (unat (get (field_be d (4 + 2 * i) :: BE_u16))))
     (get (field_be d 0 :: BE_f32))"

text \<open>The two-way travel times and, where the packet carries them, the intensities.\<close>

definition ping_intensity :: "section_data list \<Rightarrow> nat \<Rightarrow> u32" where
  "ping_intensity secs i = (case map_of secs I1 of Some d \<Rightarrow> scaled_element d i | None \<Rightarrow> 0)"

text \<open>
  The receive angle: from A2 the first angle and the scaled sum of the steps, from A0 the evenly
  spread angles (of a ping of one point, 0), and 0 without both.
\<close>

definition angle_step :: "u8 list \<Rightarrow> nat \<Rightarrow> u16" where
  "angle_step d k = get (field_be d (sizeof_A2_Body + 2 * k) :: BE_u16)"

definition a2_angle :: "u8 list \<Rightarrow> nat \<Rightarrow> u32" where
  "a2_angle d i = (let b = A2_Body_of (take sizeof_A2_Body d)
     in f32_add (get (A2_AngleFirst b))
          (f32_mul (f32_of_nat (unat (\<Sum>k\<le>i. ucast (angle_step d k) :: u32))) (get (A2_ScalingFactor b))))"

definition a0_angle :: "u8 list \<Rightarrow> nat \<Rightarrow> nat \<Rightarrow> u32" where
  "a0_angle d n i = (if n = 1 then 0 else
     let b = A0_Body_of (take sizeof_A0_Body d)
     in f32_add (get (A0_AngleFirst b))
          (f32_mul (f32_div (f32_sub (get (A0_AngleLast b)) (get (A0_AngleFirst b))) (f32_of_nat (n - 1)))
            (f32_of_nat i)))"

definition ping_rx_angle :: "section_data list \<Rightarrow> nat \<Rightarrow> nat \<Rightarrow> u32" where
  "ping_rx_angle secs n i = (case map_of secs A2 of Some d \<Rightarrow> a2_angle d i
     | None \<Rightarrow> (case map_of secs A0 of Some d \<Rightarrow> a0_angle d n i | None \<Rightarrow> 0))"

text \<open>A point is good if one of its two detection bits is set, or if there are no quality flags.\<close>

definition ping_flag :: "section_data list \<Rightarrow> nat \<Rightarrow> DetectionFlag" where
  "ping_flag secs i = (case map_of secs Q0 of
     Some d \<Rightarrow> if bit (quality_nibble d i) 3 \<or> bit (quality_nibble d i) 2 then DETECT_OK else DETECT_BAD_SONAR
   | None \<Rightarrow> DETECT_OK)"

text \<open>The whole message, for a packet that carries both mandatory sections.\<close>

definition section_body :: "section_type \<Rightarrow> section_data list \<Rightarrow> u8 list" where
  "section_body t secs = (case map_of secs t of Some d \<Rightarrow> d | None \<Rightarrow> [])"

definition ping_beam :: "section_data list \<Rightarrow> nat \<Rightarrow> beam_result" where
  "ping_beam secs i =
     (let h = section_body H0 secs
      in \<lparr>br_range = scaled_element (section_body R0 secs) i,
          br_intensity = ping_intensity secs i,
          br_tx_angle = get (TxSteeringVert (H0_Body_of (take sizeof_H0_Body h))),
          br_rx_angle = ping_rx_angle secs (announced_beams h) i,
          br_flag = ping_flag secs i\<rparr>)"

definition ping_detections :: "string \<Rightarrow> section_data list \<Rightarrow> SonarDetections" where
  "ping_detections frame secs =
     (let h = section_body H0 secs
      in detections_of (H0_Body_of (take sizeof_H0_Body h)) frame
           (map (ping_beam secs) [0..<announced_beams h]))"

lemma complete_bodies:
  assumes "bth0_complete secs h r"
  shows "(H0, h) \<in> set secs" "(R0, r) \<in> set secs" "section_body H0 secs = h" "section_body R0 secs = r"
    "sizeof_H0_Body \<le> length h" "4 + 2 * announced_beams h \<le> length r"
    "map_of secs A0 = Some d \<Longrightarrow> sizeof_A0_Body \<le> length d"
    "map_of secs A2 = Some d \<Longrightarrow> sizeof_A2_Body + 2 * announced_beams h \<le> length d"
    "map_of secs I1 = Some d \<Longrightarrow> 4 + 2 * announced_beams h \<le> length d"
    "map_of secs Q0 = Some d \<Longrightarrow> 4 * ((announced_beams h + 7) div 8) \<le> length d"
  using assms by (auto simp: bth0_complete_def section_body_def dest: map_of_SomeD)

lemma carried_iff: "map_of secs t = Some d \<Longrightarrow> t \<in> fst ` set secs" "map_of secs t = None \<Longrightarrow> t \<notin> fst ` set secs"
  by (force simp: map_of_eq_None_iff dest: map_of_SomeD)+

abbreviation bth0_view :: "buffer \<Rightarrow> packet \<Rightarrow> section_data list \<Rightarrow> (section_type \<Rightarrow> ptr) \<Rightarrow> bool" where
  "bth0_view \<equiv> packet_view BTH0_accessors"

lemma view_accessors:
  assumes "bth0_view buf pkt secs pos"
  shows "BTH0_h0 buf pkt = Inr (mk_section H0 (pos H0))" "BTH0_r0 buf pkt = Inr (mk_section R0 (pos R0))"
    "BTH0_a0 buf pkt = Inr (mk_section A0 (pos A0))" "BTH0_a2 buf pkt = Inr (mk_section A2 (pos A2))"
    "BTH0_i1 buf pkt = Inr (mk_section I1 (pos I1))" "BTH0_q0 buf pkt = Inr (mk_section Q0 (pos Q0))"
  using assms by (simp_all add: packet_view_def BTH0_accessors_def)

lemma view_presence:
  assumes "bth0_view buf pkt secs pos"
  shows "section_exists buf (mk_section A0 (pos A0)) = Inr (A0 \<in> fst ` set secs)"
    "section_exists buf (mk_section A2 (pos A2)) = Inr (A2 \<in> fst ` set secs)"
    "section_exists buf (mk_section I1 (pos I1)) = Inr (I1 \<in> fst ` set secs)"
    "section_exists buf (mk_section Q0 (pos Q0)) = Inr (Q0 \<in> fst ` set secs)"
  using assms by (simp_all add: packet_view_def BTH0_accessors_def)

lemma R0_getScaledRange_within:
  assumes "rd buf (p + sizeof_SectionInfo) (length d) = Inr d" and "4 + 2 * Suc (unat i) \<le> length d"
  shows "R0_getScaledRange buf (mk_section t p) i
    = Inr (scaled_element d (unat i))"
  using load_be_within [OF assms(1), of "4 + 2 * unat i", where 'a = 16]
    load_be_within [OF assms(1), of 0, where 'a = 32] assms(2)
  by (simp add: R0_getScaledRange_def R0_getRange_def R0_range_def R0_scaliningFactor_def scaled_element_def add.assoc)

lemma I1_getScaledIntensity_within:
  assumes "rd buf (p + sizeof_SectionInfo) (length d) = Inr d" and "4 + 2 * Suc (unat i) \<le> length d"
    and "section_exists buf (mk_section I1 p) = Inr True"
  shows "I1_getScaledIntensity buf (mk_section I1 p) i
    = Inr (scaled_element d (unat i))"
  using load_be_within [OF assms(1), of "4 + 2 * unat i", where 'a = 16]
    load_be_within [OF assms(1), of 0, where 'a = 32] assms(2)
    existanceErrorCheck_iff [of buf "mk_section I1 p" "()"] assms(3)
  by (simp add: I1_getScaledIntensity_def I1_Intensity_def I1_ScalingFactor_def scaled_element_def add.assoc)

lemma A2_step_within:
  assumes "rd buf (p + sizeof_SectionInfo) (length d) = Inr d"
    and "sizeof_A2_Body + 2 * Suc (unat i) \<le> length d"
    and "section_exists buf (mk_section A2 p) = Inr True"
  shows "ebind (A2_AngleStep buf (mk_section A2 p) i) (load_be buf)
    = Inr (field_be d (sizeof_A2_Body + 2 * unat i) :: BE_u16)"
  using load_be_within [OF assms(1), of "sizeof_A2_Body + 2 * unat i", where 'a = 16] assms(2)
    existanceErrorCheck_iff [of buf "mk_section A2 p" "()"] assms(3)
  by (simp add: A2_AngleStep_def add.assoc)

lemma quality_flag_within:
  assumes "rd buf (p + sizeof_SectionInfo) (length d) = Inr d"
    and "4 * ((n + 7) div 8) \<le> length d" and "unat i < n"
  shows "getQualityFlag buf (mk_section Q0 p) i = Inr (quality_nibble d (unat i))"
proof -
  have buf: "p + 4 + length d \<le> length buf" "take (length d) (drop (p + 4) buf) = d"
    using assms(1) by (simp_all add: rd_eq_Inr sizeof_SectionInfo_def)
  have "unat i div 8 + 1 \<le> (n + 7) div 8"
    using assms(3) div_le_mono [of "unat i + 8" "n + 7" 8] by simp
  then have word: "4 * (unat i div 8) + 4 \<le> length d"
    using assms(2) by linarith
  have "unat i div 2 < length d"
    using word by linarith
  then have "drop (p + 4) buf ! (unat i div 2) = d ! (unat i div 2)"
    by (metis buf(2) nth_take)
  then show ?thesis
    using quality_flag_word [of "mk_section Q0 p" i buf] word buf(1) by (simp add: quality_nibble_def)
qed

section \<open>The conversion computes the meaning\<close>

text \<open>Every part of a beam that the loop reads is the specified one.\<close>

lemma view_range:
  assumes V: "bth0_view buf pkt secs pos" and C: "bth0_complete secs h r" and i: "i < announced_beams h"
  shows "beam_range buf pkt i = Inr (scaled_element r i)"
  using R0_getScaledRange_within [OF view_contents [OF V complete_bodies(2) [OF C]], of "word_of_nat i" R0]
    complete_bodies(6) [OF C] i unat_index [OF i announced_beams_le]
  by (simp add: beam_range_def view_accessors [OF V])

lemma view_intensity:
  assumes V: "bth0_view buf pkt secs pos" and C: "bth0_complete secs h r" and i: "i < announced_beams h"
  shows "beam_intensity buf pkt i = Inr (ping_intensity secs i)"
proof (cases "map_of secs I1")
  case None
  then show ?thesis
    using carried_iff(2) [OF None] by (simp add: beam_intensity_def ping_intensity_def view_accessors [OF V] view_presence [OF V])
next
  case (Some d)
  have "I1_getScaledIntensity buf (mk_section I1 (pos I1)) (word_of_nat i) = Inr (scaled_element d i)"
    using I1_getScaledIntensity_within [OF view_contents [OF V map_of_SomeD [OF Some]], of "word_of_nat i"]
      complete_bodies(9) [OF C Some] view_presence(3) [OF V] carried_iff(1) [OF Some] i
      unat_index [OF i announced_beams_le]
    by simp
  then show ?thesis
    using carried_iff(1) [OF Some] Some
    by (simp add: beam_intensity_def ping_intensity_def view_accessors [OF V] view_presence [OF V])
qed

lemma view_angle_step:
  assumes V: "bth0_view buf pkt secs pos" and C: "bth0_complete secs h r" and i: "i < announced_beams h"
    and d: "map_of secs A2 = Some d"
  shows "beam_angle_step buf pkt i = Inr (angle_step d i)"
proof -
  have "ebind (A2_AngleStep buf (mk_section A2 (pos A2)) (word_of_nat i)) (load_be buf)
      = Inr (field_be d (sizeof_A2_Body + 2 * i) :: BE_u16)"
    using A2_step_within [OF view_contents [OF V map_of_SomeD [OF d]], of "word_of_nat i"]
      complete_bodies(8) [OF C d] view_presence(2) [OF V] carried_iff(1) [OF d] i
      unat_index [OF i announced_beams_le]
    by simp
  then show ?thesis
    by (simp add: beam_angle_step_def angle_step_def view_accessors [OF V] flip: ebind_assoc)
qed

lemma view_flag:
  assumes V: "bth0_view buf pkt secs pos" and C: "bth0_complete secs h r" and i: "i < announced_beams h"
  shows "(if Q0 \<in> fst ` set secs then beam_flag buf pkt i else Inr DETECT_OK) = Inr (ping_flag secs i)"
proof (cases "map_of secs Q0")
  case None
  then show ?thesis using carried_iff(2) [OF None] by (simp add: ping_flag_def)
next
  case (Some d)
  have "getQualityFlag buf (mk_section Q0 (pos Q0)) (word_of_nat i) = Inr (quality_nibble d i)"
    using quality_flag_within [OF view_contents [OF V map_of_SomeD [OF Some]], of "announced_beams h" "word_of_nat i"]
      complete_bodies(10) [OF C Some] i unat_index [OF i announced_beams_le] by simp
  from detect_flags [OF this] show ?thesis
    using carried_iff(1) [OF Some] Some
    by (auto simp: beam_flag_def ping_flag_def view_accessors [OF V])
qed

lemma view_header:
  assumes V: "bth0_view buf pkt secs pos" and C: "bth0_complete secs h r"
  shows "load_H0_Body buf (H0_body (mk_section H0 (pos H0))) = Inr (H0_Body_of (take sizeof_H0_Body h))"
  using view_block [OF V complete_bodies(1,5) [OF C]] by (simp add: load_H0_Body_def H0_body_def)

text \<open>The scalars the setup takes from the angle sections.\<close>

lemma view_a2_body:
  assumes V: "bth0_view buf pkt secs pos" and C: "bth0_complete secs h r" and d: "map_of secs A2 = Some d"
  shows "ebind (A2_body buf (mk_section A2 (pos A2))) (load_A2_Body buf) = Inr (A2_Body_of (take sizeof_A2_Body d))"
proof -
  have "rd buf (pos A2 + sizeof_SectionInfo) sizeof_A2_Body = Inr (take sizeof_A2_Body d)"
    using complete_bodies(8) [OF C d] by (intro view_block [OF V map_of_SomeD [OF d]]) simp
  then show ?thesis
    using view_presence(2) [OF V] carried_iff(1) [OF d] existanceErrorCheck_iff [of buf "mk_section A2 (pos A2)" "()"]
    by (simp add: A2_body_def load_A2_Body_def)
qed

lemma view_a0_body:
  assumes V: "bth0_view buf pkt secs pos" and C: "bth0_complete secs h r" and d: "map_of secs A0 = Some d"
  shows "ebind (A0_body buf (mk_section A0 (pos A0))) (load_A0_Body buf) = Inr (A0_Body_of (take sizeof_A0_Body d))"
proof -
  have "rd buf (pos A0 + sizeof_SectionInfo) sizeof_A0_Body = Inr (take sizeof_A0_Body d)"
    using complete_bodies(7) [OF C d] by (intro view_block [OF V map_of_SomeD [OF d]])
  then show ?thesis
    using view_presence(1) [OF V] carried_iff(1) [OF d] existanceErrorCheck_iff [of buf "mk_section A0 (pos A0)" "()"]
    by (simp add: A0_body_def load_A0_Body_def)
qed

definition angle_scalars :: "section_data list \<Rightarrow> nat \<Rightarrow> angle_setup" where
  "angle_scalars secs n =
     (let a2 = (case map_of secs A2 of None \<Rightarrow> (0, 0)
          | Some d \<Rightarrow> let b = A2_Body_of (take sizeof_A2_Body d) in (get (A2_AngleFirst b), get (A2_ScalingFactor b)));
        a0 = (case map_of secs A0 of None \<Rightarrow> (0, 0)
          | Some d \<Rightarrow> if 1 < n then let b = A0_Body_of (take sizeof_A0_Body d)
              in (get (A0_AngleFirst b), f32_div (f32_sub (get (A0_AngleLast b)) (get (A0_AngleFirst b))) (f32_of_nat (n - 1)))
            else (0, 0))
      in \<lparr>has_q0 = (Q0 \<in> fst ` set secs), has_a2 = (A2 \<in> fst ` set secs),
          a2_angle_first = fst a2, a2_scale_factor = snd a2,
          has_a0 = (A0 \<in> fst ` set secs), a0_angle_first = fst a0, a0_delta = snd a0\<rparr>)"

lemma view_setup:
  assumes V: "bth0_view buf pkt secs pos" and C: "bth0_complete secs h r"
  shows "bth0_setup buf pkt n = Inr (angle_scalars secs n)"
proof -
  have a2: "ebind (A2_body buf (mk_section A2 (pos A2))) (\<lambda>p. ebind (load_A2_Body buf p) f)
      = f (A2_Body_of (take sizeof_A2_Body d))" if "map_of secs A2 = Some d" for f :: "_ \<Rightarrow> (u32 \<times> u32) res" and d
    using view_a2_body [OF V C that] by (simp flip: ebind_assoc)
  have a0: "ebind (A0_body buf (mk_section A0 (pos A0))) (\<lambda>p. ebind (load_A0_Body buf p) f)
      = f (A0_Body_of (take sizeof_A0_Body d))" if "map_of secs A0 = Some d" for f :: "_ \<Rightarrow> (u32 \<times> u32) res" and d
    using view_a0_body [OF V C that] by (simp flip: ebind_assoc)
  show ?thesis
    using carried_iff [of secs A2] carried_iff [of secs A0]
    by (cases "map_of secs A2"; cases "map_of secs A0")
      (simp_all add: bth0_setup_def view_accessors [OF V] view_presence [OF V] a2 a0 angle_scalars_def Let_def)
qed

text \<open>The accumulator of the loop is the running sum of the steps.\<close>

definition steps_sum :: "section_data list \<Rightarrow> nat \<Rightarrow> u32" where
  "steps_sum secs n = (case map_of secs A2 of None \<Rightarrow> 0 | Some d \<Rightarrow> \<Sum>k<n. ucast (angle_step d k))"

lemma view_rx_angle:
  assumes V: "bth0_view buf pkt secs pos" and C: "bth0_complete secs h r" and i: "i < announced_beams h"
  shows "beam_rx_angle buf pkt (angle_scalars secs (announced_beams h)) i (steps_sum secs i)
    = Inr (steps_sum secs (Suc i), ping_rx_angle secs (announced_beams h) i)"
proof (cases "map_of secs A2")
  case (Some d)
  then show ?thesis
    using view_angle_step [OF V C i Some] carried_iff(1) [OF Some]
    by (simp add: beam_rx_angle_def angle_scalars_def steps_sum_def ping_rx_angle_def a2_angle_def Let_def
        lessThan_Suc_atMost [symmetric])
next
  case None
  have "f32_add 0 (f32_mul 0 (f32_of_nat 0)) = 0"
    by (simp add: float_eval compute_floorlog)
  with None i show ?thesis
    using carried_iff [of secs A0] carried_iff(2) [OF None]
    by (cases "map_of secs A0"; cases "announced_beams h = 1")
      (auto simp: beam_rx_angle_def angle_scalars_def steps_sum_def ping_rx_angle_def a0_angle_def Let_def)
qed

lemma view_beam:
  assumes V: "bth0_view buf pkt secs pos" and C: "bth0_complete secs h r" and i: "i < announced_beams h"
  shows "read_beam buf pkt (angle_scalars secs (announced_beams h)) i (steps_sum secs i)
    = Inr (ping_beam secs i, steps_sum secs (Suc i))"
proof -
  have "has_q0 (angle_scalars secs n) = (Q0 \<in> fst ` set secs)" for n
    by (simp add: angle_scalars_def Let_def)
  moreover have "beam_tx_angle buf pkt = Inr (get (TxSteeringVert (H0_Body_of (take sizeof_H0_Body h))))"
    by (simp add: beam_tx_angle_def view_accessors [OF V] view_header [OF V C])
  ultimately show ?thesis
    using view_range [OF V C i] view_intensity [OF V C i] view_rx_angle [OF V C i] view_flag [OF V C i]
    by (simp add: read_beam_def ping_beam_def Let_def complete_bodies(3,4) [OF C])
qed

lemma view_beams:
  assumes V: "bth0_view buf pkt secs pos" and C: "bth0_complete secs h r"
  shows "n \<le> announced_beams h \<Longrightarrow> read_beams buf pkt (angle_scalars secs (announced_beams h)) n
    = Inr (map (ping_beam secs) [0..<n], steps_sum secs n)"
proof (induction n)
  case 0
  then show ?case by (simp add: steps_sum_def split: option.splits)
next
  case (Suc n)
  then show ?case using view_beam [OF V C, of n] by simp
qed

lemma view_conversion:
  assumes V: "bth0_view buf pkt secs pos" and C: "bth0_complete secs h r"
  shows "bth02SonarDetections buf pkt m = Inr (ping_detections (frame_id (det_header m)) secs)"
proof -
  let ?b = "H0_Body_of (take sizeof_H0_Body h)"
  have n: "unat (get (H0_Beams ?b)) = announced_beams h"
    by (simp add: announced_beams_def)
  show ?thesis
    using view_beams [OF V C order_refl]
    by (simp add: bth02SonarDetections_eq view_accessors(1) [OF V] view_header [OF V C] n view_setup [OF V C]
        ping_detections_def Let_def complete_bodies(3) [OF C])
qed

lemma ping_ranges:
  "bth0_complete secs h r \<Longrightarrow>
   two_way_travel_times (ping_detections frame secs) = map (scaled_element r) [0..<announced_beams h]"
  by (simp add: ping_detections_def detections_of_def Let_def complete_bodies(3,4) ping_beam_def comp_def)

end
