(* ===== verification/Detections.thy ===== *)
theory Detections
  imports PingSpec
begin

text \<open>
  The properties of the sonar detections: a complete packet is converted to the message its sections
  mean, and in a message returned for any bytes each array entry is the interpreted packet field.
\<close>

section \<open>Properties of the published detections\<close>



text \<open>
  C14: the quality flag of a point is bad exactly when Q0 is present and neither of the point's
  detection bits is set; without Q0 every point is OK.
\<close>

theorem detections_flags:
  assumes ret: "bth02SonarDetections buf pkt m = Inr m'" and q0: "BTH0_q0 buf pkt = Inr q"
    and ex: "section_exists buf q = Inr ex" and i: "i < length (flags m')"
  shows "if ex then \<exists>f. getQualityFlag buf q (word_of_nat i) = Inr f
           \<and> flags m' ! i = (if bit f 3 \<or> bit f 2 then DETECT_OK else DETECT_BAD_SONAR)
         else flags m' ! i = DETECT_OK"
proof -
  obtain h0 b su vs s where
    su: "bth0_setup buf pkt (unat (get (H0_Beams b))) = Inr su"
    and vs: "read_beams buf pkt su (unat (get (H0_Beams b))) = Inr (vs, s)"
    and m': "m' = detections_of b (frame_id (det_header m)) vs"
    and len: "length vs = unat (get (H0_Beams b))"
    using ret by (rule detections_cases)
  have has: "has_q0 su = ex"
    using su q0 ex by (auto simp: bth0_setup_def res_simps split_def)
  have iv: "i < length vs" "flags m' ! i = br_flag (vs ! i)"
    using i by (auto simp: m' detections_of_def)
  obtain si si' where rb: "read_beam buf pkt su i si = Inr (vs ! i, si')"
    using read_beams_nth [OF vs, of i] iv len by auto
  show ?thesis
  proof (cases ex)
    case False
    with rb has iv show ?thesis by (auto simp: read_beam_Inr)
  next
    case True
    with rb has have fl: "beam_flag buf pkt i = Inr (br_flag (vs ! i))"
      by (auto simp: read_beam_Inr)
    then obtain f where f: "getQualityFlag buf q (word_of_nat i) = Inr f"
      using q0 by (auto simp: beam_flag_def phaseDetect_def res_simps)
    then show ?thesis
      using fl q0 detect_flags [OF f] True iv
      by (cases "bit f 3"; cases "bit f 2") (auto simp: beam_flag_def)
  qed
qed

text \<open>
  C13: with an A2 section the receive angle of point \<open>i\<close> is the first angle plus the scaled
  32-bit sum of the steps up to \<open>i\<close>, in \<open>float\<close> arithmetic.
\<close>

theorem detections_a2_angles:
  assumes ret: "bth02SonarDetections buf pkt m = Inr m'"
    and a2: "BTH0_a2 buf pkt = Inr a" and ex: "section_exists buf a = Inr True"
    and body: "load_A2_Body buf (start_bit a + sizeof_SectionInfo) = Inr b"
  shows "\<exists>steps. length steps = length (det_rx_angles m')
    \<and> (\<forall>i < length (det_rx_angles m').
        beam_angle_step buf pkt i = Inr (steps ! i)
        \<and> det_rx_angles m' ! i = f32_add (get (A2_AngleFirst b))
            (f32_mul (f32_of_nat (unat (\<Sum>k\<le>i. ucast (steps ! k) :: u32))) (get (A2_ScalingFactor b))))"
proof -
  obtain h0 h su vs s where
    su: "bth0_setup buf pkt (unat (get (H0_Beams h))) = Inr su"
    and vs: "read_beams buf pkt su (unat (get (H0_Beams h))) = Inr (vs, s)"
    and m': "m' = detections_of h (frame_id (det_header m)) vs"
    and len: "length vs = unat (get (H0_Beams h))"
    using ret by (rule detections_cases)
  have chk: "existanceErrorCheck buf a = Inr ()"
    using ex by (simp add: existanceErrorCheck_iff)
  then have "has_a2 su" "a2_angle_first su = get (A2_AngleFirst b)"
      "a2_scale_factor su = get (A2_ScalingFactor b)"
    using su a2 ex body by (auto simp: bth0_setup_def res_simps split_def A2_body_def)
  with read_beams_a2 [OF _ vs] show ?thesis
    by (auto simp: m' detections_of_def len)
qed

section \<open>A ping of one point and a ping of two\<close>

definition sample_a2 :: "section_data list" where
  "sample_a2 = [(H0, replicate 110 0 @ [0, 1]), (R0, [0x3F, 0x80, 0, 0, 0, 7]),
     (A2, replicate 32 0 @ [0, 9]), (Q0, [0x80, 0, 0, 0])]"

definition sample_a0 :: "section_data list" where
  "sample_a0 = [(H0, replicate 110 0 @ [0, 2]), (R0, [0x3F, 0x80, 0, 0, 0, 7, 0, 9]),
     (A0, [0x3F, 0x80, 0, 0, 0x40, 0, 0, 0] @ replicate 24 0)]"

definition sample_buffer :: "section_data list \<Rightarrow> buffer" where
  "sample_buffer secs = packet_bytes BTH0 0 secs @ [0, 0]"

abbreviation sample_packet :: packet where
  "sample_packet \<equiv> mk_packet BTH0 0"

lemma announced_one [simp]: "announced_beams (replicate 110 0 @ [0, 1]) = 1" "announced_beams (replicate 110 0 @ [0, 2]) = 2"
  by (simp_all add: announced_beams_def sizeof_H0_Body_def H0_Body_of_def field_be_def mem_eval)

lemma sample_ok:
  "section_list_ok bth0_layout sample_a2" "section_list_ok bth0_layout sample_a0"
  "tail_ok bth0_layout sample_a2 (0 # 0 # zs)" "tail_ok bth0_layout sample_a0 (0 # 0 # zs)"
  "bth0_complete sample_a2 (replicate 110 0 @ [0, 1]) [0x3F, 0x80, 0, 0, 0, 7]"
  "bth0_complete sample_a0 (replicate 110 0 @ [0, 2]) [0x3F, 0x80, 0, 0, 0, 7, 0, 9]"
  by (simp_all add: section_list_ok_def tail_ok_def bth0_layout_def section_order sample_a2_def
      sample_a0_def bth0_complete_def sizeof_H0_Body_def sizeof_A0_Body_def sizeof_A2_Body_def)

lemma sample_views:
  "bth0_view (sample_buffer sample_a2) sample_packet sample_a2 (\<lambda>t. section_pos 0 t sample_a2)"
  "bth0_view (sample_buffer sample_a0) sample_packet sample_a0 (\<lambda>t. section_pos 0 t sample_a0)"
  using bth0_packet_view [OF sample_ok(1,3), of "[]" 0] bth0_packet_view [OF sample_ok(2,4), of "[]" 0]
  by (simp_all add: sample_buffer_def)

lemmas sample_a2_view = sample_views(1)
lemmas sample_a0_view = sample_views(2)

lemma sample_converted:
  "\<exists>m'. bth02SonarDetections (sample_buffer sample_a2) sample_packet m = Inr m' \<and> length (two_way_travel_times m') = 1"
  "\<exists>m'. bth02SonarDetections (sample_buffer sample_a0) sample_packet m = Inr m' \<and> length (two_way_travel_times m') = 2"
  using view_conversion [OF sample_a2_view sample_ok(5), of m] ping_ranges [OF sample_ok(5)]
    view_conversion [OF sample_a0_view sample_ok(6), of m] ping_ranges [OF sample_ok(6)] by simp_all

lemma detections_lengths:
  assumes "bth02SonarDetections buf pkt m = Inr m'"
  shows "length (flags m') = length (two_way_travel_times m')"
    "length (det_rx_angles m') = length (two_way_travel_times m')"
  using assms by (elim detections_cases, simp add: detections_of_def)+


theorem detections_flags_witness:
  "\<exists>m'. bth02SonarDetections (sample_buffer sample_a2) sample_packet SonarDetections0 = Inr m'
    \<and> (\<exists>f. getQualityFlag (sample_buffer sample_a2) (mk_section Q0 (section_pos 0 Q0 sample_a2)) (word_of_nat 0) = Inr f
         \<and> flags m' ! 0 = (if bit f 3 \<or> bit f 2 then DETECT_OK else DETECT_BAD_SONAR))"
proof -
  obtain m' where m': "bth02SonarDetections (sample_buffer sample_a2) sample_packet SonarDetections0 = Inr m'"
      "length (two_way_travel_times m') = 1"
    using sample_converted(1) by blast
  have "section_exists (sample_buffer sample_a2) (mk_section Q0 (section_pos 0 Q0 sample_a2)) = Inr True"
    using view_presence(4) [OF sample_a2_view] by (simp add: sample_a2_def)
  then show ?thesis
    using detections_flags [OF m'(1) view_accessors(6) [OF sample_a2_view], of True 0] m'
    by (simp add: detections_lengths [OF m'(1)])
qed

theorem detections_a2_angles_witness:
  "\<exists>m' (b :: A2_Body). bth02SonarDetections (sample_buffer sample_a2) sample_packet SonarDetections0 = Inr m'
    \<and> length (det_rx_angles m') = 1
    \<and> (\<exists>steps. length steps = length (det_rx_angles m')
      \<and> (\<forall>i < length (det_rx_angles m').
          beam_angle_step (sample_buffer sample_a2) sample_packet i = Inr (steps ! i)
          \<and> det_rx_angles m' ! i = f32_add (get (A2_AngleFirst b))
              (f32_mul (f32_of_nat (unat (\<Sum>k\<le>i. ucast (steps ! k) :: u32))) (get (A2_ScalingFactor b)))))"
proof -
  obtain m' where m': "bth02SonarDetections (sample_buffer sample_a2) sample_packet SonarDetections0 = Inr m'"
      "length (two_way_travel_times m') = 1"
    using sample_converted(1) by blast
  let ?s = "mk_section A2 (section_pos 0 A2 sample_a2)"
  have ex: "section_exists (sample_buffer sample_a2) ?s = Inr True"
    using view_presence(2) [OF sample_a2_view] by (simp add: sample_a2_def)
  have "map_of sample_a2 A2 = Some (replicate 32 0 @ [0, 9])"
    by (simp add: sample_a2_def)
  from view_a2_body [OF sample_a2_view sample_ok(5) this]
  obtain b where b: "load_A2_Body (sample_buffer sample_a2) (start_bit ?s + sizeof_SectionInfo) = Inr b"
    by (auto simp: A2_body_def res_simps)
  have "length (det_rx_angles m') = 1"
    using m' detections_lengths(2) [OF m'(1)] by simp
  note facts = m'(1) this detections_a2_angles [OF m'(1) view_accessors(4) [OF sample_a2_view] ex b]
  show ?thesis
    by (rule exI [of _ m'], rule exI [of _ b], intro conjI) (rule facts)+
qed

text \<open>The arithmetic of the angles 1 and 2.\<close>

lemma decode_one_two:
  "f32_decode 0x3F800000 = Finite False 8388608 (-23)" "f32_decode 0x40000000 = Finite False 8388608 (-22)"
  "f32_decode 0 = Finite False 0 (-149)"
  by (simp_all add: f32_decode_def)

lemma one_two_arithmetic:
  "f32_of_nat 0 = 0" "f32_of_nat 1 = 0x3F800000" "f32_sub 0x40000000 0x3F800000 = 0x3F800000"
  "f32_div 0x3F800000 0x3F800000 = 0x3F800000" "f32_mul 0x3F800000 0 = 0"
  "f32_mul 0x3F800000 0x3F800000 = 0x3F800000" "f32_add 0x3F800000 0 = 0x3F800000"
  "f32_add 0x3F800000 0x3F800000 = 0x40000000"
  by (simp_all add: f32_mul_def f32_add_def f32_sub_def f32_div_def decode_one_two scaled_def Let_def)
    (simp_all add: float_eval compute_floorlog)


end
