(* ===== verification/Assembler.thy ===== *)
theory Assembler
  imports Conversions
begin

text \<open>
  \<open>Aid02RawAiAssembler\<close> of \<open>conversions.hpp\<close> and \<open>conversions.cpp\<close>: an acoustic image arrives as
  one packet with the ping's header and many packets with a rectangle of samples each. The loops
  keep the types of their counters: beams are counted in 16 bits up to an \<open>int\<close> bound, bins in
  32 bits, and the position of a sample in the image is an \<open>int\<close>. The beam loop may run forever,
  so \<open>addPacket\<close> is an option: \<open>None\<close> is a call that does not return.
\<close>

section \<open>The state\<close>

record assembler =
  sonar_image :: RawSonarImage
  ready :: bool
  h0_data :: H0_Body

text \<open>The constructor leaves \<open>ready_\<close> and \<open>h0_data_\<close> as it finds them in memory.\<close>

definition new_assembler :: "bool \<Rightarrow> H0_Body \<Rightarrow> assembler" where
  "new_assembler r h = \<lparr>sonar_image = RawSonarImage0, ready = r, h0_data = h\<rparr>"

definition isReady :: "assembler \<Rightarrow> bool" where
  "isReady a = ready a"

section \<open>The header packet\<close>

definition header_beam :: "buffer \<Rightarrow> packet \<Rightarrow> nat \<Rightarrow> RawSonarImage \<Rightarrow> RawSonarImage res" where
  "header_beam buf pkt i img =
     (let img = img\<lparr>img_tx_delays := (img_tx_delays img)[i := 0]\<rparr>
      in ebind (AID0_h0 buf pkt) (\<lambda>h. ebind (load_H0_Body buf (H0_body h)) (\<lambda>b.
         let img = img\<lparr>img_tx_angles := (img_tx_angles img)[i := get (TxSteeringVert b)]\<rparr>
         in ebind (AID0_a1 buf pkt) (\<lambda>a1. ebind (A1_BeamAngle buf a1 (word_of_nat i)) (\<lambda>p.
            ebind (load_be buf p) (\<lambda>angle.
            Inr (img\<lparr>img_rx_angles := (img_rx_angles img)[i := get (angle :: BE_f32)]\<rparr>)))))))"

definition add_header :: "buffer \<Rightarrow> packet \<Rightarrow> assembler \<Rightarrow> (bool \<times> assembler) res" where
  "add_header buf pkt a =
     ebind (AID0_h0 buf pkt) (\<lambda>h0.
     ebind (h02Header buf h0 (img_header (sonar_image a))) (\<lambda>header.
     ebind (h02PingInfo buf h0 (img_ping_info (sonar_image a))) (\<lambda>info.
     ebind (load_H0_Body buf (H0_body h0)) (\<lambda>b.
     let total_beams = unat (get (H0_Beams b));
         img = (sonar_image a)\<lparr>img_header := header, img_ping_info := info,
                  image_dtype := DTYPE_UINT8, sample0 := 0, beam_count := ucast (get (H0_Beams b)),
                  img_tx_delays := vec_resize total_beams 0 (img_tx_delays (sonar_image a)),
                  img_tx_angles := vec_resize total_beams 0 (img_tx_angles (sonar_image a)),
                  img_rx_angles := vec_resize total_beams 0 (img_rx_angles (sonar_image a))\<rparr>
     in ebind (efold (header_beam buf pkt) [0..<total_beams] img) (\<lambda>img.
        Inr (False, a\<lparr>sonar_image := img, h0_data := b\<rparr>))))))"

section \<open>A rectangle of samples\<close>

text \<open>One sample: its place in the image, its value in the packet, the store.\<close>

definition set_sample ::
  "buffer \<Rightarrow> sonar_section \<Rightarrow> M0_Body \<Rightarrow> u16 \<Rightarrow> u32 \<Rightarrow> u8 list \<Rightarrow> u8 list res" where
  "set_sample buf m0 b beam_idx bin_idx data =
     ebind (int_result (sint bin_idx * uint (get (M0_TotalBeams b)))) (\<lambda>row.
     ebind (int_result (row + uint beam_idx)) (\<lambda>data_idx.
     ebind (M0_magnitude buf m0 beam_idx (ucast bin_idx)) (\<lambda>p.
     ebind (load_be buf p) (\<lambda>mag.
     if 0 \<le> data_idx \<and> data_idx < int (length data)
     then Inr (data[nat data_idx := get (mag :: BE_u8)])
     else Inl (Undefined WriteOutOfBounds)))))"

function bin_loop ::
  "buffer \<Rightarrow> sonar_section \<Rightarrow> M0_Body \<Rightarrow> u16 \<Rightarrow> u32 \<Rightarrow> u8 list \<Rightarrow> u8 list res" where
  "bin_loop buf m0 b beam_idx bin_idx data =
     (if bin_idx < get (M0_FirstBin b) + ucast (get (M0_Bins b)) then
        ebind (set_sample buf m0 b beam_idx bin_idx data) (\<lambda>data.
        bin_loop buf m0 b beam_idx (bin_idx + 1) data)
      else Inr data)"
  by pat_completeness auto

lemma bin_next:
  assumes "(i :: u32) < s"
  shows "unat (i + 1) = Suc (unat i)"
proof -
  have "unat i < unat s" using assms by (simp add: word_less_nat_alt)
  then have "Suc (unat i) < 2 ^ 32" using unat_bound [of s] by simp
  then show ?thesis by (simp add: unat_word_ariths)
qed

termination bin_loop
proof (relation "measure (\<lambda>(buf, m0, b, beam_idx, bin_idx, data).
    unat (get (M0_FirstBin b) + ucast (get (M0_Bins b))) - unat bin_idx)", goal_cases)
  case 1
  then show ?case by simp
next
  case (2 buf m0 b beam_idx bin_idx data x)
  then show ?case
    by (simp add: bin_next word_less_nat_alt)
qed

declare bin_loop.simps [simp del]

partial_function (option) beam_loop ::
  "buffer \<Rightarrow> sonar_section \<Rightarrow> M0_Body \<Rightarrow> u16 \<Rightarrow> u8 list \<Rightarrow> u8 list res option" where
  "beam_loop buf m0 b beam_idx data =
     (if uint beam_idx < uint (get (M0_FirstBeam b)) + uint (get (M0_Beams b)) then
        (case bin_loop buf m0 b beam_idx (get (M0_FirstBin b)) data of
           Inl e \<Rightarrow> Some (Inl e)
         | Inr data' \<Rightarrow> beam_loop buf m0 b (beam_idx + 1) data')
      else Some (Inr data))"

section \<open>Adding a packet\<close>

text \<open>The image is allocated when its size is not the announced one.\<close>

definition size_image :: "M0_Body \<Rightarrow> RawSonarImage \<Rightarrow> RawSonarImage" where
  "size_image b img =
     (let data_size = unat (get (M0_TotalBins b) * ucast (get (M0_TotalBeams b)))
      in if length (image_data img) \<noteq> data_size
         then img\<lparr>samples_per_beam := get (M0_TotalBins b),
                  image_data := map (\<lambda>_. 0) (vec_resize data_size 0 (image_data img))\<rparr>
         else img)"

text \<open>After the loops: complete with the section that reaches the last bin.\<close>

definition finish_section :: "M0_Body \<Rightarrow> assembler \<Rightarrow> bool \<times> assembler" where
  "finish_section b a =
     (if get (M0_TotalBins b) \<le> get (M0_FirstBin b) + ucast (get (M0_Bins b)) then
        let sampling_rate_scale = f64_div (f64_of_nat (unat (get (M0_TotalBins b))))
                                          (f64_of_nat (unat (get (M0_TotalSamples b))))
        in (True, a\<lparr>sonar_image := (sonar_image a)\<lparr>sample_rate :=
              f64_mul (f64_of_f32 (get (RxSampleRate (h0_data a)))) sampling_rate_scale\<rparr>\<rparr>)
      else (False, a))"

definition add_section :: "buffer \<Rightarrow> sonar_section \<Rightarrow> assembler \<Rightarrow> (bool \<times> assembler) res option" where
  "add_section buf m0 a =
     (case ebind (M0_body buf m0) (load_M0_Body buf) of
        Inl e \<Rightarrow> Some (Inl e)
      | Inr b \<Rightarrow>
          if get (H0_PingNumber (h0_data a)) \<noteq> get (M0_PingNumber b) then Some (Inr (False, a))
          else
            let img = size_image b (sonar_image a)
            in map_option (\<lambda>r. ebind r (\<lambda>data.
                 Inr (finish_section b (a\<lparr>sonar_image := img\<lparr>image_data := data\<rparr>\<rparr>))))
               (beam_loop buf m0 b (get (M0_FirstBeam b)) (image_data img)))"

definition addPacket :: "buffer \<Rightarrow> packet \<Rightarrow> assembler \<Rightarrow> (bool \<times> assembler) res option" where
  "addPacket buf pkt a =
     (case isFirstInSeries buf pkt of
        Inl e \<Rightarrow> Some (Inl e)
      | Inr True \<Rightarrow> Some (add_header buf pkt a)
      | Inr False \<Rightarrow>
          (case ebind (AID0_m0 buf pkt) (\<lambda>m0. ebind (section_exists buf m0) (\<lambda>ex. Inr (m0, ex))) of
             Inl e \<Rightarrow> Some (Inl e)
           | Inr (m0, ex) \<Rightarrow> if ex then add_section buf m0 a else Some (Inr (False, a))))"

end
