(* ===== verification/ImageTiles.thy ===== *)
theory ImageTiles
  imports Assembler
begin

text \<open>
  What the assembler does with the sections of an image. A section is a rectangle of samples laid
  over the image; the loops of \<open>addPacket\<close> refine that overlay, and sections of one image put
  together in any order give the image.
\<close>

section \<open>The loops as folds\<close>

lemma bin_loop_fold:
  "bin_loop buf m0 b j i data = efold (\<lambda>k. set_sample buf m0 b j (word_of_nat k))
     [unat i ..< unat (get (M0_FirstBin b) + ucast (get (M0_Bins b)))] data"
proof (induction buf m0 b j i data rule: bin_loop.induct)
  case (1 buf m0 b j i data)
  show ?case
  proof (cases "i < get (M0_FirstBin b) + ucast (get (M0_Bins b))")
    case True
    then have "unat i < unat (get (M0_FirstBin b) + ucast (get (M0_Bins b)))"
      by (simp add: word_less_nat_alt)
    with True 1 show ?thesis
      by (subst bin_loop.simps) (simp add: bin_next upt_conv_Cons cong: ebind_cong)
  next
    case False
    then show ?thesis by (subst bin_loop.simps) (simp add: word_less_nat_alt)
  qed
qed

lemma uint_bound_iff: "uint (x :: u16) < uint (y :: u16) + uint (z :: u16) \<longleftrightarrow> unat x < unat y + unat z"
  by (simp only: uint_nat of_nat_add [symmetric] of_nat_less_iff)

lemma beam_loop_fold:
  assumes "unat (get (M0_FirstBeam b)) + unat (get (M0_Beams b)) \<le> 65535"
  shows "beam_loop buf m0 b j data = Some (efold (\<lambda>k. bin_loop buf m0 b (word_of_nat k) (get (M0_FirstBin b)))
     [unat j ..< unat (get (M0_FirstBeam b)) + unat (get (M0_Beams b))] data)"
proof (induction "unat (get (M0_FirstBeam b)) + unat (get (M0_Beams b)) - unat j" arbitrary: j data)
  case 0
  then show ?case by (subst beam_loop.simps) (simp add: uint_bound_iff)
next
  case (Suc n)
  let ?stop = "unat (get (M0_FirstBeam b)) + unat (get (M0_Beams b))"
  have lt: "unat j < ?stop" using Suc.hyps(2) by linarith
  then have "uint j < uint (get (M0_FirstBeam b)) + uint (get (M0_Beams b))"
    by (simp add: uint_bound_iff)
  moreover have nx: "unat (j + 1) = Suc (unat j)"
    using lt assms by (subst unat_word_ariths) simp
  moreover have "n = ?stop - unat (j + 1)"
    using Suc.hyps(2) nx by linarith
  ultimately show ?case
    using Suc.hyps(1) [of "j + 1"] lt
    by (subst beam_loop.simps) (auto simp: upt_conv_Cons split: sum.splits)
qed

section \<open>One sample\<close>

text \<open>
  A section whose rectangle lies in an image of at most 65536 bins and less than \<open>2 ^ 31\<close> samples,
  and whose contents hold all its samples.
\<close>

definition section_fits :: "M0_Body \<Rightarrow> u8 list \<Rightarrow> bool" where
  "section_fits b d \<longleftrightarrow>
     unat (get (M0_FirstBin b)) + unat (get (M0_Bins b)) \<le> unat (get (M0_TotalBins b))
     \<and> unat (get (M0_FirstBeam b)) + unat (get (M0_Beams b)) \<le> unat (get (M0_TotalBeams b))
     \<and> unat (get (M0_TotalBins b)) \<le> 65536
     \<and> unat (get (M0_TotalBins b)) * unat (get (M0_TotalBeams b)) < 2 ^ 31
     \<and> 32 + unat (get (M0_Beams b)) * unat (get (M0_Bins b)) \<le> length d"

definition in_tile :: "M0_Body \<Rightarrow> nat \<Rightarrow> nat \<Rightarrow> bool" where
  "in_tile b k j \<longleftrightarrow>
     unat (get (M0_FirstBin b)) \<le> k \<and> k < unat (get (M0_FirstBin b)) + unat (get (M0_Bins b))
     \<and> unat (get (M0_FirstBeam b)) \<le> j \<and> j < unat (get (M0_FirstBeam b)) + unat (get (M0_Beams b))"

text \<open>The sample of bin \<open>k\<close> and beam \<open>j\<close>: one row of \<open>Bins\<close> samples per beam after the header.\<close>

definition tile_value :: "M0_Body \<Rightarrow> u8 list \<Rightarrow> nat \<Rightarrow> nat \<Rightarrow> u8" where
  "tile_value b d k j = d ! (32 + ((j - unat (get (M0_FirstBeam b))) * unat (get (M0_Bins b))
                                   + (k - unat (get (M0_FirstBin b)))))"

lemma tile_offset:
  assumes "in_tile b k j"
  shows "(j - unat (get (M0_FirstBeam b))) * unat (get (M0_Bins b)) + (k - unat (get (M0_FirstBin b)))
    < unat (get (M0_Beams b)) * unat (get (M0_Bins b))"
proof -
  define m where "m = unat (get (M0_Bins b))"
  have "j - unat (get (M0_FirstBeam b)) + 1 \<le> unat (get (M0_Beams b))"
    and c: "k - unat (get (M0_FirstBin b)) < m"
    using assms by (auto simp: in_tile_def m_def)
  then have "(j - unat (get (M0_FirstBeam b)) + 1) * m \<le> unat (get (M0_Beams b)) * m"
    by (intro mult_right_mono) auto
  with c show ?thesis by (simp add: m_def algebra_simps)
qed

lemma pixel_bound:
  fixes k j :: nat
  assumes "k < n" and "j < w"
  shows "k * w + j < n * w"
proof -
  have "(k + 1) * w \<le> n * w" using assms by (intro mult_right_mono) auto
  with assms(2) show ?thesis by (simp add: algebra_simps)
qed

lemma pixel_inject:
  fixes k j :: nat
  assumes "j < w" and "j' < w"
  shows "k * w + j = k' * w + j' \<longleftrightarrow> k = k' \<and> j = j'"
  using assms by (metis add.commute div_mult_self3 div_less add_0 mod_mult_self3 mod_less less_nat_zero_code)

lemma get_field_u8: "off < length d \<Longrightarrow> get (field_be d off :: BE_u8) = d ! off"
  by (simp add: field_be_def take_Suc_conv_app_nth hd_drop_conv_nth take_Suc get_mem_eval of_mem_eval)

lemma set_sample_at:
  assumes ex: "section_exists buf (mk_section M0 p) = Inr True"
    and d: "rd buf (p + 4) (length d) = Inr d" and b: "b = M0_Body_of (take 32 d)"
    and fits: "section_fits b d" and tile: "in_tile b k j"
    and len: "length data = unat (get (M0_TotalBins b)) * unat (get (M0_TotalBeams b))"
  shows "set_sample buf (mk_section M0 p) b (word_of_nat j) (word_of_nat k) data
    = Inr (data[k * unat (get (M0_TotalBeams b)) + j := tile_value b d k j])"
proof -
  define w where "w = unat (get (M0_TotalBeams b))"
  define off where "off = (j - unat (get (M0_FirstBeam b))) * unat (get (M0_Bins b)) + (k - unat (get (M0_FirstBin b)))"
  have kj: "k < unat (get (M0_TotalBins b))" "j < w" "k < 65536" "j < 65536" "w < 65536"
    using fits tile unat_bound [of "get (M0_TotalBeams b)"] by (auto simp: section_fits_def in_tile_def w_def)
  have area: "unat (get (M0_TotalBins b)) * w < 2 ^ 31"
    using fits by (simp add: section_fits_def w_def)
  have pix: "k * w + j < unat (get (M0_TotalBins b)) * w"
    using kj by (intro pixel_bound)
  have un: "unat (word_of_nat k :: u32) = k" "unat (word_of_nat k :: u16) = k" "unat (word_of_nat j :: u16) = j"
    using kj by (simp_all add: unat_of_nat)
  have sk: "sint (word_of_nat k :: u32) = int k"
    using kj by (simp add: signed_of_nat signed_take_bit_int_eq_self)
  have off: "off < unat (get (M0_Beams b)) * unat (get (M0_Bins b))" "32 + off < length d"
    using tile_offset [OF tile] fits by (auto simp: section_fits_def off_def)
  have "unat (get (M0_Beams b)) * unat (get (M0_Bins b)) \<le> w * unat (get (M0_TotalBins b))"
    using fits by (intro mult_le_mono) (auto simp: section_fits_def w_def)
  then have small: "off < 2 ^ 31" using off area by (simp add: mult.commute)
  have "M0_magnitude buf (mk_section M0 p) (word_of_nat j) (word_of_nat k) = Inr (p + 36 + off)"
  proof (subst M0_magnitude_addr [OF ex])
    show "load_M0_Body buf (start_bit (mk_section M0 p) + 4) = Inr b"
      using rd_block [OF d, of 32] fits by (simp add: load_M0_Body_def sizeof_M0_Body_def b section_fits_def)
  qed (use tile small un in \<open>simp_all add: in_tile_def off_def\<close>)
  moreover have "load_be buf (p + 36 + off) = Inr (field_be d (32 + off) :: BE_u8)"
    using off load_be_within [OF d, of "32 + off", where 'a = 8] by (simp add: add.assoc)
  moreover have "uint (get (M0_TotalBeams b)) = int w" "uint (word_of_nat j :: u16) = int j"
    using kj(4) by (simp_all add: w_def unsigned_of_nat take_bit_nat_eq_self)
  moreover have "int k * int w + int j < int (length data)"
    using pix by (simp only: len w_def of_nat_mult [symmetric] of_nat_add [symmetric] of_nat_less_iff)
  moreover have "ucast (word_of_nat k :: u32) = (word_of_nat k :: u16)"
    using kj by (simp add: word_unat_eq_iff unsigned_ucast_eq unsigned_of_nat take_bit_nat_eq_self)
  moreover have "fits_int (int k * int w)" "fits_int (int k * int w + int j)"
    using pix area kj by (auto simp: fits_int_def simp flip: of_nat_mult of_nat_add)
  moreover have "nat (int k * int w + int j) = k * w + j"
    by (simp add: nat_eq_iff)
  ultimately show ?thesis
    using off(2) sk
    by (simp add: set_sample_def int_result_def w_def [symmetric] tile_value_def off_def [symmetric]
        get_field_u8)
qed

section \<open>The overlay\<close>

definition pixel :: "nat \<Rightarrow> u8 list \<Rightarrow> nat \<Rightarrow> nat \<Rightarrow> u8" where
  "pixel w data k j = data ! (k * w + j)"

definition overlay :: "M0_Body \<Rightarrow> u8 list \<Rightarrow> (nat \<Rightarrow> nat \<Rightarrow> u8) \<Rightarrow> nat \<Rightarrow> nat \<Rightarrow> u8" where
  "overlay b d I k j = (if in_tile b k j then tile_value b d k j else I k j)"

text \<open>The image \<open>data\<close> has the samples of \<open>I\<close>.\<close>

definition shows_image :: "M0_Body \<Rightarrow> u8 list \<Rightarrow> (nat \<Rightarrow> nat \<Rightarrow> u8) \<Rightarrow> bool" where
  "shows_image b data I \<longleftrightarrow>
     length data = unat (get (M0_TotalBins b)) * unat (get (M0_TotalBeams b))
     \<and> (\<forall>k < unat (get (M0_TotalBins b)). \<forall>j < unat (get (M0_TotalBeams b)).
          pixel (unat (get (M0_TotalBeams b))) data k j = I k j)"

lemma shows_image_update:
  assumes "shows_image b data I" and "k < unat (get (M0_TotalBins b))" and "j < unat (get (M0_TotalBeams b))"
  shows "shows_image b (data[k * unat (get (M0_TotalBeams b)) + j := v])
    (\<lambda>k' j'. if k' = k \<and> j' = j then v else I k' j')"
  using assms pixel_bound [OF assms(2,3)]
  by (auto simp: shows_image_def pixel_def nth_list_update pixel_inject)

lemma shows_image_cong:
  "shows_image b data I \<Longrightarrow> (\<And>k j. I k j = J k j) \<Longrightarrow> shows_image b data J"
  by (simp add: shows_image_def)

lemma bin_stop:
  assumes "section_fits b d"
  shows "unat (get (M0_FirstBin b) + ucast (get (M0_Bins b)))
    = unat (get (M0_FirstBin b)) + unat (get (M0_Bins b))"
proof -
  have "unat (get (M0_FirstBin b)) + unat (get (M0_Bins b)) < 2 ^ 32"
    using assms unat_bound [of "get (M0_TotalBins b)"] by (simp add: section_fits_def)
  then show ?thesis by (simp add: unat_word_ariths)
qed

lemma bin_loop_overlay:
  assumes ex: "section_exists buf (mk_section M0 p) = Inr True"
    and d: "rd buf (p + 4) (length d) = Inr d" and b: "b = M0_Body_of (take 32 d)"
    and fits: "section_fits b d" and img: "shows_image b data I"
    and j: "unat (get (M0_FirstBeam b)) \<le> j" "j < unat (get (M0_FirstBeam b)) + unat (get (M0_Beams b))"
  shows "\<exists>data'. bin_loop buf (mk_section M0 p) b (word_of_nat j) (get (M0_FirstBin b)) data = Inr data'
    \<and> shows_image b data' (\<lambda>k' j'. if in_tile b k' j' \<and> j' = j then tile_value b d k' j' else I k' j')"
proof -
  define lo where "lo = unat (get (M0_FirstBin b))"
  define hi where "hi = lo + unat (get (M0_Bins b))"
  define P where "P i data = shows_image b data
      (\<lambda>k' j'. if lo \<le> k' \<and> k' < i \<and> j' = j then tile_value b d k' j' else I k' j')" for i data
  have "\<exists>t. efold (\<lambda>k. set_sample buf (mk_section M0 p) b (word_of_nat j) (word_of_nat k)) [lo..<hi] data = Inr t \<and> P hi t"
  proof (rule efold_range_total)
    show "lo \<le> hi" by (simp add: hi_def)
    show "P lo data" unfolding P_def by (rule shows_image_cong [OF img]) auto
    fix k dat assume k: "lo \<le> k" "k < hi" and P: "P k dat"
    have tile: "in_tile b k j" using k j by (simp add: in_tile_def lo_def hi_def)
    have kj: "k < unat (get (M0_TotalBins b))" "j < unat (get (M0_TotalBeams b))"
      using k j fits by (simp_all add: section_fits_def lo_def hi_def)
    show "\<exists>dat'. set_sample buf (mk_section M0 p) b (word_of_nat j) (word_of_nat k) dat = Inr dat' \<and> P (Suc k) dat'"
      using set_sample_at [OF ex d b fits tile] shows_image_update [OF P [unfolded P_def] kj] P k
      by (auto simp: P_def shows_image_def less_Suc_eq)
  qed
  then obtain t where t: "efold (\<lambda>k. set_sample buf (mk_section M0 p) b (word_of_nat j) (word_of_nat k)) [lo..<hi] data = Inr t"
    "P hi t" by blast
  have "in_tile b k' j' \<and> j' = j \<longleftrightarrow> lo \<le> k' \<and> k' < hi \<and> j' = j" for k' j'
    using j by (auto simp: in_tile_def lo_def hi_def)
  with t show ?thesis
    by (simp add: bin_loop_fold bin_stop [OF fits] P_def hi_def lo_def)
qed

lemma beam_loop_overlay:
  assumes ex: "section_exists buf (mk_section M0 p) = Inr True"
    and d: "rd buf (p + 4) (length d) = Inr d" and b: "b = M0_Body_of (take 32 d)"
    and fits: "section_fits b d" and img: "shows_image b data I"
  shows "\<exists>data'. beam_loop buf (mk_section M0 p) b (get (M0_FirstBeam b)) data = Some (Inr data')
    \<and> shows_image b data' (overlay b d I)"
proof -
  define lo where "lo = unat (get (M0_FirstBeam b))"
  define hi where "hi = lo + unat (get (M0_Beams b))"
  define P where "P i data = shows_image b data
      (\<lambda>k' j'. if in_tile b k' j' \<and> j' < i then tile_value b d k' j' else I k' j')" for i data
  let ?f = "\<lambda>k. bin_loop buf (mk_section M0 p) b (word_of_nat k) (get (M0_FirstBin b))"
  have "\<exists>t. efold ?f [lo..<hi] data = Inr t \<and> P hi t"
  proof (rule efold_range_total)
    show "lo \<le> hi" by (simp add: hi_def)
    show "P lo data" unfolding P_def by (rule shows_image_cong [OF img]) (auto simp: lo_def in_tile_def)
    fix j dat assume j: "lo \<le> j" "j < hi" and P: "P j dat"
    obtain dat' where "?f j dat = Inr dat'" and "shows_image b dat' (\<lambda>k' j'.
        if in_tile b k' j' \<and> j' = j then tile_value b d k' j'
        else if in_tile b k' j' \<and> j' < j then tile_value b d k' j' else I k' j')"
      using bin_loop_overlay [OF ex d b fits P [unfolded P_def], of j] j by (auto simp: lo_def hi_def)
    then show "\<exists>dat'. ?f j dat = Inr dat' \<and> P (Suc j) dat'"
      by (auto simp: P_def less_Suc_eq elim: shows_image_cong)
  qed
  then obtain t where t: "efold ?f [lo..<hi] data = Inr t" "P hi t" by blast
  have "in_tile b k' j' \<and> j' < hi \<longleftrightarrow> in_tile b k' j'" for k' j'
    by (auto simp: in_tile_def lo_def hi_def)
  then have "shows_image b t (overlay b d I)"
    using t(2) by (auto simp: P_def overlay_def elim: shows_image_cong)
  moreover have "unat (get (M0_FirstBeam b)) + unat (get (M0_Beams b)) \<le> 65535"
    using fits unat_bound [of "get (M0_TotalBeams b)"] by (simp add: section_fits_def)
  ultimately show ?thesis
    using t(1) by (simp add: beam_loop_fold hi_def lo_def)
qed

end
