(* ===== verification/Assembly.thy ===== *)
theory Assembly
  imports ImageTiles
begin

text \<open>
  The properties of \<open>Aid02RawAiAssembler::addPacket\<close>: the header packet, the overlay of a section,
  the assembly of an image from its sections in any order, and the packets the code does not
  handle: a header without angles, a beam range past 65535, bins past 65535.
\<close>

section \<open>The two kinds of packet\<close>

abbreviation aid0_view :: "buffer \<Rightarrow> packet \<Rightarrow> section_data list \<Rightarrow> (section_type \<Rightarrow> ptr) \<Rightarrow> bool" where
  "aid0_view \<equiv> packet_view AID0_accessors"

lemma aid0_view_accessors:
  assumes "aid0_view buf pkt secs pos"
  shows "AID0_h0 buf pkt = Inr (mk_section H0 (pos H0))" "AID0_a1 buf pkt = Inr (mk_section A1 (pos A1))"
    "AID0_m0 buf pkt = Inr (mk_section M0 (pos M0))"
    "section_exists buf (mk_section H0 (pos H0)) = Inr (H0 \<in> fst ` set secs)"
    "section_exists buf (mk_section A1 (pos A1)) = Inr (A1 \<in> fst ` set secs)"
    "section_exists buf (mk_section M0 (pos M0)) = Inr (M0 \<in> fst ` set secs)"
  using assms by (simp_all add: packet_view_def AID0_accessors_def)

lemma addPacket_header_eq:
  assumes V: "aid0_view buf pkt secs pos" and "H0 \<in> fst ` set secs"
  shows "addPacket buf pkt a = Some (add_header buf pkt a)"
  using assms(2) by (simp add: addPacket_def isFirstInSeries_def aid0_view_accessors [OF V])

lemma addPacket_section_eq:
  assumes V: "aid0_view buf pkt secs pos" and "H0 \<notin> fst ` set secs" "M0 \<in> fst ` set secs"
  shows "addPacket buf pkt a = add_section buf (mk_section M0 (pos M0)) a"
  using assms(2,3) by (simp add: addPacket_def isFirstInSeries_def aid0_view_accessors [OF V])

lemma section_body:
  assumes V: "aid0_view buf pkt secs pos" and d: "(M0, d) \<in> set secs" and "32 \<le> length d"
  shows "ebind (M0_body buf (mk_section M0 (pos M0))) (load_M0_Body buf) = Inr (M0_Body_of (take 32 d))"
proof -
  have "section_exists buf (mk_section M0 (pos M0)) = Inr True"
    using aid0_view_accessors(6) [OF V] d by force
  then have "existanceErrorCheck buf (mk_section M0 (pos M0)) = Inr ()"
    by (simp add: existanceErrorCheck_iff)
  then show ?thesis
    using view_block [OF V d, of 32] assms(3) by (simp add: M0_body_def load_M0_Body_def sizeof_M0_Body_def)
qed

section \<open>A section is laid over the image\<close>

text \<open>The image a section is laid over: the present one, or black when it has another size.\<close>

definition prior_image :: "M0_Body \<Rightarrow> assembler \<Rightarrow> nat \<Rightarrow> nat \<Rightarrow> u8" where
  "prior_image b a k j =
     (if length (image_data (sonar_image a)) = unat (get (M0_TotalBins b)) * unat (get (M0_TotalBeams b))
      then pixel (unat (get (M0_TotalBeams b))) (image_data (sonar_image a)) k j else 0)"

lemma size_image_shows:
  assumes "section_fits b d"
  shows "shows_image b (image_data (size_image b (sonar_image a))) (prior_image b a)"
proof -
  let ?n = "unat (get (M0_TotalBins b)) * unat (get (M0_TotalBeams b))"
  have "?n < 2 ^ 32" using assms by (simp add: section_fits_def)
  then have "unat (get (M0_TotalBins b) * ucast (get (M0_TotalBeams b))) = ?n"
    by (simp add: unat_word_ariths)
  moreover have "pixel w (map (\<lambda>_. 0) (vec_resize (n * w) 0 xs)) k j = 0" if "k < n" "j < w" for n w k j and xs :: "u8 list"
    using pixel_bound [OF that] by (simp add: pixel_def)
  ultimately show ?thesis
    by (auto simp: size_image_def Let_def shows_image_def prior_image_def)
qed

lemma section_added:
  assumes V: "aid0_view buf pkt secs pos" and no_h: "H0 \<notin> fst ` set secs" and d: "(M0, d) \<in> set secs"
    and b: "b = M0_Body_of (take 32 d)" and fits: "section_fits b d"
    and ping: "get (H0_PingNumber (h0_data a)) = get (M0_PingNumber b)"
  shows "\<exists>a'. addPacket buf pkt a
        = Some (Inr (get (M0_TotalBins b) \<le> get (M0_FirstBin b) + ucast (get (M0_Bins b)), a'))
    \<and> h0_data a' = h0_data a
    \<and> shows_image b (image_data (sonar_image a')) (overlay b d (prior_image b a))"
proof -
  have m0: "M0 \<in> fst ` set secs" using d by force
  have "32 \<le> length d" using fits by (simp add: section_fits_def)
  note body = section_body [OF V d this, folded b]
  have "section_exists buf (mk_section M0 (pos M0)) = Inr True"
    using aid0_view_accessors(6) [OF V] m0 by simp
  moreover have "rd buf (pos M0 + 4) (length d) = Inr d"
    using view_contents [OF V d] by (simp add: sizeof_SectionInfo_def)
  ultimately obtain data where
    data: "beam_loop buf (mk_section M0 (pos M0)) b (get (M0_FirstBeam b))
        (image_data (size_image b (sonar_image a))) = Some (Inr data)"
      "shows_image b data (overlay b d (prior_image b a))"
    using beam_loop_overlay [OF _ _ b fits size_image_shows [OF fits]] by blast
  then show ?thesis
    using ping by (auto simp: addPacket_section_eq [OF V no_h m0] add_section_def body Let_def finish_section_def)
qed


text \<open>A section of one sample, the only one of its image.\<close>

definition sample_section :: "u8 list" where
  "sample_section = [0, 0, 0, 0, 0, 0, 0, 0, 0, 0, 0, 1, 0, 0, 0, 1, 0, 0, 0, 0,
     0, 1, 0, 1, 0, 0, 0, 1, 0, 0, 0, 0, 7]"

definition sample_assembler :: assembler where
  "sample_assembler = new_assembler False (H0_Body_of (replicate 112 0))"

lemma sample_section_ok:
  "section_list_ok aid0_layout [(M0, sample_section)]" "tail_ok aid0_layout [(M0, sample_section)] [0, 0]"
  "section_fits (M0_Body_of (take 32 sample_section)) sample_section"
  "get (H0_PingNumber (h0_data sample_assembler)) = get (M0_PingNumber (M0_Body_of (take 32 sample_section)))"
  by (simp_all add: section_list_ok_def tail_ok_def aid0_layout_def sample_section_def section_fits_def
      M0_Body_of_def field_be_def mem_eval sample_assembler_def new_assembler_def H0_Body_of_def
      replicate_4)


section \<open>An image from its sections\<close>

text \<open>The packets of a ping in the order they arrive, with what each call returns.\<close>

fun addPackets :: "(buffer \<times> packet) list \<Rightarrow> assembler \<Rightarrow> (bool list \<times> assembler) res option" where
  "addPackets [] a = Some (Inr ([], a))"
| "addPackets ((buf, pkt) # ps) a =
     (case addPacket buf pkt a of
        None \<Rightarrow> None
      | Some (Inl e) \<Rightarrow> Some (Inl e)
      | Some (Inr (f, a')) \<Rightarrow>
          map_option (\<lambda>r. ebind r (\<lambda>(fs, a''). Inr (f # fs, a''))) (addPackets ps a'))"

text \<open>A packet with a rectangle of the image \<open>I\<close> of \<open>nb\<close> bins and \<open>nc\<close> beams.\<close>

definition carries ::
  "(nat \<Rightarrow> nat \<Rightarrow> u8) \<Rightarrow> u32 \<Rightarrow> u32 \<Rightarrow> u16 \<Rightarrow> buffer \<times> packet \<Rightarrow> M0_Body \<Rightarrow> bool" where
  "carries I ping nb nc p b \<longleftrightarrow> (\<exists>secs pos d. aid0_view (fst p) (snd p) secs pos
     \<and> H0 \<notin> fst ` set secs \<and> (M0, d) \<in> set secs \<and> b = M0_Body_of (take 32 d) \<and> section_fits b d
     \<and> get (M0_PingNumber b) = ping \<and> get (M0_TotalBins b) = nb \<and> get (M0_TotalBeams b) = nc
     \<and> (\<forall>k j. in_tile b k j \<longrightarrow> tile_value b d k j = I k j))"

definition sample_is :: "(nat \<Rightarrow> nat \<Rightarrow> u8) \<Rightarrow> u32 \<Rightarrow> u16 \<Rightarrow> assembler \<Rightarrow> nat \<Rightarrow> nat \<Rightarrow> bool" where
  "sample_is I nb nc a k j \<longleftrightarrow> length (image_data (sonar_image a)) = unat nb * unat nc
     \<and> pixel (unat nc) (image_data (sonar_image a)) k j = I k j"

lemma carried_added:
  assumes "carries I ping nb nc (buf, pkt) b" and "get (H0_PingNumber (h0_data a)) = ping"
  shows "\<exists>f a'. addPacket buf pkt a = Some (Inr (f, a')) \<and> h0_data a' = h0_data a
    \<and> (\<forall>k < unat nb. \<forall>j < unat nc. sample_is I nb nc a k j \<or> in_tile b k j \<longrightarrow> sample_is I nb nc a' k j)"
proof -
  obtain secs pos d where V: "aid0_view buf pkt secs pos" and h: "H0 \<notin> fst ` set secs"
    and d: "(M0, d) \<in> set secs" and b: "b = M0_Body_of (take 32 d)" and fits: "section_fits b d"
    and geo: "get (M0_PingNumber b) = ping" "get (M0_TotalBins b) = nb" "get (M0_TotalBeams b) = nc"
    and I: "\<forall>k j. in_tile b k j \<longrightarrow> tile_value b d k j = I k j"
    using assms(1) by (auto simp: carries_def)
  from section_added [OF V h d b fits, of a] assms(2) geo(1) obtain f a' where
    a': "addPacket buf pkt a = Some (Inr (f, a'))" "h0_data a' = h0_data a"
      "shows_image b (image_data (sonar_image a')) (overlay b d (prior_image b a))"
    by auto
  then have "sample_is I nb nc a' k j" if "k < unat nb" "j < unat nc" "sample_is I nb nc a k j \<or> in_tile b k j" for k j
    using that I by (auto simp: shows_image_def sample_is_def overlay_def prior_image_def geo)
  with a' show ?thesis by blast
qed

lemma carried_list_added:
  "list_all2 (carries I ping nb nc) ps bs \<Longrightarrow> get (H0_PingNumber (h0_data a)) = ping \<Longrightarrow>
   \<exists>fs a'. addPackets ps a = Some (Inr (fs, a'))
    \<and> (\<forall>k < unat nb. \<forall>j < unat nc. sample_is I nb nc a k j \<or> (\<exists>b \<in> set bs. in_tile b k j)
         \<longrightarrow> sample_is I nb nc a' k j)"
proof (induction arbitrary: a rule: list_all2_induct)
  case Nil
  then show ?case by simp
next
  case (Cons p ps b bs)
  obtain buf pkt where p: "p = (buf, pkt)" by (cases p)
  obtain f a1 where a1: "addPacket buf pkt a = Some (Inr (f, a1))" "h0_data a1 = h0_data a"
      "\<forall>k < unat nb. \<forall>j < unat nc. sample_is I nb nc a k j \<or> in_tile b k j \<longrightarrow> sample_is I nb nc a1 k j"
    using carried_added [of I ping nb nc buf pkt b a] Cons.hyps(1) Cons.prems p by blast
  obtain fs a' where a': "addPackets ps a1 = Some (Inr (fs, a'))"
      "\<forall>k < unat nb. \<forall>j < unat nc. sample_is I nb nc a1 k j \<or> (\<exists>b \<in> set bs. in_tile b k j)
         \<longrightarrow> sample_is I nb nc a' k j"
    using Cons.IH [of a1] Cons.prems a1(2) by auto
  have "addPackets (p # ps) a = Some (Inr (f # fs, a'))"
    using a1(1) a'(1) by (simp add: p)
  with a1(3) a'(2) show ?case by fastforce
qed

text \<open>
  C6: an image is assembled from its sections: whatever way the image is cut into rectangles, in
  whatever order they arrive and however often, once they cover it the assembled image is the image
  that was sent.
\<close>

theorem image_any_order:
  assumes parts: "list_all2 (carries I ping nb nc) ps bs"
    and ping: "get (H0_PingNumber (h0_data a)) = ping"
    and cover: "\<And>k j. k < unat nb \<Longrightarrow> j < unat nc \<Longrightarrow> \<exists>b \<in> set bs. in_tile b k j"
  shows "\<exists>fs a'. addPackets ps a = Some (Inr (fs, a'))
    \<and> (\<forall>k < unat nb. \<forall>j < unat nc.
        pixel (unat nc) (image_data (sonar_image a')) k j = I k j)"
  using carried_list_added [OF parts ping] cover by (force simp: sample_is_def)

definition sample_arrival :: "buffer \<times> packet" where
  "sample_arrival = (packet_bytes AID0 0 [(M0, sample_section)] @ [0, 0], mk_packet AID0 0)"

lemma sample_body:
  defines "b \<equiv> M0_Body_of (take 32 sample_section)"
  shows "get (M0_PingNumber b) = 0" "get (M0_TotalBins b) = 1" "get (M0_TotalBeams b) = 1"
    "in_tile b k j \<longleftrightarrow> k = 0 \<and> j = 0" "tile_value b sample_section 0 0 = 7"
  by (auto simp: b_def sample_section_def M0_Body_of_def field_be_def mem_eval in_tile_def tile_value_def)

lemma sample_carries:
  "carries (\<lambda>_ _. 7) 0 1 1 sample_arrival (M0_Body_of (take 32 sample_section))"
proof -
  have "aid0_view (fst sample_arrival) (snd sample_arrival) [(M0, sample_section)]
      (\<lambda>t. section_pos 0 t [(M0, sample_section)])"
    using aid0_packet_view [OF sample_section_ok(1,2), of "[]" 0] by (simp add: sample_arrival_def)
  then show ?thesis
    unfolding carries_def
    by (intro exI [of _ "[(M0, sample_section)]"] exI [of _ sample_section]
        exI [of _ "\<lambda>t. section_pos 0 t [(M0, sample_section)]"])
      (simp add: sample_section_ok(3) sample_body)
qed

theorem image_any_order_witness:
  "\<exists>fs a'. addPackets [sample_arrival, sample_arrival] sample_assembler = Some (Inr (fs, a'))
    \<and> (\<forall>k < unat (1 :: u32). \<forall>j < unat (1 :: u16).
        pixel (unat (1 :: u16)) (image_data (sonar_image a')) k j = (\<lambda>_ _. 7) k j)"
proof (rule image_any_order)
  let ?b = "M0_Body_of (take 32 sample_section)"
  show "list_all2 (carries (\<lambda>_ _. 7) 0 1 1) [sample_arrival, sample_arrival] [?b, ?b]"
    by (simp add: sample_carries)
  show "get (H0_PingNumber (h0_data sample_assembler)) = 0"
    using sample_section_ok(4) sample_body(1) by simp
  show "\<exists>b \<in> set [?b, ?b]. in_tile b k j" if "k < unat (1 :: u32)" "j < unat (1 :: u16)" for k j
    using that by (simp add: sample_body)
qed

section \<open>Sections of another ping, and the header\<close>

text \<open>
  A section of a ping other than that of the last header is ignored, whatever it contains.
\<close>

lemma other_ping_ignored:
  assumes V: "aid0_view buf pkt secs pos" and h: "H0 \<notin> fst ` set secs" and d: "(M0, d) \<in> set secs"
    and len: "32 \<le> length d"
    and other: "get (H0_PingNumber (h0_data a)) \<noteq> get (M0_PingNumber (M0_Body_of (take 32 d)))"
  shows "addPacket buf pkt a = Some (Inr (False, a))"
proof -
  have "M0 \<in> fst ` set secs" using d by force
  then show ?thesis
    using other by (simp add: addPacket_section_eq [OF V h] add_section_def section_body [OF V d len])
qed

lemma other_ping_example:
  "addPacket (packet_bytes AID0 0 [(M0, replicate 40 1)] @ [0, 0]) (mk_packet AID0 0) sample_assembler
   = Some (Inr (False, sample_assembler))"
proof -
  have V: "aid0_view (packet_bytes AID0 0 [(M0, replicate 40 1)] @ [0, 0]) (mk_packet AID0 0)
      [(M0, replicate 40 1)] (\<lambda>t. section_pos 0 t [(M0, replicate 40 1)])"
    using aid0_packet_view [of "[(M0, replicate 40 1)]" "[0, 0]" "[]" 0]
    by (simp add: section_list_ok_def tail_ok_def aid0_layout_def)
  show ?thesis
    by (rule other_ping_ignored [OF V, of "replicate 40 1"])
      (simp_all add: sample_assembler_def new_assembler_def H0_Body_of_def M0_Body_of_def field_be_def
        replicate_4 mem_eval)
qed

lemma header_body_loaded:
  assumes V: "aid0_view buf pkt secs pos" and h: "(H0, h) \<in> set secs" "sizeof_H0_Body \<le> length h"
  shows "load_H0_Body buf (H0_body (mk_section H0 (pos H0))) = Inr (H0_Body_of (take sizeof_H0_Body h))"
  using view_block [OF V h] by (simp add: load_H0_Body_def H0_body_def)

lemma header_beam_at:
  assumes V: "aid0_view buf pkt secs pos" and h: "(H0, h) \<in> set secs" "sizeof_H0_Body \<le> length h"
    and d: "(A1, d) \<in> set secs" "24 + 4 * announced_beams h \<le> length d" and i: "i < announced_beams h"
  shows "header_beam buf pkt i img = Inr (img\<lparr>img_tx_delays := (img_tx_delays img)[i := 0],
      img_tx_angles := (img_tx_angles img)[i := get (TxSteeringVert (H0_Body_of (take sizeof_H0_Body h)))],
      img_rx_angles := (img_rx_angles img)[i := get (field_be d (24 + 4 * i) :: BE_f32)]\<rparr>)"
proof -
  have "A1 \<in> fst ` set secs" using d(1) by force
  then have "existanceErrorCheck buf (mk_section A1 (pos A1)) = Inr ()"
    using aid0_view_accessors(5) [OF V] by (simp add: existanceErrorCheck_iff)
  moreover have "unat (word_of_nat i :: u16) = i" by (rule unat_index [OF i announced_beams_le])
  moreover have "load_be buf (pos A1 + sizeof_SectionInfo + (24 + 4 * i)) = Inr (field_be d (24 + 4 * i) :: BE_f32)"
    using d(2) i by (intro load_be_within [OF view_contents [OF V d(1)]]) simp
  ultimately show ?thesis
    by (simp add: header_beam_def Let_def aid0_view_accessors [OF V] header_body_loaded [OF V h]
        A1_BeamAngle_def sizeof_A1_Body_def add.assoc)
qed

lemma header_beams:
  assumes V: "aid0_view buf pkt secs pos" and h: "(H0, h) \<in> set secs" "sizeof_H0_Body \<le> length h"
    and d: "(A1, d) \<in> set secs" "24 + 4 * announced_beams h \<le> length d"
    and len: "length (img_tx_delays img) = announced_beams h" "length (img_tx_angles img) = announced_beams h"
      "length (img_rx_angles img) = announced_beams h"
    and n: "n \<le> announced_beams h"
  shows "efold (header_beam buf pkt) [0..<n] img = Inr (img\<lparr>
      img_tx_delays := map (\<lambda>_. 0) [0..<n] @ drop n (img_tx_delays img),
      img_tx_angles := map (\<lambda>_. get (TxSteeringVert (H0_Body_of (take sizeof_H0_Body h)))) [0..<n]
        @ drop n (img_tx_angles img),
      img_rx_angles := map (\<lambda>i. get (field_be d (24 + 4 * i) :: BE_f32)) [0..<n]
        @ drop n (img_rx_angles img)\<rparr>)"
  using n
proof (induction n)
  case 0
  then show ?case by simp
next
  case (Suc n)
  then have n: "n < announced_beams h" by simp
  with Suc have IH: "efold (header_beam buf pkt) [0..<n] img = Inr (img\<lparr>
      img_tx_delays := map (\<lambda>_. 0) [0..<n] @ drop n (img_tx_delays img),
      img_tx_angles := map (\<lambda>_. get (TxSteeringVert (H0_Body_of (take sizeof_H0_Body h)))) [0..<n]
        @ drop n (img_tx_angles img),
      img_rx_angles := map (\<lambda>i. get (field_be d (24 + 4 * i) :: BE_f32)) [0..<n]
        @ drop n (img_rx_angles img)\<rparr>)"
    by simp
  note upd = update_prefix [of n "img_tx_delays img" "\<lambda>_. 0"]
    update_prefix [of n "img_tx_angles img" "\<lambda>_. get (TxSteeringVert (H0_Body_of (take sizeof_H0_Body h)))"]
    update_prefix [of n "img_rx_angles img" "\<lambda>i. get (field_be d (24 + 4 * i) :: BE_f32)"]
  show ?case
    using n len by (simp add: efold_append IH header_beam_at [OF V h d n] upd)
qed

text \<open>
  A header packet with its angles starts an image: the call returns false and the image holds the
  packet's receive angles, its steering angle and a zero delay for every beam; the header is kept
  for the sections that follow, and the samples are untouched.
\<close>

lemma header_packet_accepted:
  assumes V: "aid0_view buf pkt secs pos" and h: "(H0, h) \<in> set secs" "sizeof_H0_Body \<le> length h"
    and d: "(A1, d) \<in> set secs" "24 + 4 * announced_beams h \<le> length d"
  shows "\<exists>a'. addPacket buf pkt a = Some (Inr (False, a'))
    \<and> h0_data a' = H0_Body_of (take sizeof_H0_Body h)
    \<and> img_rx_angles (sonar_image a') = map (\<lambda>i. get (field_be d (24 + 4 * i) :: BE_f32)) [0..<announced_beams h]
    \<and> img_tx_angles (sonar_image a') = replicate (announced_beams h) (get (TxSteeringVert (h0_data a')))
    \<and> img_tx_delays (sonar_image a') = replicate (announced_beams h) 0
    \<and> beam_count (sonar_image a') = word_of_nat (announced_beams h)
    \<and> image_data (sonar_image a') = image_data (sonar_image a)
    \<and> image_dtype (sonar_image a') = DTYPE_UINT8
    \<and> stamp_sec (img_header (sonar_image a')) = get (TimeSeconds (h0_data a'))
    \<and> stamp_nanosec (img_header (sonar_image a')) = get (TimeNanoseconds (h0_data a'))
    \<and> img_ping_info (sonar_image a') = \<lparr>frequency = get (Frequency (h0_data a')), sound_speed = get (SoundSpeed (h0_data a')),
         tx_beamwidths = replicate (announced_beams h) (get (TxBeamwidthVert (h0_data a'))),
         rx_beamwidths = replicate (announced_beams h) (get (TxBeamwidthHoriz (h0_data a')))\<rparr>"
proof -
  have H: "H0 \<in> fst ` set secs" using h(1) by force
  note hb = header_body_loaded [OF V h]
  have bc: "ucast (get (H0_Beams (H0_Body_of (take sizeof_H0_Body h)))) = (word_of_nat (announced_beams h) :: u32)"
    by (simp add: announced_beams_def)
  show ?thesis
    unfolding addPacket_header_eq [OF V H] add_header_def
    by (simp add: aid0_view_accessors [OF V] h02Header_def h02PingInfo_eq hb Let_def
        header_beams [OF V h d] bc map_replicate_const flip: announced_beams_def)
qed

text \<open>
  A header packet without its A1 section is not handled: the guard that every other optional
  section has is missing, so the first beam throws \<open>out_of_range\<close> out of \<open>addPacket\<close>.
\<close>

lemma header_without_angles_throws:
  assumes V: "aid0_view buf pkt secs pos" and h: "(H0, h) \<in> set secs" "sizeof_H0_Body \<le> length h"
    and no_a1: "A1 \<notin> fst ` set secs" and beams: "0 < announced_beams h"
  shows "addPacket buf pkt a
    = Some (Inl (OutOfRange ''requested optional section was not in this packet''))"
proof -
  have H: "H0 \<in> fst ` set secs" using h(1) by force
  note hb = header_body_loaded [OF V h]
  have "existanceErrorCheck buf (mk_section A1 (pos A1))
      = Inl (OutOfRange ''requested optional section was not in this packet'')"
    using aid0_view_accessors(5) [OF V] no_a1 by (intro existanceErrorCheck_throws) simp
  then have "header_beam buf pkt 0 img = Inl (OutOfRange ''requested optional section was not in this packet'')" for img
    by (simp add: header_beam_def Let_def aid0_view_accessors [OF V] hb A1_BeamAngle_def)
  moreover have "[0..<announced_beams h] = 0 # [1..<announced_beams h]"
    using beams by (simp add: upt_conv_Cons)
  ultimately show ?thesis
    unfolding addPacket_header_eq [OF V H] add_header_def
    by (simp add: aid0_view_accessors [OF V] h02Header_def h02PingInfo_def hb Let_def
        flip: announced_beams_def)
qed

text \<open>A header of one beam, with and without its angles.\<close>

definition sample_header :: "u8 list" where
  "sample_header = replicate 110 0 @ [0, 1]"

lemma sample_header_facts:
  "announced_beams sample_header = 1" "sizeof_H0_Body \<le> length sample_header"
  by (simp_all add: sample_header_def announced_beams_def sizeof_H0_Body_def H0_Body_of_def field_be_def mem_eval)

lemma sample_header_views:
  "aid0_view (packet_bytes AID0 0 [(H0, sample_header), (A1, replicate 28 0)] @ [0, 0]) (mk_packet AID0 0)
     [(H0, sample_header), (A1, replicate 28 0)]
     (\<lambda>t. section_pos 0 t [(H0, sample_header), (A1, replicate 28 0)])"
  "aid0_view (packet_bytes AID0 0 [(H0, sample_header)] @ [0, 0]) (mk_packet AID0 0)
     [(H0, sample_header)] (\<lambda>t. section_pos 0 t [(H0, sample_header)])"
  using aid0_packet_view [of "[(H0, sample_header), (A1, replicate 28 0)]" "[0, 0]" "[]" 0]
    aid0_packet_view [of "[(H0, sample_header)]" "[0, 0]" "[]" 0]
  by (simp_all add: section_list_ok_def tail_ok_def aid0_layout_def section_order sample_header_def)

lemma header_packet_example:
  "\<exists>a'. addPacket (packet_bytes AID0 0 [(H0, sample_header), (A1, replicate 28 0)] @ [0, 0])
      (mk_packet AID0 0) sample_assembler = Some (Inr (False, a'))
    \<and> img_tx_delays (sonar_image a') = [0]"
  using header_packet_accepted [OF sample_header_views(1), of sample_header "replicate 28 0" sample_assembler]
  by (auto simp: sample_header_facts)

section \<open>Sections the loops do not handle\<close>

definition never_leaves :: "M0_Body \<Rightarrow> bool" where
  "never_leaves b \<longleftrightarrow> 65535 < unat (get (M0_FirstBeam b)) + unat (get (M0_Beams b))
     \<and> get (M0_Bins b) = 0"

lemma beam_loop_diverges:
  assumes run: "beam_loop buf m0 b j data = Some r"
  shows "\<not> never_leaves b"
proof (induction rule: beam_loop.raw_induct)
  case (1 f buf m0 b j data r)
  show ?case
  proof
    assume never: "never_leaves b"
    then have "bin_loop buf m0 b j (get (M0_FirstBin b)) data = Inr data"
      by (simp add: bin_loop.simps [of buf m0 b j] never_leaves_def)
    moreover have "uint j < uint (get (M0_FirstBeam b)) + uint (get (M0_Beams b))"
      using never unat_bound [of j] by (simp add: uint_bound_iff never_leaves_def)
    ultimately have "f buf m0 b (j + 1) data = Some r"
      using "1.hyps" by simp
    with "1.IH" [of buf m0 b "j + 1" data r] never show False by simp
  qed
qed (rule run)

text \<open>
  C33: the beam counter has 16 bits and its bound does not: for a section without bins whose beams
  end past 65535 the loop never ends, and \<open>addPacket\<close> does not return.
\<close>

theorem wide_section_never_returns:
  assumes V: "aid0_view buf pkt secs pos" and h: "H0 \<notin> fst ` set secs" and d: "(M0, d) \<in> set secs"
    and len: "32 \<le> length d" and b: "b = M0_Body_of (take 32 d)"
    and ping: "get (H0_PingNumber (h0_data a)) = get (M0_PingNumber b)"
    and beams: "65535 < unat (get (M0_FirstBeam b)) + unat (get (M0_Beams b))"
    and bins: "get (M0_Bins b) = 0"
  shows "addPacket buf pkt a = None"
proof -
  have "never_leaves b" using beams bins by (simp add: never_leaves_def)
  then have "beam_loop buf m0 b j data = None" for m0 j data
    using beam_loop_diverges by (cases "beam_loop buf m0 b j data") auto
  moreover have "M0 \<in> fst ` set secs" using d by force
  ultimately show ?thesis
    using ping by (simp add: addPacket_section_eq [OF V h] add_section_def section_body [OF V d len, folded b])
qed

lemma magnitude_past_16_bits:
  assumes ex: "section_exists buf (mk_section M0 p) = Inr True"
    and body: "load_M0_Body buf (p + 4) = Inr b"
    and bin: "65536 \<le> unat (get (M0_FirstBin b))" "unat (get (M0_FirstBin b)) < 2 ^ 31"
    and buf: "length buf \<le> 262144"
  shows "\<exists>q. M0_magnitude buf (mk_section M0 p) (get (M0_FirstBeam b)) (ucast (get (M0_FirstBin b))) = Inr q
    \<and> load_be buf q = (Inl (Undefined ReadOutOfBounds) :: BE_u8 res)"
proof -
  define F where "F = get (M0_FirstBin b)"
  define r where "r = (ucast (ucast F :: u16) :: u32)"
  have r: "unat r < 65536"
    using unat_bound [of "ucast F :: u16"] by (simp add: r_def)
  have "unat (r - F) = 2 ^ 32 - (unat F - unat r)"
    using r bin by (simp add: F_def [symmetric] unat_sub_if')
  then have big: "2 ^ 31 < unat (r - F)"
    using bin by (simp add: F_def [symmetric])
  have "existanceErrorCheck buf (mk_section M0 p) = Inr ()"
    using ex by (simp add: existanceErrorCheck_iff)
  then have "M0_magnitude buf (mk_section M0 p) (get (M0_FirstBeam b)) (ucast F) = Inr (p + 36 + unat (r - F))"
    using body by (simp add: M0_magnitude_def M0_body_def Let_def int_result_def fits_int_def F_def
        sizeof_M0_Body_def sizeof_SectionInfo_def r_def)
  moreover have "load_be buf (p + 36 + unat (r - F)) = (Inl (Undefined ReadOutOfBounds) :: BE_u8 res)"
    using big buf by (simp add: load_be_def rd_def)
  ultimately show ?thesis by (simp add: F_def)
qed


text \<open>A section of one beam that ends past beam 65535, and one sample at bin 65536.\<close>

definition wide_section :: "u8 list" where
  "wide_section = [0, 0, 0, 0, 0, 0, 0, 0, 0, 0, 0, 1, 0, 0, 0, 1, 0, 0, 0, 0,
     0, 0, 0, 1, 255, 255, 0, 1, 0, 0, 0, 0]"

definition late_section :: "u8 list" where
  "late_section = [0, 0, 0, 0, 0, 0, 0, 0, 0, 0, 0, 1, 0, 2, 0, 0, 0, 1, 0, 0,
     0, 1, 0, 1, 0, 0, 0, 1, 0, 0, 0, 0, 7]"

lemma sample_section_views:
  "aid0_view (packet_bytes AID0 0 [(M0, wide_section)] @ [0, 0]) (mk_packet AID0 0)
     [(M0, wide_section)] (\<lambda>t. section_pos 0 t [(M0, wide_section)])"
  "aid0_view (packet_bytes AID0 0 [(M0, late_section)] @ [0, 0]) (mk_packet AID0 0)
     [(M0, late_section)] (\<lambda>t. section_pos 0 t [(M0, late_section)])"
  using aid0_packet_view [of "[(M0, wide_section)]" "[0, 0]" "[]" 0]
    aid0_packet_view [of "[(M0, late_section)]" "[0, 0]" "[]" 0]
  by (simp_all add: section_list_ok_def tail_ok_def aid0_layout_def wide_section_def late_section_def)

theorem wide_section_never_returns_witness:
  "addPacket (packet_bytes AID0 0 [(M0, wide_section)] @ [0, 0]) (mk_packet AID0 0) sample_assembler = None"
  by (rule wide_section_never_returns [OF sample_section_views(1) _ _ _ refl, of wide_section])
    (simp_all add: wide_section_def M0_Body_of_def field_be_def mem_eval sample_assembler_def
      new_assembler_def H0_Body_of_def replicate_4)


end
