(* ===== verification/StdMap.thy ===== *)
theory StdMap
  imports Prelude "HOL-Library.List_Lexorder" "HOL-Library.Char_ord"
begin

text \<open>
  \<open>std::map\<close> as the code uses it: entries in key order, \<open>find\<close>, \<open>operator[]\<close>, assignment through an
  iterator, \<open>erase\<close>, and loops over the entries. The locale \<open>ordered_map\<close> states what the node
  relies on, its laws are proved for the sorted association list, and the loops of the node are
  treated once against the interface. Strings are ordered as \<open>std::string\<close> orders them.
\<close>

section \<open>Sorted association lists\<close>

type_synonym ('k, 'v) std_map = "('k \<times> 'v) list"

definition map_sorted :: "('k :: linorder, 'v) std_map \<Rightarrow> bool" where
  "map_sorted m \<longleftrightarrow> sorted_wrt (<) (map fst m)"

text \<open>\<open>m[k] = v\<close>, or the assignment through an iterator to \<open>k\<close>.\<close>

fun map_put :: "'k :: linorder \<Rightarrow> 'v \<Rightarrow> ('k, 'v) std_map \<Rightarrow> ('k, 'v) std_map" where
  "map_put k v [] = [(k, v)]"
| "map_put k v ((k', v') # m) =
     (if k < k' then (k, v) # (k', v') # m
      else if k = k' then (k, v) # m
      else (k', v') # map_put k v m)"

definition map_find :: "'k \<Rightarrow> ('k :: linorder, 'v) std_map \<Rightarrow> 'v option" where
  "map_find k m = map_of m k"

definition map_erase :: "'k \<Rightarrow> ('k :: linorder, 'v) std_map \<Rightarrow> ('k, 'v) std_map" where
  "map_erase k m = filter (\<lambda>(k', _). k' \<noteq> k) m"

text \<open>An initializer list: an entry whose key is already there is not inserted.\<close>

definition map_insert :: "('k :: linorder \<times> 'v) \<Rightarrow> ('k, 'v) std_map \<Rightarrow> ('k, 'v) std_map" where
  "map_insert e m = (if map_find (fst e) m = None then map_put (fst e) (snd e) m else m)"

definition map_init :: "('k :: linorder \<times> 'v) list \<Rightarrow> ('k, 'v) std_map" where
  "map_init es = fold map_insert es []"

section \<open>The interface\<close>

locale ordered_map =
  fixes invar :: "'m \<Rightarrow> bool"
    and empty :: "'m"
    and find :: "'k :: linorder \<Rightarrow> 'm \<Rightarrow> 'v option"
    and put :: "'k \<Rightarrow> 'v \<Rightarrow> 'm \<Rightarrow> 'm"
    and erase :: "'k \<Rightarrow> 'm \<Rightarrow> 'm"
    and entries :: "'m \<Rightarrow> ('k \<times> 'v) list"
  assumes invar_empty: "invar empty"
    and invar_put: "invar m \<Longrightarrow> invar (put k v m)"
    and invar_erase: "invar m \<Longrightarrow> invar (erase k m)"
    and find_empty: "find k empty = None"
    and find_put: "invar m \<Longrightarrow> find k' (put k v m) = (if k' = k then Some v else find k' m)"
    and find_erase: "invar m \<Longrightarrow> find k' (erase k m) = (if k' = k then None else find k' m)"
    and entries_sorted: "invar m \<Longrightarrow> sorted_wrt (<) (map fst (entries m))"
    and entries_find: "invar m \<Longrightarrow> (k, v) \<in> set (entries m) \<longleftrightarrow> find k m = Some v"
begin

lemma keys_find: "invar m \<Longrightarrow> k \<in> fst ` set (entries m) \<longleftrightarrow> find k m \<noteq> None"
proof -
  assume m: "invar m"
  have "k \<in> fst ` set (entries m) \<longleftrightarrow> (\<exists>v. (k, v) \<in> set (entries m))" by force
  then show "k \<in> fst ` set (entries m) \<longleftrightarrow> find k m \<noteq> None" by (simp add: entries_find [OF m])
qed

text \<open>Two maps with the same bindings are traversed alike.\<close>

lemma entries_determined:
  assumes "invar m" and "invar m'" and "\<And>k. find k m = find k m'"
  shows "entries m = entries m'"
proof -
  have keys: "map fst (entries m) = map fst (entries m')"
  proof (rule sorted_distinct_set_unique)
    have "k \<in> fst ` set (entries m) \<longleftrightarrow> k \<in> fst ` set (entries m')" for k
      using assms by (simp add: keys_find)
    then show "set (map fst (entries m)) = set (map fst (entries m'))"
      by (simp add: set_eq_iff)
  qed (use assms entries_sorted in \<open>auto simp: strict_sorted_iff\<close>)
  have "inj_on fst (set (entries m))"
    using entries_sorted [OF assms(1)] by (auto simp: strict_sorted_iff distinct_map)
  moreover have "set (entries m') = set (entries m)"
    using assms entries_find by (auto simp: set_eq_iff)
  ultimately show ?thesis
    using keys by (intro map_inj_on [of fst]) (auto simp: keys)
qed

text \<open>The loop \<open>for (it = begin; it != end;) if (old it->first) it = erase(it) else ++it\<close>.\<close>

definition erase_if :: "('k \<Rightarrow> bool) \<Rightarrow> 'm \<Rightarrow> 'm" where
  "erase_if old m = fold (\<lambda>k m. if old k then erase k m else m) (map fst (entries m)) m"

lemma erase_steps:
  "invar m \<Longrightarrow> invar (fold (\<lambda>k m. if old k then erase k m else m) ks m)
   \<and> find k (fold (\<lambda>k m. if old k then erase k m else m) ks m)
      = (if k \<in> set ks \<and> old k then None else find k m)"
  by (induction ks arbitrary: m) (auto simp: invar_erase find_erase)

lemma erase_if_invar: "invar m \<Longrightarrow> invar (erase_if old m)"
  using erase_steps by (simp add: erase_if_def)

lemma erase_if_find: "invar m \<Longrightarrow> find k (erase_if old m) = (if old k then None else find k m)"
  using erase_steps [of m old "map fst (entries m)" k] keys_find [of m k]
  by (auto simp: erase_if_def)

text \<open>Assigning to a key that is there keeps the keys, and with them the order of the loops.\<close>

lemma put_keys:
  assumes m: "invar m" and "find k m \<noteq> None"
  shows "map fst (entries (put k v m)) = map fst (entries m)"
proof (rule sorted_distinct_set_unique)
  have "k' \<in> fst ` set (entries (put k v m)) \<longleftrightarrow> k' \<in> fst ` set (entries m)" for k'
    using assms by (simp add: keys_find invar_put find_put)
  then show "set (map fst (entries (put k v m))) = set (map fst (entries m))"
    by auto
qed (use entries_sorted [OF m] entries_sorted [OF invar_put [OF m]] in \<open>auto simp: strict_sorted_iff\<close>)

end

section \<open>The association list provides it\<close>

lemma map_sorted_Nil [simp]: "map_sorted []"
  by (simp add: map_sorted_def)

lemma keys_map_put: "fst ` set (map_put k v m) = insert k (fst ` set m)"
proof (induction m)
  case Nil
  then show ?case by simp
next
  case (Cons e m)
  then show ?case
    by (cases e; cases "k < fst e"; cases "k = fst e") (simp_all add: insert_commute)
qed

lemma map_sorted_put: "map_sorted m \<Longrightarrow> map_sorted (map_put k v m)"
proof (induction m)
  case Nil
  then show ?case by (simp add: map_sorted_def)
next
  case (Cons e m)
  obtain k' v' where e: "e = (k', v')" by (cases e)
  from Cons.prems have up: "x \<in> fst ` set m \<Longrightarrow> k' < x" for x
    by (auto simp: map_sorted_def e)
  have rest: "map_sorted m"
    using Cons.prems by (simp add: map_sorted_def e)
  show ?case
  proof (cases "k' < k")
    case True
    have "\<forall>x \<in> fst ` set (map_put k v m). k' < x"
      unfolding keys_map_put using True up by auto
    with True Cons.IH [OF rest] show ?thesis
      by (auto simp: map_sorted_def e)
  next
    case False
    then show ?thesis
      using Cons.prems up by (fastforce simp: map_sorted_def e)
  qed
qed

lemma map_find_put: "map_find k' (map_put k v m) = (if k' = k then Some v else map_find k' m)"
  by (induction m) (auto simp: map_find_def)

lemma map_find_erase: "map_find k' (map_erase k m) = (if k' = k then None else map_find k' m)"
  by (induction m) (auto simp: map_find_def map_erase_def)

lemma map_sorted_erase: "map_sorted m \<Longrightarrow> map_sorted (map_erase k m)"
  unfolding map_sorted_def map_erase_def
  by (induction m) (auto simp: sorted_wrt_append)

lemma map_find_entry: "map_sorted m \<Longrightarrow> (k, v) \<in> set m \<longleftrightarrow> map_find k m = Some v"
  by (simp add: map_find_def map_sorted_def strict_sorted_iff)

interpretation std: ordered_map map_sorted "[] :: ('k :: linorder, 'v) std_map" map_find map_put
  map_erase "\<lambda>m. m"
proof unfold_locales
  show "map_sorted m \<Longrightarrow> sorted_wrt (<) (map fst m)" for m :: "('k, 'v) std_map"
    by (simp add: map_sorted_def)
qed (simp_all add: map_sorted_put map_sorted_erase map_find_put map_find_erase map_find_entry,
    simp add: map_find_def)

lemma map_sorted_init: "map_sorted (map_init es)"
proof -
  have "map_sorted m \<Longrightarrow> map_sorted (fold map_insert es m)" for m
    by (induction es arbitrary: m) (auto simp: map_insert_def map_sorted_put)
  then show ?thesis by (simp add: map_init_def)
qed

text \<open>The first entry of a key in an initializer list is the one that stays.\<close>

lemma map_find_init: "map_find k (map_init es) = map_of es k"
proof -
  have "map_find k (fold map_insert es m) = (case map_find k m of None \<Rightarrow> map_of es k | Some v \<Rightarrow> Some v)" for m
  proof (induction es arbitrary: m)
    case Nil
    then show ?case by (simp split: option.split)
  next
    case (Cons e es)
    then show ?case
      by (cases e) (auto simp: map_insert_def map_find_put split: option.splits)
  qed
  then show ?thesis by (simp add: map_init_def map_find_def)
qed

lemma map_put_id: "map_sorted m \<Longrightarrow> map_find k m = Some v \<Longrightarrow> map_put k v m = m"
  by (rule std.entries_determined) (auto simp: map_sorted_put map_find_put)

lemma map_sorted_filter: "map_sorted m \<Longrightarrow> map_sorted (filter P m)"
  unfolding map_sorted_def by (induction m) auto

text \<open>The erasing loop leaves the entries that are not old.\<close>

lemma erase_if_filter: "map_sorted m \<Longrightarrow> std.erase_if old m = filter (\<lambda>(k, _). \<not> old k) m"
proof (rule std.entries_determined)
  assume m: "map_sorted m"
  show "map_find k (std.erase_if old m) = map_find k (filter (\<lambda>(k, _). \<not> old k) m)" for k
    unfolding std.erase_if_find [OF m] by (induction m) (auto simp: map_find_def)
qed (simp_all add: std.erase_if_invar map_sorted_filter)

end
