(* ===== verification/DeviceConfig.thy ===== *)
theory DeviceConfig
  imports Sections
begin

text \<open>
  \<open>packets/r2dc.hpp\<close>: the device configuration packet, its hash and its wire form. \<open>inet_pton\<close> is
  the system's: a parameter \<open>pton\<close> that gives the four address bytes in network order.
\<close>

unbundle bit_operations_syntax

type_synonym inet_pton = "string \<Rightarrow> u8 list option"

definition ip_str_to_u32 :: "inet_pton \<Rightarrow> string \<Rightarrow> u32 res" where
  "ip_str_to_u32 pton s =
     (case pton s of
        Some bs \<Rightarrow> Inr (revPrimitive (of_mem bs))
      | None \<Rightarrow> Inl (RuntimeError ''Invalid IP string''))"

lemma ip_eval: "pton s = Some [a, b, c, d] \<Longrightarrow> ip_str_to_u32 pton s = Inr (of_mem [d, c, b, a])"
  using get_mem_eval(3) [of a b c d] by (simp add: ip_str_to_u32_def get_def be_of_mem_def)

section \<open>The hash\<close>

definition FNV_OFFSET :: u32 where
  "FNV_OFFSET = 0x811C9DC5"

definition FNV_PRIME :: u32 where
  "FNV_PRIME = 0x01000193"

fun fnv1a_loop :: "u8 list \<Rightarrow> u32 \<Rightarrow> u32" where
  "fnv1a_loop [] hash = hash"
| "fnv1a_loop (b # bs) hash = fnv1a_loop bs ((hash XOR ucast b) * FNV_PRIME)"

definition fnv1a_hash :: "u8 list \<Rightarrow> u32" where
  "fnv1a_hash bs = fnv1a_loop bs FNV_OFFSET"

text \<open>The prime is odd, so a round can be undone: two inputs of a round never give one output.\<close>

lemma fnv_prime_inverse: "FNV_PRIME * 0x359C449B = 1"
  by (simp add: FNV_PRIME_def)

lemma fnv_mult_inject: "x * FNV_PRIME = y * FNV_PRIME \<longleftrightarrow> x = y"
proof
  assume "x * FNV_PRIME = y * FNV_PRIME"
  then have "x * (FNV_PRIME * 0x359C449B) = y * (FNV_PRIME * 0x359C449B)"
    by (simp only: mult.assoc [symmetric])
  then show "x = y" by (simp only: fnv_prime_inverse mult_1_right)
qed simp

lemma xor_inject: "(x :: 'a::len word) XOR z = y XOR z \<longleftrightarrow> x = y"
proof
  assume "x XOR z = y XOR z"
  then have "(x XOR z) XOR z = (y XOR z) XOR z" by simp
  then show "x = y" by (simp only: xor.assoc xor_self_eq xor.right_neutral)
qed simp

lemma fnv1a_loop_inject: "fnv1a_loop bs h = fnv1a_loop bs k \<longleftrightarrow> h = k"
  by (induction bs arbitrary: h k) (simp_all add: fnv_mult_inject xor_inject)

lemma fnv1a_loop_append: "fnv1a_loop (bs @ cs) h = fnv1a_loop cs (fnv1a_loop bs h)"
  by (induction bs arbitrary: h) simp_all

lemma ucast_inject_32: "(ucast (a :: u8) :: u32) = ucast b \<longleftrightarrow> a = b"
  by (simp add: word_unat_eq_iff unsigned_ucast_eq)

lemma fnv1a_one_byte:
  assumes "a \<noteq> b"
  shows "fnv1a_hash (xs @ a # ys) \<noteq> fnv1a_hash (xs @ b # ys)"
  using assms
  by (simp add: fnv1a_hash_def fnv1a_loop_append fnv1a_loop_inject fnv_mult_inject
      xor.commute [of "fnv1a_loop xs FNV_OFFSET"] xor_inject ucast_inject_32)

section \<open>The packet\<close>

record R2DC =
  r2dc_name :: "u8 list"
  serial_number :: "u8 list"
  config_id :: BE_u32
  subnet_mask :: BE_u32
  gateway_ip :: BE_u32
  gui_ip :: BE_u32
  gui_baseport :: BE_u16
  r2dc_system :: BE_u16
  head_ip :: "BE_u32 list"
  head_baseport :: "BE_u16 list"
  simbox_ip :: "BE_u32 list"
  simbox_baseport :: "BE_u16 list"
  daq_ip :: "BE_u32 list"
  daq_baseport :: "BE_u16 list"
  spare :: "BE_u32 list"

definition SYSTEMS :: nat where "SYSTEMS = 4"

definition DAQS :: nat where "DAQS = 8"

definition ip_be :: "inet_pton \<Rightarrow> string \<Rightarrow> BE_u32 res" where
  "ip_be pton s = ebind (ip_str_to_u32 pton s) (\<lambda>i. Inr (set_be i))"

text \<open>The constructor; the serial number keeps the bytes the memory held.\<close>

definition new_R2DC :: "inet_pton \<Rightarrow> u8 list \<Rightarrow> R2DC res" where
  "new_R2DC pton raw_serial =
     ebind (ip_be pton ''255.0.0.0'') (\<lambda>subnet.
     ebind (ip_be pton ''0.0.0.0'') (\<lambda>gateway.
     ebind (ip_be pton ''10.0.1.102'') (\<lambda>gui.
     ebind (emap (ip_be pton) [''10.0.0.86'', ''0.0.0.0'', ''0.0.0.0'', ''0.0.0.0'']) (\<lambda>heads.
     ebind (emap (ip_be pton) [''10.0.0.99'', ''0.0.0.0'', ''0.0.0.0'', ''0.0.0.0'']) (\<lambda>sims.
     ebind (emap (ip_be pton) ([''10.0.1.102'', ''10.0.1.102'', ''10.0.1.102'']
              @ map (\<lambda>_. ''0.0.0.0'') [3..<DAQS])) (\<lambda>daqs.
     Inr \<lparr>r2dc_name = str_bytes ''R2DC'', serial_number = raw_serial, config_id = assign_int 2549138156,
          subnet_mask = subnet, gateway_ip = gateway, gui_ip = gui, gui_baseport = assign_int 65400,
          r2dc_system = assign_int 0, head_ip = heads,
          head_baseport = map assign_int [65500, 0, 0, 0], simbox_ip = sims,
          simbox_baseport = map assign_int [65500, 0, 0, 0], daq_ip = daqs,
          daq_baseport = map assign_int ([4100, 4200, 4300] @ map (\<lambda>_. 0) [3..<DAQS]),
          spare = map (\<lambda>_. assign_int 0) [0..<8]\<rparr>))))))"

text \<open>The bytes of the packed structure.\<close>

definition config_bytes :: "R2DC \<Rightarrow> u8 list" where
  "config_bytes c = be_mem (subnet_mask c) @ be_mem (gateway_ip c) @ be_mem (gui_ip c)
     @ be_mem (gui_baseport c) @ be_mem (r2dc_system c)
     @ concat (map be_mem (head_ip c)) @ concat (map be_mem (head_baseport c))
     @ concat (map be_mem (simbox_ip c)) @ concat (map be_mem (simbox_baseport c))
     @ concat (map be_mem (daq_ip c)) @ concat (map be_mem (daq_baseport c))
     @ concat (map be_mem (spare c))"

definition R2DC_mem :: "R2DC \<Rightarrow> u8 list" where
  "R2DC_mem c = r2dc_name c @ serial_number c @ be_mem (config_id c) @ config_bytes c"

definition serialize_R2DC :: "R2DC \<Rightarrow> u8 list" where
  "serialize_R2DC c = R2DC_mem c"

definition offsetof_subnet_mask :: nat where
  "offsetof_subnet_mask = 20"

definition generateConfigID :: "string \<Rightarrow> R2DC \<Rightarrow> u32" where
  "generateConfigID node_name c =
     fnv1a_hash (str_bytes node_name) XOR fnv1a_hash (drop offsetof_subnet_mask (R2DC_mem c))"

definition setConfigId :: "R2DC \<Rightarrow> R2DC" where
  "setConfigId c = c\<lparr>config_id := set_be (generateConfigID ''ros2sonic'' c)\<rparr>"

definition configIDIsValid :: "string \<Rightarrow> R2DC \<Rightarrow> bool" where
  "configIDIsValid node_name c \<longleftrightarrow> get (config_id c) = generateConfigID node_name c"

section \<open>The wire form\<close>

text \<open>The array sizes of the structure.\<close>

definition R2DC_ok :: "R2DC \<Rightarrow> bool" where
  "R2DC_ok c \<longleftrightarrow> length (r2dc_name c) = 4 \<and> length (serial_number c) = 12
     \<and> length (head_ip c) = SYSTEMS \<and> length (head_baseport c) = SYSTEMS
     \<and> length (simbox_ip c) = SYSTEMS \<and> length (simbox_baseport c) = SYSTEMS
     \<and> length (daq_ip c) = DAQS \<and> length (daq_baseport c) = DAQS \<and> length (spare c) = 8"

lemma new_R2DC_ok: "new_R2DC pton serial = Inr c \<Longrightarrow> length serial = 12 \<Longrightarrow> R2DC_ok c"
  by (auto simp: new_R2DC_def R2DC_ok_def res_simps SYSTEMS_def DAQS_def str_bytes_def
      simp del: emap.simps dest!: emap_length)

definition parse_R2DC :: "u8 list \<Rightarrow> R2DC" where
  "parse_R2DC bs =
     \<lparr>r2dc_name = take 4 bs, serial_number = take 12 (drop 4 bs), config_id = field_be bs 16,
      subnet_mask = field_be bs 20, gateway_ip = field_be bs 24, gui_ip = field_be bs 28,
      gui_baseport = field_be bs 32, r2dc_system = field_be bs 34,
      head_ip = be32.dec_array 4 (drop 36 bs), head_baseport = be16.dec_array 4 (drop 52 bs),
      simbox_ip = be32.dec_array 4 (drop 60 bs), simbox_baseport = be16.dec_array 4 (drop 76 bs),
      daq_ip = be32.dec_array 8 (drop 84 bs), daq_baseport = be16.dec_array 8 (drop 116 bs),
      spare = be32.dec_array 8 (drop 132 bs)\<rparr>"

lemma length_be_array:
  "length (concat (map be_mem (ws :: BE_u32 list))) = length ws * 4"
  "length (concat (map be_mem (vs :: BE_u16 list))) = length vs * 2"
  by (rule be32.array_length be16.array_length)+

lemma length_R2DC_mem: "R2DC_ok c \<Longrightarrow> length (R2DC_mem c) = 164"
  by (simp add: R2DC_ok_def R2DC_mem_def config_bytes_def length_be_array SYSTEMS_def DAQS_def)

lemma config_part: "R2DC_ok c \<Longrightarrow> drop offsetof_subnet_mask (R2DC_mem c) = config_bytes c"
  by (simp add: R2DC_ok_def R2DC_mem_def offsetof_subnet_mask_def)

text \<open>
  The packet has 164 bytes, and reading them at the offsets of the packed structure gives the
  configuration back.
\<close>

lemma parse_serialize_R2DC:
  assumes "R2DC_ok c"
  shows "length (serialize_R2DC c) = 164 \<and> parse_R2DC (serialize_R2DC c) = c"
proof
  show "length (serialize_R2DC c) = 164"
    using assms by (simp add: serialize_R2DC_def length_R2DC_mem)
  have last: "n = length ws \<Longrightarrow> be32.dec_array n (concat (map be_mem ws)) = ws" for n ws
    using be32.dec_array_enc [of n ws "[]"] by simp
  show "parse_R2DC (serialize_R2DC c) = c"
    using assms
    by (cases c) (simp add: parse_R2DC_def serialize_R2DC_def R2DC_mem_def config_bytes_def R2DC_ok_def
        SYSTEMS_def DAQS_def field_be_def length_be_array be32.dec_array_enc
        be16.dec_array_enc last)
qed

section \<open>The configuration id\<close>

lemma generateConfigID_cong:
  "R2DC_ok c \<Longrightarrow> R2DC_ok c' \<Longrightarrow> config_bytes c = config_bytes c' \<Longrightarrow>
   generateConfigID n c = generateConfigID n c'"
  by (simp add: generateConfigID_def config_part)

lemma setConfigId_keeps:
  "R2DC_ok (setConfigId c) = R2DC_ok c" "config_bytes (setConfigId c) = config_bytes c"
  "get (config_id (setConfigId c)) = generateConfigID ''ros2sonic'' c"
  by (simp_all add: setConfigId_def R2DC_ok_def config_bytes_def)

text \<open>
  C25: the id that \<open>setConfigId\<close> writes is the one \<open>configIDIsValid\<close> expects of the node
  \<open>ros2sonic\<close>, for any serial number the packet is given afterwards; with another node name it is
  valid exactly when the names' hashes collide.
\<close>

theorem config_id_valid:
  assumes "R2DC_ok c" and "length serial = 12"
  shows "configIDIsValid node ((setConfigId c)\<lparr>serial_number := serial\<rparr>)
     \<longleftrightarrow> fnv1a_hash (str_bytes node) = fnv1a_hash (str_bytes ''ros2sonic'')"
proof -
  let ?c = "(setConfigId c)\<lparr>serial_number := serial\<rparr>"
  have ok: "R2DC_ok ?c" and same: "config_bytes ?c = config_bytes c"
    using assms by (simp_all add: setConfigId_def R2DC_ok_def config_bytes_def)
  have "get (config_id ?c) = generateConfigID ''ros2sonic'' c"
    by (simp add: setConfigId_keeps)
  moreover have "generateConfigID node ?c = generateConfigID node c"
    using ok assms(1) same by (rule generateConfigID_cong)
  ultimately show ?thesis
    by (auto simp: configIDIsValid_def generateConfigID_def xor_inject)
qed

text \<open>
  C26: the id notices every change of a single byte of the configuration, wherever it is: a packet
  that carries the id of a configuration that differs from its own in one byte is not valid.
\<close>

theorem config_id_detects_change:
  assumes "R2DC_ok c" and "R2DC_ok c'" and "config_bytes c = xs @ a # ys"
    and "config_bytes c' = xs @ b # ys" and "a \<noteq> b"
    and "config_id c' = config_id (setConfigId c)"
  shows "\<not> configIDIsValid ''ros2sonic'' c'"
proof
  assume "configIDIsValid ''ros2sonic'' c'"
  then have "generateConfigID ''ros2sonic'' c = generateConfigID ''ros2sonic'' c'"
    using assms(6) setConfigId_keeps(3) [of c] by (simp add: configIDIsValid_def)
  then have "fnv1a_hash (config_bytes c) = fnv1a_hash (config_bytes c')"
    using assms(1,2) by (simp add: generateConfigID_def config_part xor_inject
        xor.commute [of "fnv1a_hash (str_bytes _)"])
  then show False
    using fnv1a_one_byte [OF assms(5)] assms(3,4) by simp
qed

text \<open>A configuration of zeros, and the same with another system index.\<close>

definition sample_config :: "u16 \<Rightarrow> R2DC" where
  "sample_config i = \<lparr>r2dc_name = [0x52, 0x32, 0x44, 0x43], serial_number = replicate 12 0,
     config_id = set_be 0, subnet_mask = set_be 0, gateway_ip = set_be 0, gui_ip = set_be 0,
     gui_baseport = set_be 0, r2dc_system = set_be i, head_ip = replicate 4 (set_be 0),
     head_baseport = replicate 4 (set_be 0), simbox_ip = replicate 4 (set_be 0),
     simbox_baseport = replicate 4 (set_be 0), daq_ip = replicate 8 (set_be 0),
     daq_baseport = replicate 8 (set_be 0), spare = replicate 8 (set_be 0)\<rparr>"

lemma sample_config_ok: "R2DC_ok (sample_config i)"
  by (simp add: sample_config_def R2DC_ok_def SYSTEMS_def DAQS_def)

theorem config_id_valid_witness:
  "configIDIsValid ''ros2sonic'' ((setConfigId (sample_config 1))\<lparr>serial_number := replicate 12 65\<rparr>)"
  using config_id_valid [OF sample_config_ok, of "replicate 12 65" "''ros2sonic''" 1] by simp

theorem config_id_detects_change_witness:
  "\<not> configIDIsValid ''ros2sonic'' ((sample_config 2)\<lparr>config_id := config_id (setConfigId (sample_config 1))\<rparr>)"
proof (rule config_id_detects_change [OF sample_config_ok [of 1]])
  let ?c = "(sample_config 2)\<lparr>config_id := config_id (setConfigId (sample_config 1))\<rparr>"
  define ys where "ys = drop 16 (config_bytes (sample_config 0))"
  have "be_mem (set_be i :: BE_u16) = [word_of_nat (unat i div 256), ucast i]" for i
    by (simp add: mem_eval)
  moreover have "be_mem (set_be 0 :: BE_u32) = replicate 4 0"
    by (simp add: mem_eval replicate_4)
  ultimately have bytes: "config_bytes (sample_config i) = (replicate 4 0 @ replicate 4 0 @ replicate 4 0 @ [0, 0, 0]) @ ucast i # ys"
    if "unat i < 256" for i
    using that by (simp add: config_bytes_def sample_config_def ys_def)
  show "config_bytes (sample_config 1) = (replicate 4 0 @ replicate 4 0 @ replicate 4 0 @ [0, 0, 0]) @ 1 # ys"
    using bytes [of 1] by simp
  show "config_bytes ?c = (replicate 4 0 @ replicate 4 0 @ replicate 4 0 @ [0, 0, 0]) @ 2 # ys"
    using bytes [of 2] by (simp add: config_bytes_def)
  show "R2DC_ok ?c" using sample_config_ok [of 2] by (simp add: R2DC_ok_def)
qed simp_all

section \<open>An address parser\<close>

text \<open>Dotted decimal, as \<open>inet_pton\<close> reads it: one instance of the parameter.\<close>

fun decimal_value :: "nat \<Rightarrow> string \<Rightarrow> nat option" where
  "decimal_value n [] = Some n"
| "decimal_value n (c # cs) =
     (if CHR ''0'' \<le> c \<and> c \<le> CHR ''9'' then decimal_value (10 * n + (of_char c - 48)) cs else None)"

fun split_dots :: "string \<Rightarrow> string list" where
  "split_dots [] = [[]]"
| "split_dots (c # cs) =
     (if c = CHR ''.'' then [] # split_dots cs
      else (case split_dots cs of [] \<Rightarrow> [[c]] | w # ws \<Rightarrow> (c # w) # ws))"

definition octet :: "string \<Rightarrow> u8 option" where
  "octet s = (if s = [] \<or> 3 < length s \<or> (1 < length s \<and> hd s = CHR ''0'') then None
              else (case decimal_value 0 s of
                      Some n \<Rightarrow> if n < 256 then Some (word_of_nat n) else None
                    | None \<Rightarrow> None))"

definition dotted_quad :: inet_pton where
  "dotted_quad s =
     (case map octet (split_dots s) of
        [Some a, Some b, Some c, Some d] \<Rightarrow> Some [a, b, c, d]
      | _ \<Rightarrow> None)"

end
