(* ===== verification/Parameters.thy ===== *)
theory Parameters
  imports StdMap DeviceConfig Floats
begin

text \<open>
  \<open>R2SonicNode::Parameters\<close> of \<open>r2sonic_node.hpp\<close>, its \<open>init\<close> and the parameter callback of
  \<open>r2sonic_node.cpp\<close>. The parameter service of \<open>rclcpp\<close> is a parameter of the model: \<open>decl\<close>
  declares a parameter with its default and gives the value it then has, or throws.
\<close>

section \<open>The structure\<close>

record network_params =
  net_subnet_mask :: string
  net_gateway_ip :: string
  net_gui_ip :: string
  net_gui_baseport :: int
  net_head_ips :: "string list"
  net_head_baseports :: "int list"
  net_simbox_ips :: "string list"
  net_simbox_baseports :: "int list"
  net_daq_ips :: "string list"
  net_daq_baseports :: "int list"

record sonar_params =
  system_index :: int
  head_serial :: string
  sim_serial :: string
  interface_ip :: string
  tx_frame_id :: string
  rx_frame_id :: string

record topic_params =
  topic_detections :: string
  topic_bth0 :: string
  topic_acoustic_image :: string
  topic_aid0 :: string

text \<open>A table entry: the parameter's key, the device command and the value.\<close>

record SimCmds =
  sim_int_params :: "(string, string \<times> int) std_map"
  sim_ip_params :: "(string, string \<times> string) std_map"

record HeadCmds =
  head_float_params :: "(string, string \<times> u32) std_map"
  head_int_params :: "(string, string \<times> int) std_map"

record Parameters =
  network :: network_params
  control_mode :: bool
  sonar :: sonar_params
  topics :: topic_params
  sim_commands :: SimCmds
  head_commands :: HeadCmds

section \<open>The defaults\<close>

definition network0 :: network_params where
  "network0 = \<lparr>net_subnet_mask = ''255.0.0.0'', net_gateway_ip = ''0.0.0.0'', net_gui_ip = ''10.0.1.102'',
     net_gui_baseport = 65400, net_head_ips = [''10.0.0.86'', [], [], []],
     net_head_baseports = [65500, 0, 0, 0], net_simbox_ips = [''10.0.0.99'', [], [], []],
     net_simbox_baseports = [65500, 0, 0, 0],
     net_daq_ips = [''10.0.1.102'', ''10.0.1.102'', ''10.0.1.102'', [], [], [], [], []],
     net_daq_baseports = [4100, 4200, 4300, 0, 0, 0, 0, 0]\<rparr>"

definition sonar0 :: sonar_params where
  "sonar0 = \<lparr>system_index = 0, head_serial = [], sim_serial = [], interface_ip = ''0.0.0.0'',
     tx_frame_id = ''acoustic_center'', rx_frame_id = ''acoustic_center''\<rparr>"

definition topics0 :: topic_params where
  "topics0 = \<lparr>topic_detections = ''~/detections'', topic_bth0 = ''~/raw/bth0'',
     topic_acoustic_image = ''~/acoustic_image'', topic_aid0 = ''~/raw/aid0''\<rparr>"

definition SimCmds0 :: SimCmds where
  "SimCmds0 = \<lparr>sim_int_params = map_init
    [(''status_data'', ''STM0'', 3),
     (''pps_edge'', ''POG0'', 1),
     (''gps_enable'', ''ENG0'', 1),
     (''gps_interface'', ''DRG0'', 0),
     (''gps_baud'', ''BDG0'', 9600),
     (''gps_data_bits'', ''DBG0'', 8),
     (''gps_parity'', ''PAG0'', 0),
     (''gps_stop_bits'', ''SBG0'', 1),
     (''gps_ip_port'', ''PTG0'', 5506),
     (''trigger_in_mode'', ''SYI0'', 0),
     (''trigger_out_mode'', ''SYO0'', 0),
     (''heading_enable'', ''ENH0'', 0),
     (''heading_interface'', ''DRH0'', 2),
     (''motion_enable'', ''ENM0'', 1),
     (''motion_interface'', ''DRM0'', 0),
     (''motion_baud'', ''BDM0'', 115200),
     (''motion_data_bits'', ''DBM0'', 8),
     (''motion_parity'', ''PAM0'', 0),
     (''motion_stop_bits'', ''SBM0'', 1),
     (''motion_ip_port'', ''PTM0'', 5607),
     (''svp_enable'', ''ENS0'', 1),
     (''svp_interface'', ''DRS0'', 0),
     (''svp_baud'', ''BDS0'', 19200),
     (''svp_data_bits'', ''DBS0'', 8),
     (''svp_parity'', ''PAS0'', 0),
     (''svp_stop_bits'', ''SBS0'', 1),
     (''svp_ip_port'', ''PTS0'', 1),
     (''sonar_power'', ''SPO0'', 1),
     (''ins_enable'', ''IINS'', 1)],
   sim_ip_params = map_init
    [(''motion_ip_addr'', ''IPM0'', ''10.0.0.90''),
     (''gps_ip_addr'', ''IPG0'', ''10.0.0.44''),
     (''svp_ip_addr'', ''IPS0'', ''0.0.0.0'')]\<rparr>"

definition HeadCmds0 :: HeadCmds where
  "HeadCmds0 = \<lparr>head_float_params = map_init
    [(''absorption'', ''ABS0'', f32_literal 80 1),
     (''acoustic_brightness'', ''AIB0'', f32_literal 30 1),
     (''sound_velocity'', ''SVL0'', f32_literal 1496 1),
     (''range'', ''RNG0'', f32_literal 25 1),
     (''receiver_gain'', ''GAN0'', f32_literal 14 1),
     (''frequency'', ''FRQ0'', f32_literal 200000 1),
     (''transmitter_power'', ''TXP0'', f32_literal 191 1),
     (''transmitter_pulse_length'', ''TXL0'', f32_literal 38 100000),
     (''spreading_loss'', ''SPR0'', f32_literal 20 1),
     (''sector_width'', ''SEW0'', f32_literal 2094395 1000000),
     (''depth_gate.min'', ''DGA0'', f32_literal 68 10),
     (''depth_gate.max'', ''DGB0'', f32_literal 104 10),
     (''depth_gate.slope'', ''DGS0'', f32_literal 0 1),
     (''range_gate.min'', ''RGA0'', f32_literal 30455322 10000000),
     (''range_gate.max'', ''RGB0'', f32_literal 999 1),
     (''receiver_tilt'', ''RET0'', f32_literal 0 1),
     (''projector_focus'', ''TXF0'', f32_literal 0 1),
     (''vertical_steering_angle'', ''TXS0'', f32_literal 0 1),
     (''sector_rotate'', ''SER0'', f32_literal 0 1),
     (''ping_rate_limit.value'', ''PRL0'', f32_literal 60 1),
     (''projector_z'', ''PRZ0'', f32_literal 119 1000)],
   head_int_params = map_init
    [(''status_data'', ''STM0'', 3),
     (''sound_velocity_enable'', ''SVU0'', 1),
     (''depth_gate_mode'', ''DGO0'', 1),
     (''auto_mode_flags'', ''AUT0'', 0),
     (''range_gate.mode'', ''RGO0'', 0),
     (''bathy_intensity_enable'', ''BIE0'', 1),
     (''roll_stabilization_enable'', ''ROS0'', 1),
     (''pitch_stabilization_enable'', ''PTS0'', 1),
     (''head_sync_mode'', ''DHM0'', 0),
     (''projector_orientation'', ''PRO0'', 1),
     (''water_column_enable'', ''WCM0'', 0),
     (''ping_trigger_source'', ''TRG0'', 0),
     (''slope_filter_enable'', ''FIL0'', 0),
     (''bottom_sampling'', ''BOS0'', 0),
     (''uhd_enable'', ''UHD0'', 0),
     (''aih_setting'', ''AIH0'', 280),
     (''true_pix_mode'', ''TPM0'', 0),
     (''true_pix_gates'', ''TPG0'', 0),
     (''snippets_enable'', ''SNIP'', 0),
     (''tx_apodization'', ''TXW0'', 0),
     (''txwaveform_index'', ''TWIX'', 0),
     (''projector_mode'', ''PROJ'', 1),
     (''ping_rate_limit.enable'', ''PRU0'', 0)]\<rparr>"

definition Parameters0 :: Parameters where
  "Parameters0 = \<lparr>network = network0, control_mode = False, sonar = sonar0, topics = topics0,
     sim_commands = SimCmds0, head_commands = HeadCmds0\<rparr>"

section \<open>The selected head and simbox\<close>

text \<open>\<open>operator[]\<close> of a \<open>std::array\<close> with an \<open>int\<close> index: unchecked.\<close>

definition at_index :: "'a list \<Rightarrow> int \<Rightarrow> 'a res" where
  "at_index xs i = (if 0 \<le> i \<and> i < int (length xs) then Inr (xs ! nat i) else Inl (Undefined ArrayIndex))"

definition getHeadIp :: "Parameters \<Rightarrow> string res" where
  "getHeadIp P = at_index (net_head_ips (network P)) (system_index (sonar P))"

definition getHeadBaseport :: "Parameters \<Rightarrow> int res" where
  "getHeadBaseport P = at_index (net_head_baseports (network P)) (system_index (sonar P))"

definition getSimIp :: "Parameters \<Rightarrow> string res" where
  "getSimIp P = at_index (net_simbox_ips (network P)) (system_index (sonar P))"

definition getSimBaseport :: "Parameters \<Rightarrow> int res" where
  "getSimBaseport P = at_index (net_simbox_baseports (network P)) (system_index (sonar P))"

section \<open>Initialisation\<close>

datatype param_value = PBool bool | PInt int | PDouble u64 | PString string | POther

type_synonym declare_param = "string \<Rightarrow> param_value \<Rightarrow> param_value res"

text \<open>A 64-bit parameter stored in an \<open>int\<close>.\<close>

definition to_int :: "int \<Rightarrow> int" where
  "to_int i = sint (word_of_int i :: u32)"

text \<open>\<open>setupParam\<close> at its types: declare, read back, convert to the variable's type.\<close>

definition setup_string :: "declare_param \<Rightarrow> string \<Rightarrow> string \<Rightarrow> string res" where
  "setup_string decl topic v = ebind (decl topic (PString v)) (\<lambda>r.
     case r of PString s \<Rightarrow> Inr s | _ \<Rightarrow> Inl (ParameterType topic))"

definition setup_int :: "declare_param \<Rightarrow> string \<Rightarrow> int \<Rightarrow> int res" where
  "setup_int decl topic v = ebind (decl topic (PInt v)) (\<lambda>r.
     case r of PInt i \<Rightarrow> Inr (to_int i) | _ \<Rightarrow> Inl (ParameterType topic))"

definition setup_bool :: "declare_param \<Rightarrow> string \<Rightarrow> bool \<Rightarrow> bool res" where
  "setup_bool decl topic v = ebind (decl topic (PBool v)) (\<lambda>r.
     case r of PBool b \<Rightarrow> Inr b | _ \<Rightarrow> Inl (ParameterType topic))"

definition setup_float :: "declare_param \<Rightarrow> string \<Rightarrow> u32 \<Rightarrow> u32 res" where
  "setup_float decl topic v = ebind (decl topic (PDouble (f64_of_f32 v))) (\<lambda>r.
     case r of PDouble d \<Rightarrow> Inr (f32_of_f64 d) | _ \<Rightarrow> Inl (ParameterType topic))"

definition fix_empty_ip :: "string \<Rightarrow> string" where
  "fix_empty_ip ip = (if ip = [] then ''0.0.0.0'' else ip)"

definition setup_ip :: "declare_param \<Rightarrow> string \<Rightarrow> string \<Rightarrow> string res" where
  "setup_ip decl topic v = ebind (setup_string decl topic v) (\<lambda>s. Inr (fix_empty_ip s))"

text \<open>\<open>std::to_string\<close> of an array index.\<close>

fun to_string :: "nat \<Rightarrow> string" where
  "to_string n = (if n < 10 then [char_of (48 + n)] else to_string (n div 10) @ [char_of (48 + n mod 10)])"

declare to_string.simps [simp del]

definition init_system :: "declare_param \<Rightarrow> nat \<Rightarrow> network_params \<Rightarrow> network_params res" where
  "init_system decl i n =
     ebind (setup_ip decl (''network.head_ips_'' @ to_string i) (net_head_ips n ! i)) (\<lambda>hip.
     ebind (setup_int decl (''network.head_baseports_'' @ to_string i) (net_head_baseports n ! i)) (\<lambda>hbp.
     ebind (setup_ip decl (''network.simbox_ips_'' @ to_string i) (net_simbox_ips n ! i)) (\<lambda>sip.
     ebind (setup_int decl (''network.simbox_baseports_'' @ to_string i) (net_simbox_baseports n ! i)) (\<lambda>sbp.
     Inr (n\<lparr>net_head_ips := (net_head_ips n)[i := hip], net_head_baseports := (net_head_baseports n)[i := hbp],
            net_simbox_ips := (net_simbox_ips n)[i := sip],
            net_simbox_baseports := (net_simbox_baseports n)[i := sbp]\<rparr>)))))"

definition init_daq :: "declare_param \<Rightarrow> nat \<Rightarrow> network_params \<Rightarrow> network_params res" where
  "init_daq decl i n =
     ebind (setup_ip decl (''network.daq_ips_'' @ to_string i) (net_daq_ips n ! i)) (\<lambda>dip.
     ebind (setup_int decl (''network.daq_baseports_'' @ to_string i) (net_daq_baseports n ! i)) (\<lambda>dbp.
     Inr (n\<lparr>net_daq_ips := (net_daq_ips n)[i := dip], net_daq_baseports := (net_daq_baseports n)[i := dbp]\<rparr>)))"

definition init_network :: "declare_param \<Rightarrow> network_params \<Rightarrow> network_params res" where
  "init_network decl n =
     ebind (setup_ip decl ''network.subnet_mask'' (net_subnet_mask n)) (\<lambda>mask.
     ebind (setup_ip decl ''network.gateway_ip'' (net_gateway_ip n)) (\<lambda>gateway.
     ebind (setup_ip decl ''network.gui_ip'' (net_gui_ip n)) (\<lambda>gui.
     ebind (setup_int decl ''network.gui_baseport'' (net_gui_baseport n)) (\<lambda>port.
     ebind (efold (init_system decl) [0..<SYSTEMS] (n\<lparr>net_subnet_mask := mask,
              net_gateway_ip := gateway, net_gui_ip := gui, net_gui_baseport := port\<rparr>)) (\<lambda>n.
     efold (init_daq decl) [0..<DAQS] n)))))"

definition init_topics :: "declare_param \<Rightarrow> topic_params \<Rightarrow> topic_params res" where
  "init_topics decl t =
     ebind (setup_string decl ''topics.detections'' (topic_detections t)) (\<lambda>detections.
     ebind (setup_string decl ''topics.bth0'' (topic_bth0 t)) (\<lambda>bth0.
     ebind (setup_string decl ''topics.aid0'' (topic_aid0 t)) (\<lambda>aid0.
     ebind (setup_string decl ''topics.acoustic_image'' (topic_acoustic_image t)) (\<lambda>image.
     Inr \<lparr>topic_detections = detections, topic_bth0 = bth0, topic_acoustic_image = image,
          topic_aid0 = aid0\<rparr>))))"

definition init_sonar :: "declare_param \<Rightarrow> sonar_params \<Rightarrow> sonar_params res" where
  "init_sonar decl s =
     ebind (setup_int decl ''sonar.system_index'' (system_index s)) (\<lambda>index.
     ebind (setup_string decl ''sonar.head_serial'' (head_serial s)) (\<lambda>head.
     ebind (setup_string decl ''sonar.sim_serial'' (sim_serial s)) (\<lambda>sim.
     ebind (setup_ip decl ''sonar.interface_ip'' (interface_ip s)) (\<lambda>interface.
     ebind (setup_string decl ''sonar.tx_frame_id'' (tx_frame_id s)) (\<lambda>tx.
     ebind (setup_string decl ''sonar.rx_frame_id'' (rx_frame_id s)) (\<lambda>rx.
     Inr \<lparr>system_index = index, head_serial = head, sim_serial = sim, interface_ip = interface,
          tx_frame_id = tx, rx_frame_id = rx\<rparr>))))))"

text \<open>The loop over a command table: the value of every entry, in key order.\<close>

definition init_table ::
  "(string \<Rightarrow> 'v \<Rightarrow> 'v res) \<Rightarrow> string \<Rightarrow> (string, string \<times> 'v) std_map \<Rightarrow> (string, string \<times> 'v) std_map res" where
  "init_table setup prefix =
     emap (\<lambda>(key, cmd, v). ebind (setup (prefix @ key) v) (\<lambda>v. Inr (key, cmd, v)))"

text \<open>The summary that is logged evaluates the selected addresses; then control mode is validated.\<close>

definition init_summary :: "Parameters \<Rightarrow> unit res" where
  "init_summary P = ebind (getHeadIp P) (\<lambda>_. ebind (getHeadBaseport P) (\<lambda>_.
     ebind (getSimIp P) (\<lambda>_. ebind (getSimBaseport P) (\<lambda>_. Inr ()))))"

definition validate_control_mode :: "Parameters \<Rightarrow> Parameters" where
  "validate_control_mode P =
     (if control_mode P \<and> (head_serial (sonar P) = [] \<or> sim_serial (sonar P) = [])
      then P\<lparr>control_mode := False\<rparr> else P)"

definition Parameters_init :: "declare_param \<Rightarrow> Parameters \<Rightarrow> Parameters res" where
  "Parameters_init decl P =
     ebind (init_topics decl (topics P)) (\<lambda>topics.
     ebind (setup_bool decl ''driver.control_mode'' (control_mode P)) (\<lambda>mode.
     ebind (init_sonar decl (sonar P)) (\<lambda>sonar.
     ebind (init_network decl (network P)) (\<lambda>network.
     ebind (init_table (setup_int decl) ''sim_commands.'' (sim_int_params (sim_commands P))) (\<lambda>sim_ints.
     ebind (init_table (setup_string decl) ''sim_commands.'' (sim_ip_params (sim_commands P))) (\<lambda>sim_ips.
     ebind (init_table (setup_float decl) ''head_commands.'' (head_float_params (head_commands P))) (\<lambda>floats.
     ebind (init_table (setup_int decl) ''head_commands.'' (head_int_params (head_commands P))) (\<lambda>ints.
     let P = \<lparr>network = network, control_mode = mode, sonar = sonar, topics = topics,
              sim_commands = \<lparr>sim_int_params = sim_ints, sim_ip_params = sim_ips\<rparr>,
              head_commands = \<lparr>head_float_params = floats, head_int_params = ints\<rparr>\<rparr>
     in ebind (init_summary P) (\<lambda>_. Inr (validate_control_mode P))))))))))"

section \<open>The parameter callback\<close>

definition as_int :: "string \<Rightarrow> param_value \<Rightarrow> int res" where
  "as_int name v = (case v of PInt i \<Rightarrow> Inr i | _ \<Rightarrow> Inl (ParameterType name))"

definition as_double :: "string \<Rightarrow> param_value \<Rightarrow> u64 res" where
  "as_double name v = (case v of PDouble d \<Rightarrow> Inr d | _ \<Rightarrow> Inl (ParameterType name))"

definition as_string :: "string \<Rightarrow> param_value \<Rightarrow> string res" where
  "as_string name v = (case v of PString s \<Rightarrow> Inr s | _ \<Rightarrow> Inl (ParameterType name))"

text \<open>
  One parameter of a batch: \<open>Inl\<close> an exception, \<open>Inr (Some reason, P)\<close> a rejection, \<open>Inr (None, P)\<close>
  an update. \<open>what\<close> is the text of an exception.
\<close>

definition update_sim ::
  "inet_pton \<Rightarrow> (exn \<Rightarrow> string) \<Rightarrow> string \<Rightarrow> string \<Rightarrow> param_value \<Rightarrow> SimCmds \<Rightarrow> (string option \<times> SimCmds) res" where
  "update_sim pton what name key v S =
     (case map_find key (sim_int_params S) of
        Some (cmd, _) \<Rightarrow> ebind (as_int name v) (\<lambda>i.
          Inr (None, S\<lparr>sim_int_params := map_put key (cmd, to_int i) (sim_int_params S)\<rparr>))
      | None \<Rightarrow>
          (case map_find key (sim_ip_params S) of
             Some (cmd, _) \<Rightarrow> ebind (as_string name v) (\<lambda>ip.
               (case ip_str_to_u32 pton (c_str ip) of
                  Inr _ \<Rightarrow> Inr (None, S\<lparr>sim_ip_params := map_put key (cmd, ip) (sim_ip_params S)\<rparr>)
                | Inl e \<Rightarrow> Inr (Some (''Invalid IP for sim_commands.'' @ key @ '': '' @ what e), S)))
           | None \<Rightarrow> Inr (Some (''Unknown parameter in sim_commands: '' @ key), S)))"

definition update_head ::
  "string \<Rightarrow> string \<Rightarrow> param_value \<Rightarrow> HeadCmds \<Rightarrow> (string option \<times> HeadCmds) res" where
  "update_head name key v H =
     (case map_find key (head_float_params H) of
        Some (cmd, _) \<Rightarrow> ebind (as_double name v) (\<lambda>d.
          Inr (None, H\<lparr>head_float_params := map_put key (cmd, f32_of_f64 d) (head_float_params H)\<rparr>))
      | None \<Rightarrow>
          (case map_find key (head_int_params H) of
             Some (cmd, _) \<Rightarrow> ebind (as_int name v) (\<lambda>i.
               Inr (None, H\<lparr>head_int_params := map_put key (cmd, to_int i) (head_int_params H)\<rparr>))
           | None \<Rightarrow> Inr (Some (''Unknown parameter in head_commands: '' @ key), H)))"

definition starts_with :: "string \<Rightarrow> string \<Rightarrow> bool" where
  "starts_with p s \<longleftrightarrow> take (length p) s = p"

definition update_param ::
  "inet_pton \<Rightarrow> (exn \<Rightarrow> string) \<Rightarrow> string \<times> param_value \<Rightarrow> Parameters \<Rightarrow> (string option \<times> Parameters) res" where
  "update_param pton what p P = (case p of (name, v) \<Rightarrow>
     if starts_with ''sim_commands.'' name then
       ebind (update_sim pton what name (drop (length ''sim_commands.'') name) v (sim_commands P))
         (\<lambda>(r, S). Inr (r, P\<lparr>sim_commands := S\<rparr>))
     else if starts_with ''head_commands.'' name then
       ebind (update_head name (drop (length ''head_commands.'') name) v (head_commands P))
         (\<lambda>(r, H). Inr (r, P\<lparr>head_commands := H\<rparr>))
     else Inr (Some (''Unknown parameter: '' @ name), P))"

text \<open>The body of the loop with its \<open>catch\<close>; the result is the success flag and the reason.\<close>

definition update_step ::
  "inet_pton \<Rightarrow> (exn \<Rightarrow> string) \<Rightarrow> string \<times> param_value \<Rightarrow> (bool \<times> string) \<times> Parameters \<Rightarrow> (bool \<times> string) \<times> Parameters" where
  "update_step pton what p s = (case s of (result, P) \<Rightarrow>
     case update_param pton what p P of
       Inl e \<Rightarrow> ((False, ''Failed to update parameter: '' @ what e), P)
     | Inr (Some reason, P') \<Rightarrow> ((False, reason), P')
     | Inr (None, P') \<Rightarrow> (result, P'))"

definition onParameterUpdate ::
  "inet_pton \<Rightarrow> (exn \<Rightarrow> string) \<Rightarrow> (string \<times> param_value) list \<Rightarrow> Parameters \<Rightarrow> (bool \<times> string) \<times> Parameters" where
  "onParameterUpdate pton what params P = fold (update_step pton what) params ((True, ''Success''), P)"

end
