(* ===== verification/ParameterRules.thy ===== *)
theory ParameterRules
  imports Parameters
begin

text \<open>
  What holds of the parameters after \<open>init\<close> and after every batch of updates: the command tables
  keep their keys and commands, addresses that can be sent stay so, control mode needs both serial
  numbers, and the system index is inside the arrays.
\<close>

section \<open>The command tables\<close>

definition table_commands :: "(string, string \<times> 'v) std_map \<Rightarrow> (string \<times> string) list" where
  "table_commands m = map (\<lambda>(key, cmd, _). (key, cmd)) m"

definition all_commands :: "Parameters \<Rightarrow> (string \<times> string) list list" where
  "all_commands P = [table_commands (sim_int_params (sim_commands P)),
     table_commands (sim_ip_params (sim_commands P)),
     table_commands (head_float_params (head_commands P)),
     table_commands (head_int_params (head_commands P))]"

definition tables_sorted :: "Parameters \<Rightarrow> bool" where
  "tables_sorted P \<longleftrightarrow> (\<forall>t \<in> set (all_commands P). sorted_wrt (<) (map fst t))"

definition sim_ips_valid :: "inet_pton \<Rightarrow> Parameters \<Rightarrow> bool" where
  "sim_ips_valid pton P \<longleftrightarrow> (\<forall>(key, cmd, ip) \<in> set (sim_ip_params (sim_commands P)). pton (c_str ip) \<noteq> None)"

lemma table_keys: "map fst (table_commands m) = map fst m"
  by (simp add: table_commands_def split_def)

lemma tables_sorted_iff:
  "tables_sorted P \<longleftrightarrow> map_sorted (sim_int_params (sim_commands P)) \<and> map_sorted (sim_ip_params (sim_commands P))
     \<and> map_sorted (head_float_params (head_commands P)) \<and> map_sorted (head_int_params (head_commands P))"
  by (simp add: tables_sorted_def all_commands_def table_keys map_sorted_def)

text \<open>Assigning a value under a key and command the table has.\<close>

lemma table_commands_put:
  assumes "map_sorted m" and "map_find k m = Some (cmd, v)"
  shows "table_commands (map_put k (cmd, w) m) = table_commands m"
  using assms
proof (induction m)
  case Nil
  then show ?case by (simp add: map_find_def)
next
  case (Cons e m)
  obtain k' c' v' where e: "e = (k', c', v')" by (cases e)
  from Cons.prems have m: "map_sorted m" by (simp add: map_sorted_def)
  show ?case
  proof (cases "k = k'")
    case True
    with Cons.prems show ?thesis by (simp add: e map_find_def table_commands_def)
  next
    case False
    with Cons.prems have f: "map_find k m = Some (cmd, v)" by (simp add: e map_find_def)
    then have "k \<in> fst ` set m" by (force simp: map_find_def dest: map_of_SomeD)
    with Cons.prems have "k' < k" by (auto simp: map_sorted_def e)
    with Cons.IH [OF m f] False show ?thesis by (auto simp: e table_commands_def)
  qed
qed

lemma set_map_put: "set (map_put k v m) \<subseteq> insert (k, v) (set m)"
  by (induction m) (auto split: if_splits)

section \<open>A batch of updates\<close>

text \<open>The state after one parameter of a batch: changed only by an accepted one.\<close>

definition applied :: "inet_pton \<Rightarrow> (exn \<Rightarrow> string) \<Rightarrow> string \<times> param_value \<Rightarrow> Parameters \<Rightarrow> Parameters" where
  "applied pton what p P = (case update_param pton what p P of Inr (None, P') \<Rightarrow> P' | _ \<Rightarrow> P)"

definition accepted :: "inet_pton \<Rightarrow> (exn \<Rightarrow> string) \<Rightarrow> string \<times> param_value \<Rightarrow> Parameters \<Rightarrow> bool" where
  "accepted pton what p P = (case update_param pton what p P of Inr (None, _) \<Rightarrow> True | _ \<Rightarrow> False)"

text \<open>A rejection leaves the parameters unchanged.\<close>

lemma update_sim_cases:
  assumes "update_sim pton what name key v S = Inr (r, S')"
  obtains (int) cmd w i where "r = None" "map_find key (sim_int_params S) = Some (cmd, w)"
      "S' = S\<lparr>sim_int_params := map_put key (cmd, i) (sim_int_params S)\<rparr>"
  | (ip) cmd w ip where "r = None" "map_find key (sim_ip_params S) = Some (cmd, w)" "pton (c_str ip) \<noteq> None"
      "S' = S\<lparr>sim_ip_params := map_put key (cmd, ip) (sim_ip_params S)\<rparr>"
  | (rejected) "r \<noteq> None" "S' = S"
proof (cases "map_find key (sim_int_params S)")
  case no_int: None
  show ?thesis
  proof (cases "map_find key (sim_ip_params S)")
    case None
    with no_int assms have "r \<noteq> None" "S' = S" by (auto simp: update_sim_def)
    then show ?thesis by (rule rejected)
  next
    case (Some e)
    obtain cmd w where e: "e = (cmd, w)" by (cases e)
    obtain s where v: "v = PString s"
      using no_int Some e assms by (cases v) (auto simp: update_sim_def as_string_def)
    show ?thesis
    proof (cases "pton (c_str s)")
      case None
      with no_int Some e v assms have "r \<noteq> None" "S' = S"
        by (auto simp: update_sim_def as_string_def ip_str_to_u32_def)
      then show ?thesis by (rule rejected)
    next
      case (Some bs)
      with no_int \<open>map_find key (sim_ip_params S) = Some e\<close> e v assms
      have "r = None" "S' = S\<lparr>sim_ip_params := map_put key (cmd, s) (sim_ip_params S)\<rparr>"
        by (auto simp: update_sim_def as_string_def ip_str_to_u32_def)
      then show ?thesis
        using \<open>map_find key (sim_ip_params S) = Some e\<close> e Some by (intro ip [of cmd w s]) simp_all
    qed
  qed
next
  case (Some e)
  obtain cmd w where e: "e = (cmd, w)" by (cases e)
  obtain i where "r = None" "S' = S\<lparr>sim_int_params := map_put key (cmd, i) (sim_int_params S)\<rparr>"
    using Some e assms by (auto simp: update_sim_def res_simps)
  with Some e show ?thesis by (intro int [of cmd w i]) simp_all
qed

lemma update_head_cases:
  assumes "update_head name key v H = Inr (r, H')"
  obtains (float) cmd w f where "r = None" "map_find key (head_float_params H) = Some (cmd, w)"
      "H' = H\<lparr>head_float_params := map_put key (cmd, f) (head_float_params H)\<rparr>"
  | (int) cmd w i where "r = None" "map_find key (head_int_params H) = Some (cmd, w)"
      "H' = H\<lparr>head_int_params := map_put key (cmd, i) (head_int_params H)\<rparr>"
  | (rejected) "r \<noteq> None" "H' = H"
proof (cases "map_find key (head_float_params H)")
  case no_float: None
  show ?thesis
  proof (cases "map_find key (head_int_params H)")
    case None
    with no_float assms have "r \<noteq> None" "H' = H" by (auto simp: update_head_def)
    then show ?thesis by (rule rejected)
  next
    case (Some e)
    obtain cmd w where e: "e = (cmd, w)" by (cases e)
    obtain i where "r = None" "H' = H\<lparr>head_int_params := map_put key (cmd, i) (head_int_params H)\<rparr>"
      using no_float Some e assms by (auto simp: update_head_def res_simps)
    with Some e show ?thesis by (intro int [of cmd w i]) simp_all
  qed
next
  case (Some e)
  obtain cmd w where e: "e = (cmd, w)" by (cases e)
  obtain f where "r = None" "H' = H\<lparr>head_float_params := map_put key (cmd, f) (head_float_params H)\<rparr>"
    using Some e assms by (auto simp: update_head_def res_simps)
  with Some e show ?thesis by (intro float [of cmd w f]) simp_all
qed

text \<open>A parameter changes one of the two groups of tables or nothing.\<close>

lemma update_param_cases:
  assumes "update_param pton what p P = Inr (r, P')"
  obtains (sim) name key v S where "update_sim pton what name key v (sim_commands P) = Inr (r, S)"
      "P' = P\<lparr>sim_commands := S\<rparr>"
  | (head) name key v H where "update_head name key v (head_commands P) = Inr (r, H)"
      "P' = P\<lparr>head_commands := H\<rparr>"
  | (other) "r \<noteq> None" "P' = P"
proof -
  obtain name v where p: "p = (name, v)" by (cases p)
  define key where "key = drop (length ''sim_commands.'') name"
  define key' where "key' = drop (length ''head_commands.'') name"
  show ?thesis
  proof (cases "starts_with ''sim_commands.'' name")
    case True
    then have "update_param pton what p P
        = ebind (update_sim pton what name key v (sim_commands P)) (\<lambda>(r, S). Inr (r, P\<lparr>sim_commands := S\<rparr>))"
      by (simp add: update_param_def p key_def)
    with assms obtain S where "update_sim pton what name key v (sim_commands P) = Inr (r, S)"
        "P' = P\<lparr>sim_commands := S\<rparr>"
      by (auto simp: res_simps)
    then show ?thesis by (rule sim)
  next
    case no_sim: False
    show ?thesis
    proof (cases "starts_with ''head_commands.'' name")
      case True
      with no_sim have "update_param pton what p P
          = ebind (update_head name key' v (head_commands P)) (\<lambda>(r, H). Inr (r, P\<lparr>head_commands := H\<rparr>))"
        by (simp add: update_param_def p key'_def)
      with assms obtain H where "update_head name key' v (head_commands P) = Inr (r, H)"
          "P' = P\<lparr>head_commands := H\<rparr>"
        by (auto simp: res_simps)
      then show ?thesis by (rule head)
    next
      case False
      with no_sim assms have "r \<noteq> None" "P' = P" by (auto simp: update_param_def p)
      then show ?thesis by (rule other)
    qed
  qed
qed

lemma update_rejected: "update_param pton what p P = Inr (Some r, P') \<Longrightarrow> P' = P"
proof -
  assume "update_param pton what p P = Inr (Some r, P')"
  then show "P' = P"
  proof (cases rule: update_param_cases)
    case (sim name key v S)
    from sim(1) show ?thesis by (cases rule: update_sim_cases) (simp_all add: sim(2))
  next
    case (head name key v H)
    from head(1) show ?thesis by (cases rule: update_head_cases) (simp_all add: head(2))
  qed simp
qed

lemma update_step_applied:
  "snd (update_step pton what p s) = applied pton what p (snd s)"
  "fst (fst (update_step pton what p s)) \<longleftrightarrow> fst (fst s) \<and> accepted pton what p (snd s)"
  by (auto simp: update_step_def applied_def accepted_def split_def split: sum.splits option.splits
      dest: update_rejected)

text \<open>The invariant of a batch: what one update keeps, every batch keeps.\<close>

lemma batch_invariant:
  assumes "Q P" and "\<And>p P. Q P \<Longrightarrow> Q (applied pton what p P)"
  shows "Q (snd (onParameterUpdate pton what ps P))"
proof -
  have "Q (snd s) \<Longrightarrow> Q (snd (fold (update_step pton what) ps s))" for s
    by (induction ps arbitrary: s) (simp_all add: update_step_applied(1) assms(2))
  with assms(1) show ?thesis by (simp add: onParameterUpdate_def)
qed

lemma applied_sim:
  assumes "tables_sorted P" and "update_sim pton what name key v (sim_commands P) = Inr (None, S)"
  shows "all_commands (P\<lparr>sim_commands := S\<rparr>) = all_commands P"
    and "sim_ips_valid pton P \<Longrightarrow> sim_ips_valid pton (P\<lparr>sim_commands := S\<rparr>)"
proof -
  show "all_commands (P\<lparr>sim_commands := S\<rparr>) = all_commands P"
    using assms(2,1) by (cases rule: update_sim_cases)
      (auto simp: all_commands_def tables_sorted_iff table_commands_put)
  show "sim_ips_valid pton (P\<lparr>sim_commands := S\<rparr>)" if "sim_ips_valid pton P"
    using assms(2)
  proof (cases rule: update_sim_cases)
    case (ip cmd w ip)
    with that set_map_put [of key "(cmd, ip)" "sim_ip_params (sim_commands P)"] show ?thesis
      by (auto simp: sim_ips_valid_def)
  qed (use that in \<open>auto simp: sim_ips_valid_def\<close>)
qed

lemma applied_head:
  assumes "tables_sorted P" and "update_head name key v (head_commands P) = Inr (None, H)"
  shows "all_commands (P\<lparr>head_commands := H\<rparr>) = all_commands P"
  using assms(2,1) by (cases rule: update_head_cases)
    (auto simp: all_commands_def tables_sorted_iff table_commands_put)

lemma applied_cases:
  "applied pton what p P = P
    \<or> (\<exists>name key v S. applied pton what p P = P\<lparr>sim_commands := S\<rparr>
         \<and> update_sim pton what name key v (sim_commands P) = Inr (None, S))
    \<or> (\<exists>name key v H. applied pton what p P = P\<lparr>head_commands := H\<rparr>
         \<and> update_head name key v (head_commands P) = Inr (None, H))"
proof (cases "update_param pton what p P")
  case (Inr rP)
  then obtain r P' where eq: "update_param pton what p P = Inr (r, P')" by (cases rP) simp
  then have ap: "applied pton what p P = (if r = None then P' else P)"
    by (cases r) (simp_all add: applied_def)
  show ?thesis
    by (cases rule: update_param_cases [OF eq]; cases r) (simp_all add: ap, blast+)
qed (simp add: applied_def)

text \<open>Updates never touch anything but the tables.\<close>

lemma applied_frame:
  "network (applied pton what p P) = network P \<and> control_mode (applied pton what p P) = control_mode P
   \<and> sonar (applied pton what p P) = sonar P \<and> topics (applied pton what p P) = topics P"
  using applied_cases [of pton what p P] by auto

lemma batch_frame:
  assumes "P' = snd (onParameterUpdate pton what params P)"
  shows "network P' = network P \<and> control_mode P' = control_mode P \<and> sonar P' = sonar P \<and> topics P' = topics P"
  unfolding assms by (rule batch_invariant) (simp_all add: applied_frame)

lemma applied_keeps:
  assumes "tables_sorted P"
  shows "all_commands (applied pton what p P) = all_commands P"
    "sim_ips_valid pton P \<Longrightarrow> sim_ips_valid pton (applied pton what p P)"
proof -
  show "all_commands (applied pton what p P) = all_commands P"
    using applied_cases applied_sim(1) [OF assms] applied_head [OF assms] by metis
  show "sim_ips_valid pton (applied pton what p P)" if "sim_ips_valid pton P"
    using applied_cases [of pton what p P]
  proof (elim disjE exE conjE)
    fix name key v S
    assume "applied pton what p P = P\<lparr>sim_commands := S\<rparr>"
      "update_sim pton what name key v (sim_commands P) = Inr (None, S)"
    then show ?thesis using applied_sim(2) [OF assms _ that] by simp
  qed (use that in \<open>simp_all add: sim_ips_valid_def\<close>)
qed

lemma batch_keeps:
  assumes "tables_sorted P" and "sim_ips_valid pton P"
  shows "all_commands (snd (onParameterUpdate pton what params P)) = all_commands P"
    "sim_ips_valid pton (snd (onParameterUpdate pton what params P))"
proof -
  let ?Q = "\<lambda>Q. all_commands Q = all_commands P \<and> sim_ips_valid pton Q"
  have "?Q (snd (onParameterUpdate pton what params P))"
  proof (rule batch_invariant)
    fix p Q assume Q: "?Q Q"
    then have "tables_sorted Q"
      using assms(1) by (simp add: tables_sorted_def)
    from applied_keeps [OF this] Q show "?Q (applied pton what p Q)" by simp
  qed (use assms in simp)
  then show "all_commands (snd (onParameterUpdate pton what params P)) = all_commands P"
    "sim_ips_valid pton (snd (onParameterUpdate pton what params P))" by simp_all
qed


text \<open>A batch succeeds when each parameter is accepted in the state the ones before it have left.\<close>

lemma batch_outcome:
  "snd (onParameterUpdate pton what params P) = fold (applied pton what) params P
   \<and> (fst (fst (onParameterUpdate pton what params P)) \<longleftrightarrow>
       (\<forall>i < length params. accepted pton what (params ! i) (fold (applied pton what) (take i params) P)))"
proof -
  have "snd (fold (update_step pton what) ps s) = fold (applied pton what) ps (snd s)
      \<and> (fst (fst (fold (update_step pton what) ps s)) \<longleftrightarrow> fst (fst s)
         \<and> (\<forall>i < length ps. accepted pton what (ps ! i) (fold (applied pton what) (take i ps) (snd s))))" for ps s
  proof (induction ps arbitrary: s)
    case Nil
    then show ?case by simp
  next
    case (Cons p ps)
    show ?case
      using Cons [of "update_step pton what p s"]
      by (simp add: update_step_applied All_less_Suc2 conj_assoc)
  qed
  from this [of params "((True, ''Success''), P)"] show ?thesis
    by (simp add: onParameterUpdate_def)
qed

section \<open>After initialisation\<close>

definition ips_nonempty :: "network_params \<Rightarrow> bool" where
  "ips_nonempty n \<longleftrightarrow> net_subnet_mask n \<noteq> [] \<and> net_gateway_ip n \<noteq> [] \<and> net_gui_ip n \<noteq> []
     \<and> (\<forall>ip \<in> set (net_head_ips n @ net_simbox_ips n @ net_daq_ips n). ip \<noteq> [])"

definition arrays_ok :: "network_params \<Rightarrow> bool" where
  "arrays_ok n \<longleftrightarrow> length (net_head_ips n) = SYSTEMS \<and> length (net_head_baseports n) = SYSTEMS
     \<and> length (net_simbox_ips n) = SYSTEMS \<and> length (net_simbox_baseports n) = SYSTEMS
     \<and> length (net_daq_ips n) = DAQS \<and> length (net_daq_baseports n) = DAQS"

lemma setup_ip_nonempty: "setup_ip decl topic v = Inr ip \<Longrightarrow> ip \<noteq> []"
  by (auto simp: setup_ip_def fix_empty_ip_def res_simps split: if_splits)

lemma init_systems:
  assumes "efold (init_system decl) [0..<SYSTEMS] n = Inr n'" and "arrays_ok n"
  shows "arrays_ok n' \<and> (\<forall>ip \<in> set (net_head_ips n' @ net_simbox_ips n'). ip \<noteq> [])
    \<and> net_subnet_mask n' = net_subnet_mask n \<and> net_gateway_ip n' = net_gateway_ip n
    \<and> net_gui_ip n' = net_gui_ip n"
proof -
  let ?Q = "\<lambda>i n'. arrays_ok n' \<and> (\<forall>k < i. net_head_ips n' ! k \<noteq> [] \<and> net_simbox_ips n' ! k \<noteq> [])
    \<and> net_subnet_mask n' = net_subnet_mask n \<and> net_gateway_ip n' = net_gateway_ip n
    \<and> net_gui_ip n' = net_gui_ip n"
  have "?Q SYSTEMS n'"
  proof (rule efold_upt_invariant [OF assms(1)])
    show "?Q (Suc i) b" if "i < SYSTEMS" "?Q i a" "init_system decl i a = Inr b" for i a b
      using that by (auto simp: init_system_def res_simps arrays_ok_def less_Suc_eq nth_list_update
          dest: setup_ip_nonempty)
  qed (use assms in simp)
  then show ?thesis by (auto simp: arrays_ok_def in_set_conv_nth)
qed

lemma init_daqs:
  assumes "efold (init_daq decl) [0..<DAQS] n = Inr n'" and "arrays_ok n"
  shows "arrays_ok n' \<and> (\<forall>ip \<in> set (net_daq_ips n'). ip \<noteq> [])
    \<and> net_subnet_mask n' = net_subnet_mask n \<and> net_gateway_ip n' = net_gateway_ip n
    \<and> net_gui_ip n' = net_gui_ip n \<and> net_head_ips n' = net_head_ips n \<and> net_simbox_ips n' = net_simbox_ips n"
proof -
  let ?Q = "\<lambda>i n'. arrays_ok n' \<and> (\<forall>k < i. net_daq_ips n' ! k \<noteq> [])
    \<and> net_subnet_mask n' = net_subnet_mask n \<and> net_gateway_ip n' = net_gateway_ip n
    \<and> net_gui_ip n' = net_gui_ip n \<and> net_head_ips n' = net_head_ips n \<and> net_simbox_ips n' = net_simbox_ips n"
  have "?Q DAQS n'"
  proof (rule efold_upt_invariant [OF assms(1)])
    show "?Q (Suc i) b" if "i < DAQS" "?Q i a" "init_daq decl i a = Inr b" for i a b
      using that by (auto simp: init_daq_def res_simps arrays_ok_def less_Suc_eq nth_list_update
          dest: setup_ip_nonempty)
  qed (use assms in simp)
  then show ?thesis by (auto simp: arrays_ok_def in_set_conv_nth)
qed

lemma init_network_ok:
  assumes "init_network decl n = Inr n'" and "arrays_ok n"
  shows "arrays_ok n' \<and> ips_nonempty n'"
proof -
  obtain mask gateway gui port n1 where ne: "mask \<noteq> []" "gateway \<noteq> []" "gui \<noteq> []"
    and sys: "efold (init_system decl) [0..<SYSTEMS] (n\<lparr>net_subnet_mask := mask, net_gateway_ip := gateway,
      net_gui_ip := gui, net_gui_baseport := port\<rparr>) = Inr n1"
    and daq: "efold (init_daq decl) [0..<DAQS] n1 = Inr n'"
    using assms(1) by (auto simp: init_network_def res_simps dest!: setup_ip_nonempty)
  have "arrays_ok (n\<lparr>net_subnet_mask := mask, net_gateway_ip := gateway, net_gui_ip := gui,
      net_gui_baseport := port\<rparr>)"
    using assms(2) by (simp add: arrays_ok_def)
  from init_systems [OF sys this] have n1: "arrays_ok n1"
      "\<forall>ip \<in> set (net_head_ips n1 @ net_simbox_ips n1). ip \<noteq> []"
      "net_subnet_mask n1 = mask" "net_gateway_ip n1 = gateway" "net_gui_ip n1 = gui"
    by auto
  from init_daqs [OF daq n1(1)] n1 ne show ?thesis
    by (auto simp: ips_nonempty_def)
qed

lemma init_table_commands: "init_table setup prefix m = Inr m' \<Longrightarrow> table_commands m' = table_commands m"
  unfolding init_table_def
  by (induction m arbitrary: m') (auto simp: res_simps table_commands_def split_def)

lemma at_index_Inr: "at_index xs i = Inr x \<Longrightarrow> 0 \<le> i \<and> i < int (length xs)"
  by (auto simp: at_index_def split: if_splits)

lemma init_validated: "Parameters_init decl P = Inr P' \<Longrightarrow> \<exists>Q. P' = validate_control_mode Q"
  by (auto simp: Parameters_init_def Let_def ebind_eq_Inr)

lemma init_commands:
  assumes "Parameters_init decl P = Inr P'"
  shows "all_commands P' = all_commands P"
proof -
  obtain ts mode sn n si sp hf hi Q where
    si: "init_table (setup_int decl) ''sim_commands.'' (sim_int_params (sim_commands P)) = Inr si"
    and sp: "init_table (setup_string decl) ''sim_commands.'' (sim_ip_params (sim_commands P)) = Inr sp"
    and hf: "init_table (setup_float decl) ''head_commands.'' (head_float_params (head_commands P)) = Inr hf"
    and hi: "init_table (setup_int decl) ''head_commands.'' (head_int_params (head_commands P)) = Inr hi"
    and Q: "Q = \<lparr>network = n, control_mode = mode, sonar = sn, topics = ts,
        sim_commands = \<lparr>sim_int_params = si, sim_ip_params = sp\<rparr>,
        head_commands = \<lparr>head_float_params = hf, head_int_params = hi\<rparr>\<rparr>"
    and P': "P' = validate_control_mode Q"
    using assms by (auto simp: Parameters_init_def Let_def ebind_eq_Inr)
  show ?thesis
    using init_table_commands [OF si] init_table_commands [OF sp] init_table_commands [OF hf]
      init_table_commands [OF hi]
    by (simp add: P' validate_control_mode_def Q all_commands_def)
qed


section \<open>A node with one command\<close>

definition sample_params :: Parameters where
  "sample_params = \<lparr>network = network0, control_mode = True, sonar = sonar0, topics = topics0,
     sim_commands = \<lparr>sim_int_params = [(''status_data'', ''STM0'', 3)],
                     sim_ip_params = [(''svp_ip_addr'', ''IPS0'', ''0.0.0.0'')]\<rparr>,
     head_commands = \<lparr>head_float_params = [], head_int_params = []\<rparr>\<rparr>"

lemma sample_params_ok: "tables_sorted sample_params" "arrays_ok (network sample_params)"
  "sim_ips_valid dotted_quad sample_params"
  by (simp_all add: tables_sorted_iff map_sorted_def sample_params_def arrays_ok_def network0_def
      SYSTEMS_def DAQS_def sim_ips_valid_def c_str_def dotted_quad_def octet_def)

text \<open>A batch of an accepted and an unknown parameter.\<close>

definition sample_batch :: "(string \<times> param_value) list" where
  "sample_batch = [(''sim_commands.status_data'', PInt 7), (''range'', PInt 1)]"

lemma sample_batch_result:
  "snd (onParameterUpdate dotted_quad (\<lambda>_. []) sample_batch sample_params)
   = sample_params\<lparr>sim_commands := (sim_commands sample_params)\<lparr>sim_int_params := [(''status_data'', ''STM0'', 7)]\<rparr>\<rparr>"
  "\<not> fst (fst (onParameterUpdate dotted_quad (\<lambda>_. []) sample_batch sample_params))"
  by (simp_all add: onParameterUpdate_def sample_batch_def update_step_def update_param_def starts_with_def
      update_sim_def sample_params_def map_find_def as_int_def to_int_def)


lemma topics_validated: "topics (validate_control_mode P) = topics P"
  by (simp add: validate_control_mode_def)

lemma sample_init:
  "\<exists>P'. Parameters_init (\<lambda>_ v. Inr v) sample_params = Inr P'
    \<and> topic_detections (topics P') \<noteq> [] \<and> topic_bth0 (topics P') \<noteq> []
    \<and> topic_acoustic_image (topics P') \<noteq> []"
  by (simp add: topics_validated Parameters_init_def Let_def init_topics_def topics0_def setup_string_def setup_bool_def init_sonar_def
      setup_int_def setup_ip_def init_network_def init_table_def init_summary_def getHeadIp_def
      getHeadBaseport_def getSimIp_def getSimBaseport_def at_index_def sample_params_def network0_def
      sonar0_def SYSTEMS_def DAQS_def init_system_def init_daq_def to_int_def upt_rec numeral_eq_Suc)


end
