(* ===== verification/ParameterSpec.thy ===== *)
theory ParameterSpec
  imports ParameterRules
begin

text \<open>
  What a batch of parameter updates means: every entry of the command tables takes the value of the
  last update of its name that has a value of its type, and keeps its own if there is none. The
  callback, with its rejections and its exceptions, computes exactly this.
\<close>

section \<open>The meaning of a batch\<close>

text \<open>The values a table accepts.\<close>

definition read_int :: "param_value \<Rightarrow> int option" where
  "read_int v = (case v of PInt i \<Rightarrow> Some (to_int i) | _ \<Rightarrow> None)"

definition read_float :: "param_value \<Rightarrow> u32 option" where
  "read_float v = (case v of PDouble d \<Rightarrow> Some (f32_of_f64 d) | _ \<Rightarrow> None)"

definition read_address :: "inet_pton \<Rightarrow> param_value \<Rightarrow> string option" where
  "read_address pton v = (case v of PString s \<Rightarrow> if pton (c_str s) \<noteq> None then Some s else None | _ \<Rightarrow> None)"

text \<open>One entry, and a whole table, after a batch.\<close>

definition set_value :: "(param_value \<Rightarrow> 'v option) \<Rightarrow> string \<Rightarrow> (string \<times> param_value) list \<Rightarrow> 'v \<Rightarrow> 'v" where
  "set_value read name ps v =
     fold (\<lambda>(n, x) v. if n = name then (case read x of Some w \<Rightarrow> w | None \<Rightarrow> v) else v) ps v"

definition set_table :: "(param_value \<Rightarrow> 'v option) \<Rightarrow> string \<Rightarrow> (string \<times> param_value) list
    \<Rightarrow> (string, string \<times> 'v) std_map \<Rightarrow> (string, string \<times> 'v) std_map" where
  "set_table read prefix ps m = map (\<lambda>(key, cmd, v). (key, cmd, set_value read (prefix @ key) ps v)) m"

definition set_parameters :: "inet_pton \<Rightarrow> (string \<times> param_value) list \<Rightarrow> Parameters \<Rightarrow> Parameters" where
  "set_parameters pton ps P =
     P\<lparr>sim_commands := \<lparr>sim_int_params = set_table read_int ''sim_commands.'' ps (sim_int_params (sim_commands P)),
          sim_ip_params = set_table (read_address pton) ''sim_commands.'' ps (sim_ip_params (sim_commands P))\<rparr>,
       head_commands := \<lparr>head_float_params = set_table read_float ''head_commands.'' ps (head_float_params (head_commands P)),
          head_int_params = set_table read_int ''head_commands.'' ps (head_int_params (head_commands P))\<rparr>\<rparr>"

text \<open>No name is in both tables of a device: the callback would look into the first only.\<close>

definition tables_disjoint :: "Parameters \<Rightarrow> bool" where
  "tables_disjoint P \<longleftrightarrow>
     fst ` set (sim_int_params (sim_commands P)) \<inter> fst ` set (sim_ip_params (sim_commands P)) = {}
   \<and> fst ` set (head_float_params (head_commands P)) \<inter> fst ` set (head_int_params (head_commands P)) = {}"

section \<open>One update\<close>

lemma set_value_simps [simp]:
  "set_value read name [] v = v" "set_value read name (ps @ qs) v = set_value read name qs (set_value read name ps v)"
  "set_value read name [(n, x)] v = (if n = name then (case read x of Some w \<Rightarrow> w | None \<Rightarrow> v) else v)"
  by (simp_all add: set_value_def)

lemma set_table_frame:
  "map fst (set_table read prefix ps m) = map fst m" "fst ` set (set_table read prefix ps m) = fst ` set m"
  "table_commands (set_table read prefix ps m) = table_commands m"
  by (force simp: set_table_def table_commands_def split_def image_image)+

lemma set_table_append:
  "set_table read prefix (ps @ qs) m = set_table read prefix qs (set_table read prefix ps m)"
  by (simp add: set_table_def split_def)

lemma set_table_id:
  assumes "\<And>key cmd v. (key, cmd, v) \<in> set m \<Longrightarrow> set_value read (prefix @ key) ps v = v"
  shows "set_table read prefix ps m = m"
  unfolding set_table_def by (rule map_idI) (auto simp: assms)

lemma set_table_put:
  assumes "map_sorted m" and "map_find key m = Some (cmd, w)" and "read x = Some v"
  shows "set_table read prefix [(prefix @ key, x)] m = map_put key (cmd, v) m"
  using assms(1,2)
proof (induction m)
  case Nil
  then show ?case by (simp add: map_find_def)
next
  case (Cons e m)
  obtain k c u where e: "e = (k, c, u)" by (cases e)
  have above: "k < k'" if "k' \<in> fst ` set m" for k' using Cons.prems(1) that by (auto simp: map_sorted_def e)
  have m: "map_sorted m" using Cons.prems(1) by (simp add: map_sorted_def)
  show ?case
  proof (cases "key = k")
    case True
    have "set_table read prefix [(prefix @ key, x)] m = m"
      by (rule set_table_id) (use above True in force)
    then show ?thesis using True Cons.prems(2) assms(3) by (simp add: e map_find_def set_table_def)
  next
    case False
    then have f: "map_find key m = Some (cmd, w)" using Cons.prems(2) by (simp add: e map_find_def)
    then have "key \<in> fst ` set m" by (force simp: map_find_def dest: map_of_SomeD)
    then have "k < key" by (rule above)
    with Cons.IH [OF m f] False show ?thesis by (auto simp: e set_table_def)
  qed
qed

lemma set_parameters_append: "set_parameters pton (ps @ qs) P = set_parameters pton qs (set_parameters pton ps P)"
  by (simp add: set_parameters_def set_table_append)

lemma set_parameters_frame:
  "all_commands (set_parameters pton ps P) = all_commands P" "tables_disjoint (set_parameters pton ps P) = tables_disjoint P"
  by (simp_all add: set_parameters_def all_commands_def set_table_frame tables_disjoint_def)

lemma starts_with_name: "starts_with prefix name \<Longrightarrow> name = prefix @ drop (length prefix) name"
  unfolding starts_with_def by (metis append_take_drop_id)

lemma other_names [simp]:
  "''sim_commands.'' @ key \<noteq> ''head_commands.'' @ key'" "''head_commands.'' @ key \<noteq> ''sim_commands.'' @ key'"
  "\<not> starts_with ''sim_commands.'' (''head_commands.'' @ key)"
  "starts_with ''sim_commands.'' (''sim_commands.'' @ key)" "starts_with ''head_commands.'' (''head_commands.'' @ key)"
  by (simp_all add: starts_with_def)

lemma find_key: "map_find key m = Some e \<Longrightarrow> key \<in> fst ` set m" "map_find key m = None \<Longrightarrow> key \<notin> fst ` set m"
  by (force simp: map_find_def map_of_eq_None_iff dest: map_of_SomeD)+

text \<open>A table that does not have the name, or does not take the value, stays as it is.\<close>

lemma set_table_unread: "read x = None \<Longrightarrow> set_table read prefix [(name, x)] m = m"
  by (rule set_table_id) simp

lemma set_table_missing: "key \<notin> fst ` set m \<Longrightarrow> set_table read prefix [(prefix @ key, x)] m = m"
  by (rule set_table_id) force

lemma set_table_foreign: "(\<And>key. prefix @ key \<noteq> name) \<Longrightarrow> set_table read prefix [(name, x)] m = m"
  by (rule set_table_id) (metis set_value_simps(3))

lemma sim_applied:
  assumes sorted: "map_sorted (sim_int_params S)" "map_sorted (sim_ip_params S)"
    and disjoint: "fst ` set (sim_int_params S) \<inter> fst ` set (sim_ip_params S) = {}"
  shows "(case update_sim pton what name key x S of Inr (None, S') \<Rightarrow> S' | _ \<Rightarrow> S)
    = \<lparr>sim_int_params = set_table read_int p [(p @ key, x)] (sim_int_params S),
       sim_ip_params = set_table (read_address pton) p [(p @ key, x)] (sim_ip_params S)\<rparr>"
proof (cases "map_find key (sim_int_params S)")
  case (Some e)
  obtain cmd w where e: "e = (cmd, w)" by (cases e)
  have "key \<notin> fst ` set (sim_ip_params S)" using find_key(1) [OF Some] disjoint by blast
  note ip = set_table_missing [OF this]
  show ?thesis
  proof (cases x)
    case (PInt i)
    then have "read_int x = Some (to_int i)" by (simp add: read_int_def)
    from set_table_put [where read = read_int, OF sorted(1) Some [unfolded e] this, of p] show ?thesis
      by (simp add: update_sim_def Some e PInt as_int_def ip)
  qed (use ip in \<open>simp_all add: update_sim_def Some e as_int_def set_table_unread read_int_def\<close>)
next
  case None
  note int = set_table_missing [OF find_key(2) [OF None]]
  show ?thesis
  proof (cases "map_find key (sim_ip_params S)")
    case no_ip: None
    show ?thesis
      by (simp add: update_sim_def None no_ip int set_table_missing [OF find_key(2) [OF no_ip]])
  next
    case (Some e)
    obtain cmd w where e: "e = (cmd, w)" by (cases e)
    show ?thesis
    proof (cases "\<exists>s. x = PString s \<and> pton (c_str s) \<noteq> None")
      case True
      then obtain s bs where s: "x = PString s" "pton (c_str s) = Some bs" by auto
      then have "read_address pton x = Some s" by (simp add: read_address_def)
      from set_table_put [where read = "read_address pton", OF sorted(2) Some [unfolded e] this, of p] show ?thesis
        using s by (simp add: update_sim_def None Some e as_string_def ip_str_to_u32_def int)
    next
      case False
      then have "read_address pton x = None" by (cases x) (simp_all add: read_address_def)
      with False show ?thesis
        by (cases x) (simp_all add: update_sim_def None Some e as_string_def ip_str_to_u32_def int set_table_unread)
    qed
  qed
qed

lemma head_applied:
  assumes sorted: "map_sorted (head_float_params H)" "map_sorted (head_int_params H)"
    and disjoint: "fst ` set (head_float_params H) \<inter> fst ` set (head_int_params H) = {}"
  shows "(case update_head name key x H of Inr (None, H') \<Rightarrow> H' | _ \<Rightarrow> H)
    = \<lparr>head_float_params = set_table read_float p [(p @ key, x)] (head_float_params H),
       head_int_params = set_table read_int p [(p @ key, x)] (head_int_params H)\<rparr>"
proof (cases "map_find key (head_float_params H)")
  case (Some e)
  obtain cmd w where e: "e = (cmd, w)" by (cases e)
  have "key \<notin> fst ` set (head_int_params H)" using find_key(1) [OF Some] disjoint by blast
  note int = set_table_missing [OF this]
  show ?thesis
  proof (cases x)
    case (PDouble d)
    then have "read_float x = Some (f32_of_f64 d)" by (simp add: read_float_def)
    from set_table_put [where read = read_float, OF sorted(1) Some [unfolded e] this, of p] show ?thesis
      by (simp add: update_head_def Some e PDouble as_double_def int)
  qed (use int in \<open>simp_all add: update_head_def Some e as_double_def set_table_unread read_float_def\<close>)
next
  case None
  note float = set_table_missing [OF find_key(2) [OF None]]
  show ?thesis
  proof (cases "map_find key (head_int_params H)")
    case no_int: None
    show ?thesis
      by (simp add: update_head_def None no_int float set_table_missing [OF find_key(2) [OF no_int]])
  next
    case (Some e)
    obtain cmd w where e: "e = (cmd, w)" by (cases e)
    show ?thesis
    proof (cases x)
      case (PInt i)
      then have "read_int x = Some (to_int i)" by (simp add: read_int_def)
      from set_table_put [where read = read_int, OF sorted(2) Some [unfolded e] this, of p] show ?thesis
        by (simp add: update_head_def None Some e PInt as_int_def float)
    qed (simp_all add: update_head_def None Some e as_int_def float set_table_unread read_int_def)
  qed
qed

lemma applied_sim_name:
  "applied pton what (''sim_commands.'' @ key, x) P = P\<lparr>sim_commands :=
     (case update_sim pton what (''sim_commands.'' @ key) key x (sim_commands P) of Inr (None, S') \<Rightarrow> S' | _ \<Rightarrow> sim_commands P)\<rparr>"
proof -
  have "update_param pton what (''sim_commands.'' @ key, x) P
      = ebind (update_sim pton what (''sim_commands.'' @ key) key x (sim_commands P)) (\<lambda>(r, S). Inr (r, P\<lparr>sim_commands := S\<rparr>))"
    by (simp add: update_param_def starts_with_def)
  then show ?thesis
    unfolding applied_def by (cases "update_sim pton what (''sim_commands.'' @ key) key x (sim_commands P)")
      (auto split: option.split)
qed

lemma applied_head_name:
  "applied pton what (''head_commands.'' @ key, x) P = P\<lparr>head_commands :=
     (case update_head (''head_commands.'' @ key) key x (head_commands P) of Inr (None, H') \<Rightarrow> H' | _ \<Rightarrow> head_commands P)\<rparr>"
proof -
  have "update_param pton what (''head_commands.'' @ key, x) P
      = ebind (update_head (''head_commands.'' @ key) key x (head_commands P)) (\<lambda>(r, H). Inr (r, P\<lparr>head_commands := H\<rparr>))"
    by (simp add: update_param_def starts_with_def)
  then show ?thesis
    unfolding applied_def by (cases "update_head (''head_commands.'' @ key) key x (head_commands P)")
      (auto split: option.split)
qed

lemma applied_one:
  assumes sorted: "tables_sorted P" and disjoint: "tables_disjoint P"
  shows "applied pton what p P = set_parameters pton [p] P"
proof -
  obtain name x where p: "p = (name, x)" by (cases p)
  have S: "map_sorted (sim_int_params (sim_commands P))" "map_sorted (sim_ip_params (sim_commands P))"
      "map_sorted (head_float_params (head_commands P))" "map_sorted (head_int_params (head_commands P))"
    using sorted by (simp_all add: tables_sorted_iff)
  have D: "fst ` set (sim_int_params (sim_commands P)) \<inter> fst ` set (sim_ip_params (sim_commands P)) = {}"
      "fst ` set (head_float_params (head_commands P)) \<inter> fst ` set (head_int_params (head_commands P)) = {}"
    using disjoint by (simp_all add: tables_disjoint_def)
  consider (sim) key where "name = ''sim_commands.'' @ key" | (head) key where "name = ''head_commands.'' @ key"
    | (none) "\<not> starts_with ''sim_commands.'' name" "\<not> starts_with ''head_commands.'' name"
    using starts_with_name by metis
  then show ?thesis
  proof cases
    case sim
    have "\<And>k. ''head_commands.'' @ k \<noteq> name" by (simp add: sim)
    note other = set_table_foreign [OF this]
    show ?thesis
      unfolding p sim applied_sim_name sim_applied [OF S(1,2) D(1), where p = "''sim_commands.''"] set_parameters_def
        other [unfolded sim] by simp
  next
    case head
    have "\<And>k. ''sim_commands.'' @ k \<noteq> name" by (simp add: head)
    note other = set_table_foreign [OF this]
    show ?thesis
      unfolding p head applied_head_name head_applied [OF S(3,4) D(2), where p = "''head_commands.''"] set_parameters_def
        other [unfolded head] by simp
  next
    case none
    then have "\<And>k. ''sim_commands.'' @ k \<noteq> name" "\<And>k. ''head_commands.'' @ k \<noteq> name"
      by (auto simp: starts_with_def)
    note other = this [THEN set_table_foreign]
    have "applied pton what p P = P" using none by (simp add: applied_def update_param_def p)
    then show ?thesis unfolding p set_parameters_def other by simp
  qed
qed

lemma batch_applied: "snd (onParameterUpdate pton what ps P) = fold (applied pton what) ps P"
proof -
  have "snd (fold (update_step pton what) ps s) = fold (applied pton what) ps (snd s)" for s
    by (induction ps arbitrary: s) (simp_all add: update_step_applied)
  then show ?thesis by (simp add: onParameterUpdate_def)
qed

lemma batch_set:
  assumes "tables_sorted P" and "tables_disjoint P"
  shows "snd (onParameterUpdate pton what ps P) = set_parameters pton ps P"
proof -
  have "fold (applied pton what) ps P = set_parameters pton ps P"
    using assms
  proof (induction ps arbitrary: P)
    case Nil
    show ?case by (simp add: set_parameters_def set_table_id)
  next
    case (Cons p ps)
    let ?Q = "set_parameters pton [p] P"
    have "tables_sorted ?Q" "tables_disjoint ?Q"
      using Cons.prems by (simp_all add: tables_sorted_def set_parameters_frame)
    with Cons.IH [of ?Q] show ?case
      using set_parameters_append [of pton "[p]" ps P] applied_one [OF Cons.prems] by simp
  qed
  then show ?thesis by (simp add: batch_applied)
qed

section \<open>Which updates are accepted\<close>

text \<open>The name of an entry, with a value of the entry's type; for an address, one that parses.\<close>

definition acceptable :: "inet_pton \<Rightarrow> Parameters \<Rightarrow> string \<times> param_value \<Rightarrow> bool" where
  "acceptable pton P p = (case p of (name, x) \<Rightarrow>
     name \<in> (@) ''sim_commands.'' ` fst ` set (sim_int_params (sim_commands P)) \<and> read_int x \<noteq> None
   \<or> name \<in> (@) ''sim_commands.'' ` fst ` set (sim_ip_params (sim_commands P)) \<and> read_address pton x \<noteq> None
   \<or> name \<in> (@) ''head_commands.'' ` fst ` set (head_float_params (head_commands P)) \<and> read_float x \<noteq> None
   \<or> name \<in> (@) ''head_commands.'' ` fst ` set (head_int_params (head_commands P)) \<and> read_int x \<noteq> None)"

lemma find_key_iff: "(\<exists>e. map_find key m = Some e) \<longleftrightarrow> key \<in> fst ` set m"
  using find_key [of key m] by (cases "map_find key m") auto

lemma update_sim_accepts:
  assumes "fst ` set (sim_int_params S) \<inter> fst ` set (sim_ip_params S) = {}"
  shows "(\<exists>S'. update_sim pton what name key x S = Inr (None, S')) \<longleftrightarrow>
    key \<in> fst ` set (sim_int_params S) \<and> read_int x \<noteq> None
    \<or> key \<in> fst ` set (sim_ip_params S) \<and> read_address pton x \<noteq> None"
proof (cases "map_find key (sim_int_params S)")
  case (Some e)
  then have "key \<in> fst ` set (sim_int_params S)" "key \<notin> fst ` set (sim_ip_params S)"
    using find_key(1) [OF Some] assms by blast+
  then show ?thesis by (cases e; cases x) (simp_all add: update_sim_def Some as_int_def read_int_def)
next
  case None
  note no_int = find_key(2) [OF None]
  show ?thesis
  proof (cases "map_find key (sim_ip_params S)")
    case no_ip: None
    then show ?thesis using no_int find_key(2) [OF no_ip] by (simp add: update_sim_def None)
  next
    case (Some e)
    then show ?thesis using no_int find_key(1) [OF Some]
      by (cases e; cases x) (auto simp: update_sim_def None as_string_def read_address_def ip_str_to_u32_def split: option.splits)
  qed
qed

lemma update_head_accepts:
  assumes "fst ` set (head_float_params H) \<inter> fst ` set (head_int_params H) = {}"
  shows "(\<exists>H'. update_head name key x H = Inr (None, H')) \<longleftrightarrow>
    key \<in> fst ` set (head_float_params H) \<and> read_float x \<noteq> None
    \<or> key \<in> fst ` set (head_int_params H) \<and> read_int x \<noteq> None"
proof (cases "map_find key (head_float_params H)")
  case (Some e)
  then have "key \<in> fst ` set (head_float_params H)" "key \<notin> fst ` set (head_int_params H)"
    using find_key(1) [OF Some] assms by blast+
  then show ?thesis by (cases e; cases x) (simp_all add: update_head_def Some as_double_def read_float_def)
next
  case None
  note no_float = find_key(2) [OF None]
  show ?thesis
  proof (cases "map_find key (head_int_params H)")
    case no_int: None
    then show ?thesis using no_float find_key(2) [OF no_int] by (simp add: update_head_def None)
  next
    case (Some e)
    then show ?thesis using no_float find_key(1) [OF Some]
      by (cases e; cases x) (simp_all add: update_head_def None as_int_def read_int_def)
  qed
qed

lemma prefixed_iff: "prefix @ key \<in> (@) prefix ` S \<longleftrightarrow> key \<in> S"
  by auto

lemma accepted_one:
  assumes "tables_disjoint P"
  shows "accepted pton what p P = acceptable pton P p"
proof -
  obtain name x where p: "p = (name, x)" by (cases p)
  have D: "fst ` set (sim_int_params (sim_commands P)) \<inter> fst ` set (sim_ip_params (sim_commands P)) = {}"
      "fst ` set (head_float_params (head_commands P)) \<inter> fst ` set (head_int_params (head_commands P)) = {}"
    using assms by (simp_all add: tables_disjoint_def)
  have ok: "(case ebind r (\<lambda>(a, S). Inr (a, f S)) of Inr (None, _) \<Rightarrow> True | _ \<Rightarrow> False) \<longleftrightarrow> (\<exists>S. r = Inr (None, S))"
    for r :: "(string option \<times> 'a) res" and f :: "'a \<Rightarrow> Parameters"
    by (cases r) (auto split: option.splits)
  consider (sim) key where "name = ''sim_commands.'' @ key" | (head) key where "name = ''head_commands.'' @ key"
    | (none) "\<not> starts_with ''sim_commands.'' name" "\<not> starts_with ''head_commands.'' name"
    using starts_with_name by metis
  then show ?thesis
  proof cases
    case sim
    have foreign: "''sim_commands.'' @ key \<notin> (@) ''head_commands.'' ` S" for S :: "string set"
      using other_names by blast
    have "update_param pton what (''sim_commands.'' @ key, x) P
        = ebind (update_sim pton what (''sim_commands.'' @ key) key x (sim_commands P)) (\<lambda>(r, S). Inr (r, P\<lparr>sim_commands := S\<rparr>))"
      by (simp add: update_param_def starts_with_def)
    then have "accepted pton what p P \<longleftrightarrow> (\<exists>S. update_sim pton what (''sim_commands.'' @ key) key x (sim_commands P) = Inr (None, S))"
      unfolding accepted_def p sim by (simp only: ok)
    then show ?thesis
      unfolding update_sim_accepts [OF D(1)] acceptable_def p sim prod.case prefixed_iff using foreign by simp
  next
    case head
    have foreign: "''head_commands.'' @ key \<notin> (@) ''sim_commands.'' ` S" for S :: "string set"
      using other_names by blast
    have "update_param pton what (''head_commands.'' @ key, x) P
        = ebind (update_head (''head_commands.'' @ key) key x (head_commands P)) (\<lambda>(r, H). Inr (r, P\<lparr>head_commands := H\<rparr>))"
      by (simp add: update_param_def starts_with_def)
    then have "accepted pton what p P \<longleftrightarrow> (\<exists>H. update_head (''head_commands.'' @ key) key x (head_commands P) = Inr (None, H))"
      unfolding accepted_def p head by (simp only: ok)
    then show ?thesis
      unfolding update_head_accepts [OF D(2)] acceptable_def p head prod.case prefixed_iff using foreign by simp
  next
    case none
    have "name \<notin> (@) ''sim_commands.'' ` S" "name \<notin> (@) ''head_commands.'' ` S" for S :: "string set"
      using none other_names(4,5) by blast+
    then show ?thesis using none by (simp add: accepted_def update_param_def acceptable_def p)
  qed
qed

lemma acceptable_frame: "acceptable pton (set_parameters pton' ps P) p = acceptable pton P p"
  unfolding acceptable_def set_parameters_def by (simp add: set_table_frame)

lemma batch_accepted:
  assumes "tables_sorted P" and "tables_disjoint P"
  shows "fst (fst (onParameterUpdate pton what ps P)) \<longleftrightarrow> (\<forall>p \<in> set ps. acceptable pton P p)"
proof -
  have "accepted pton what p (fold (applied pton what) (take i ps) P) = acceptable pton P p" for i p
  proof -
    have "fold (applied pton what) (take i ps) P = set_parameters pton (take i ps) P"
      using batch_set [OF assms, of pton what "take i ps"] by (simp add: batch_applied)
    then show ?thesis using accepted_one [of "set_parameters pton (take i ps) P"] assms(2)
      by (simp add: set_parameters_frame acceptable_frame)
  qed
  then show ?thesis
    using batch_outcome [of pton what ps P] by (simp add: all_set_conv_all_nth)
qed

text \<open>
  C20: the callback computes the meaning of a batch: after it every entry of the command tables has
  the value of the last update of its name that was acceptable (of the entry's type, and for an
  address one that parses), or else the value it had; nothing else of the parameters changes. It
  reports success exactly when every update names an entry and is acceptable; a batch that is
  rejected is not undone: the updates that are rejected and the ones that throw do not matter to
  the others, wherever they stand.
\<close>

theorem updates_set_parameters:
  assumes "tables_sorted P" and "tables_disjoint P"
  shows "snd (onParameterUpdate pton what ps P) = set_parameters pton ps P
    \<and> (fst (fst (onParameterUpdate pton what ps P)) \<longleftrightarrow> (\<forall>p \<in> set ps. acceptable pton P p))"
  using batch_set [OF assms] batch_accepted [OF assms] by blast

theorem updates_set_parameters_witness:
  "set_parameters dotted_quad (sample_batch @ [(''sim_commands.status_data'', PString ''8'')]) sample_params
     = snd (onParameterUpdate dotted_quad (\<lambda>_. []) (sample_batch @ [(''sim_commands.status_data'', PString ''8'')]) sample_params)
   \<and> sim_int_params (sim_commands (set_parameters dotted_quad (sample_batch @ [(''sim_commands.status_data'', PString ''8'')])
        sample_params)) = [(''status_data'', ''STM0'', 7)]
   \<and> fst (fst (onParameterUpdate dotted_quad (\<lambda>_. []) [(''sim_commands.status_data'', PInt 7)] sample_params))
   \<and> \<not> fst (fst (onParameterUpdate dotted_quad (\<lambda>_. []) (sample_batch @ [(''sim_commands.status_data'', PString ''8'')]) sample_params))"
proof -
  have "tables_disjoint sample_params" by (simp add: tables_disjoint_def sample_params_def)
  note claim = updates_set_parameters [OF sample_params_ok(1) this]
  show ?thesis
    using claim [of dotted_quad "\<lambda>_. []" "sample_batch @ [(''sim_commands.status_data'', PString ''8'')]"]
      claim [of dotted_quad "\<lambda>_. []" "[(''sim_commands.status_data'', PInt 7)]"]
    by (simp add: set_parameters_def set_table_def sample_params_def sample_batch_def read_int_def to_int_def set_value_def
        acceptable_def)
qed

end
