(* ===== verification/Commands.thy ===== *)
theory Commands
  imports Sections
begin

text \<open>
  \<open>packets/cmd_packet.hpp\<close>: a command is a 4-character name and a 32-bit big-endian value, a
  command packet is the name \<open>CMD0\<close> and the commands in the order they were appended.
\<close>

section \<open>Commands\<close>

text \<open>The two members of \<open>CmdVariant\<close>; a float value is carried as its bits.\<close>

datatype CmdVariant =
    IntCmd (cmd_name: "u8 list") BE_u32
  | FloatCmd (cmd_name: "u8 list") BE_f32

text \<open>\<open>std::strlen\<close> of a string passed as \<open>c_str()\<close>.\<close>

definition strlen :: "string \<Rightarrow> nat" where
  "strlen s = length (takeWhile (\<lambda>b. b \<noteq> 0) (str_bytes s))"

text \<open>The constructor template \<open>Cmd<T>::Cmd\<close>, for a name, a value and the conversion to \<open>T\<close>.\<close>

definition mk_Cmd :: "(u8 list \<Rightarrow> 'v \<Rightarrow> CmdVariant) \<Rightarrow> string \<Rightarrow> 'v \<Rightarrow> CmdVariant res" where
  "mk_Cmd con s v =
     (if strlen s \<noteq> 4 then Inl (InvalidArgument ''Command name must be exactly 4 characters.'')
      else Inr (con (take 4 (str_bytes s)) v))"

definition mk_IntCmd :: "string \<Rightarrow> int \<Rightarrow> CmdVariant res" where
  "mk_IntCmd s i = mk_Cmd IntCmd s (assign_int i)"

definition mk_FloatCmd :: "string \<Rightarrow> u32 \<Rightarrow> CmdVariant res" where
  "mk_FloatCmd s f = mk_Cmd FloatCmd s (set_be f)"

section \<open>Command packets\<close>

record CmdSet =
  packet_name :: "u8 list"
  commands :: "CmdVariant list"

definition new_CmdSet :: CmdSet where
  "new_CmdSet = \<lparr>packet_name = str_bytes ''CMD0'', commands = []\<rparr>"

definition append_cmd :: "CmdVariant \<Rightarrow> CmdSet \<Rightarrow> CmdSet" where
  "append_cmd c p = p\<lparr>commands := commands p @ [c]\<rparr>"

fun cmd_bytes :: "CmdVariant \<Rightarrow> u8 list" where
  "cmd_bytes (IntCmd n v) = n @ be_mem v"
| "cmd_bytes (FloatCmd n v) = n @ be_mem v"

definition serialize_CmdSet :: "CmdSet \<Rightarrow> u8 list" where
  "serialize_CmdSet p = packet_name p @ concat (map cmd_bytes (commands p))"

section \<open>Reading a command packet back\<close>

text \<open>The value of a command as the device reads it: 32 bits, whatever their meaning.\<close>

fun cmd_value :: "CmdVariant \<Rightarrow> u32" where
  "cmd_value (IntCmd n v) = get v"
| "cmd_value (FloatCmd n v) = get v"

fun parse_cmds :: "u8 list \<Rightarrow> (u8 list \<times> u32) list option" where
  "parse_cmds [] = Some []"
| "parse_cmds (a # b # c # d # e # f # g # h # bs) =
     map_option (\<lambda>r. ([a, b, c, d], get (be_of_mem [e, f, g, h])) # r) (parse_cmds bs)"
| "parse_cmds _ = None"

definition parse_CmdSet :: "u8 list \<Rightarrow> (u8 list \<times> u32) list option" where
  "parse_CmdSet bs = (if take 4 bs = str_bytes ''CMD0'' then parse_cmds (drop 4 bs) else None)"

definition cmds_ok :: "CmdSet \<Rightarrow> bool" where
  "cmds_ok p \<longleftrightarrow> packet_name p = str_bytes ''CMD0'' \<and> (\<forall>c \<in> set (commands p). length (cmd_name c) = 4)"

lemma cmds_ok_new [simp]: "cmds_ok new_CmdSet"
  by (simp add: cmds_ok_def new_CmdSet_def)

lemma cmds_ok_append: "cmds_ok p \<Longrightarrow> length (cmd_name c) = 4 \<Longrightarrow> cmds_ok (append_cmd c p)"
  by (auto simp: cmds_ok_def append_cmd_def)

lemma length_takeWhile_take: "length (takeWhile P xs) = n \<Longrightarrow> take n xs = takeWhile P xs"
  by (metis takeWhile_eq_take)

lemma mk_Cmd_name:
  assumes "mk_Cmd con s v = Inr c" and "\<And>n v. cmd_name (con n v) = n"
  shows "length (cmd_name c) = 4"
proof -
  have "strlen s = 4" and c: "c = con (take 4 (str_bytes s)) v"
    using assms(1) by (auto simp: mk_Cmd_def split: if_splits)
  then have "4 \<le> length (str_bytes s)"
    unfolding strlen_def by (metis length_takeWhile_le)
  then show ?thesis by (simp add: c assms(2))
qed

text \<open>A command exists only with a name of 4 characters.\<close>

lemma cmd_name_length:
  "mk_IntCmd s i = Inr c \<Longrightarrow> length (cmd_name c) = 4"
  "mk_FloatCmd s f = Inr c \<Longrightarrow> length (cmd_name c) = 4"
  using mk_Cmd_name [of IntCmd s "assign_int i" c] mk_Cmd_name [of FloatCmd s "set_be f" c]
  by (simp_all add: mk_IntCmd_def mk_FloatCmd_def)

lemma length_cmd_bytes: "length (cmd_name c) = 4 \<Longrightarrow> length (cmd_bytes c) = 8"
  by (cases c) simp_all

lemma parse_cmds_step:
  assumes "length n = 4" and "length v = 4"
  shows "parse_cmds (n @ v @ bs) = map_option (\<lambda>r. (n, get (be_of_mem v)) # r) (parse_cmds bs)"
proof -
  obtain a b c d where n: "n = [a, b, c, d]"
    using assms(1) by (auto simp: length_Suc_conv numeral_eq_Suc)
  obtain e f g h where v: "v = [e, f, g, h]"
    using assms(2) by (auto simp: length_Suc_conv numeral_eq_Suc)
  show ?thesis by (simp add: n v)
qed

lemma parse_cmd_bytes:
  "length (cmd_name c) = 4 \<Longrightarrow>
   parse_cmds (cmd_bytes c @ bs) = map_option (\<lambda>r. (cmd_name c, cmd_value c) # r) (parse_cmds bs)"
  by (cases c) (simp_all add: parse_cmds_step)

lemma parse_commands:
  "\<forall>c \<in> set cs. length (cmd_name c) = 4 \<Longrightarrow>
   parse_cmds (concat (map cmd_bytes cs)) = Some (map (\<lambda>c. (cmd_name c, cmd_value c)) cs)"
  by (induction cs) (simp_all add: parse_cmd_bytes)

lemma parse_serialize_CmdSet:
  "cmds_ok p \<Longrightarrow> parse_CmdSet (serialize_CmdSet p) = Some (map (\<lambda>c. (cmd_name c, cmd_value c)) (commands p))"
  by (simp add: parse_CmdSet_def serialize_CmdSet_def cmds_ok_def parse_commands str_bytes_def)

lemma length_serialize_CmdSet:
  "cmds_ok p \<Longrightarrow> length (serialize_CmdSet p) = 4 + 8 * length (commands p)"
  using length_concat_const [of "commands p" cmd_bytes 8]
  by (simp add: serialize_CmdSet_def cmds_ok_def str_bytes_def length_cmd_bytes)

end
