(* ===== verification/Control.thy ===== *)
theory Control
  imports ParameterSpec Commands
begin

text \<open>
  The control side of \<open>R2SonicNode\<close>: \<open>sendUdpMessage\<close>, \<open>sendNetworkConfig\<close>, \<open>send_sim_cmds\<close>,
  \<open>send_head_cmds\<close> and the timer callback \<open>send_cmds\<close>. An operation gives its result, or the
  exception it throws, with the datagrams it sent until then. Boost's address parser and the
  outcome of the socket calls are parameters.
\<close>

section \<open>Sending\<close>

record 'addr datagram =
  dest_addr :: 'addr
  dest_port :: u16
  broadcast :: bool
  payload :: "u8 list"

record 'addr udp_env =
  from_string :: "string \<Rightarrow> 'addr option"
  goes_out :: "'addr datagram \<Rightarrow> bool"    \<comment> \<open>\<open>open\<close>, \<open>set_option\<close> and \<open>send_to\<close> do not throw\<close>

type_synonym ('addr, 'a) sending = "'a res \<times> 'addr datagram list"

fun sbind :: "('addr, 'a) sending \<Rightarrow> ('a \<Rightarrow> ('addr, 'b) sending) \<Rightarrow> ('addr, 'b) sending" where
  "sbind (Inl e, w) f = (Inl e, w)"
| "sbind (Inr x, w) f = (case f x of (r, w') \<Rightarrow> (r, w @ w'))"

definition pure_res :: "'a res \<Rightarrow> ('addr, 'a) sending" where
  "pure_res r = (r, [])"

lemma sbind_pure [simp]:
  "sbind (pure_res (Inr x)) f = f x" "sbind (pure_res (Inl e)) f = (Inl e, [])"
  by (simp_all add: pure_res_def split_def)

text \<open>\<open>find\<close> of a substring.\<close>

fun contains :: "string \<Rightarrow> string \<Rightarrow> bool" where
  "contains p [] \<longleftrightarrow> p = []"
| "contains p (c # cs) \<longleftrightarrow> starts_with p (c # cs) \<or> contains p cs"

definition udp_datagram :: "'addr \<Rightarrow> u16 \<Rightarrow> string \<Rightarrow> u8 list \<Rightarrow> 'addr datagram" where
  "udp_datagram a port ip bytes = \<lparr>dest_addr = a, dest_port = port,
     broadcast = (ip = ''255.255.255.255'' \<or> contains ''255'' ip), payload = bytes\<rparr>"

text \<open>The address is parsed outside the \<open>try\<close>; everything after it is caught and reported by false.\<close>

definition sendUdpMessage ::
  "'addr udp_env \<Rightarrow> ('p \<Rightarrow> u8 list) \<Rightarrow> 'p \<Rightarrow> string \<Rightarrow> u16 \<Rightarrow> ('addr, bool) sending" where
  "sendUdpMessage env ser message destination_ip port =
     (case from_string env destination_ip of
        None \<Rightarrow> (Inl (SystemError destination_ip), [])
      | Some a \<Rightarrow>
          let d = udp_datagram a port destination_ip (ser message)
          in if goes_out env d then (Inr True, [d]) else (Inr False, []))"

section \<open>What a sendable packet provides\<close>

text \<open>
  The packet types \<open>sendUdpMessage\<close> is used at: their bytes determine what the device reads.
\<close>

locale serializable =
  fixes wf :: "'p \<Rightarrow> bool" and ser :: "'p \<Rightarrow> u8 list"
    and parse :: "u8 list \<Rightarrow> 'v" and meaning :: "'p \<Rightarrow> 'v"
  assumes parse_ser: "wf p \<Longrightarrow> parse (ser p) = meaning p"
begin

lemma sent:
  assumes "wf p" and "from_string env ip = Some a" and "goes_out env (udp_datagram a port ip (ser p))"
  shows "\<exists>d. sendUdpMessage env ser p ip port = (Inr True, [d]) \<and> parse (payload d) = meaning p
    \<and> dest_addr d = a \<and> dest_port d = port"
  using assms by (simp add: sendUdpMessage_def udp_datagram_def parse_ser)

lemma not_sent:
  "snd (sendUdpMessage env ser p ip port) = [] \<longleftrightarrow> fst (sendUdpMessage env ser p ip port) \<noteq> Inr True"
  by (auto simp: sendUdpMessage_def Let_def split: option.splits)

end

definition command_values :: "CmdSet \<Rightarrow> (u8 list \<times> u32) list option" where
  "command_values p = Some (map (\<lambda>c. (cmd_name c, cmd_value c)) (commands p))"

interpretation cmd_pkt: serializable cmds_ok serialize_CmdSet parse_CmdSet command_values
  by unfold_locales (simp add: parse_serialize_CmdSet command_values_def)

interpretation cfg_pkt: serializable R2DC_ok serialize_R2DC parse_R2DC "\<lambda>c. c"
  by unfold_locales (simp add: parse_serialize_R2DC)

section \<open>The network configuration\<close>

definition strncpy_bytes :: "nat \<Rightarrow> string \<Rightarrow> u8 list" where
  "strncpy_bytes n s = take n (str_bytes (c_str s) @ replicate n 0)"

definition config_system :: "inet_pton \<Rightarrow> network_params \<Rightarrow> nat \<Rightarrow> R2DC \<Rightarrow> R2DC res" where
  "config_system pton net i cfg =
     ebind (ip_be pton (c_str (net_head_ips net ! i))) (\<lambda>hip.
     ebind (ip_be pton (c_str (net_simbox_ips net ! i))) (\<lambda>sip.
     Inr (cfg\<lparr>head_ip := (head_ip cfg)[i := hip],
              head_baseport := (head_baseport cfg)[i := assign_int (net_head_baseports net ! i)],
              simbox_ip := (simbox_ip cfg)[i := sip],
              simbox_baseport := (simbox_baseport cfg)[i := assign_int (net_simbox_baseports net ! i)]\<rparr>)))"

definition config_daq :: "inet_pton \<Rightarrow> network_params \<Rightarrow> nat \<Rightarrow> R2DC \<Rightarrow> R2DC res" where
  "config_daq pton net i cfg =
     ebind (ip_be pton (c_str (net_daq_ips net ! i))) (\<lambda>dip.
     Inr (cfg\<lparr>daq_ip := (daq_ip cfg)[i := dip],
              daq_baseport := (daq_baseport cfg)[i := assign_int (net_daq_baseports net ! i)]\<rparr>))"

text \<open>The lambda \<open>make_config\<close>; \<open>mem\<close> are the bytes under the new packet's serial number.\<close>

definition make_config :: "inet_pton \<Rightarrow> u8 list \<Rightarrow> Parameters \<Rightarrow> string \<Rightarrow> R2DC res" where
  "make_config pton mem P serial =
     ebind (new_R2DC pton mem) (\<lambda>cfg.
     ebind (ip_be pton (c_str (net_subnet_mask (network P)))) (\<lambda>mask.
     ebind (ip_be pton (c_str (net_gateway_ip (network P)))) (\<lambda>gateway.
     ebind (ip_be pton (c_str (net_gui_ip (network P)))) (\<lambda>gui.
     ebind (efold (config_system pton (network P)) [0..<SYSTEMS]
       (cfg\<lparr>serial_number := strncpy_bytes 12 serial, subnet_mask := mask, gateway_ip := gateway,
            gui_ip := gui, gui_baseport := assign_int (net_gui_baseport (network P)),
            r2dc_system := assign_int (system_index (sonar P))\<rparr>)) (\<lambda>cfg.
     ebind (efold (config_daq pton (network P)) [0..<DAQS] cfg) (\<lambda>cfg.
     Inr (setConfigId cfg)))))))"

definition sendNetworkConfig ::
  "'addr udp_env \<Rightarrow> inet_pton \<Rightarrow> u8 list \<Rightarrow> Parameters \<Rightarrow> ('addr, unit) sending" where
  "sendNetworkConfig env pton mem P =
     sbind (pure_res (make_config pton mem P (head_serial (sonar P)))) (\<lambda>head_cfg.
     sbind (sendUdpMessage env serialize_R2DC head_cfg ''10.255.255.255'' 53810) (\<lambda>_.
     sbind (pure_res (make_config pton mem P (sim_serial (sonar P)))) (\<lambda>sim_cfg.
     sbind (sendUdpMessage env serialize_R2DC sim_cfg ''10.255.255.255'' 53810) (\<lambda>_.
     pure_res (Inr ())))))"

section \<open>The command packets\<close>

text \<open>The loops append one command per table entry.\<close>

definition append_int :: "string \<times> string \<times> int \<Rightarrow> CmdSet \<Rightarrow> CmdSet res" where
  "append_int e p = (case e of (key, cmd, v) \<Rightarrow> ebind (mk_IntCmd cmd v) (\<lambda>c. Inr (append_cmd c p)))"

definition append_ip :: "inet_pton \<Rightarrow> string \<times> string \<times> string \<Rightarrow> CmdSet \<Rightarrow> CmdSet res" where
  "append_ip pton e p = (case e of (key, cmd, ip) \<Rightarrow>
     ebind (ip_str_to_u32 pton (c_str ip)) (\<lambda>ip_u32.
     ebind (mk_IntCmd cmd (uint ip_u32)) (\<lambda>c. Inr (append_cmd c p))))"

definition append_float :: "string \<times> string \<times> u32 \<Rightarrow> CmdSet \<Rightarrow> CmdSet res" where
  "append_float e p = (case e of (key, cmd, v) \<Rightarrow> ebind (mk_FloatCmd cmd v) (\<lambda>c. Inr (append_cmd c p)))"

text \<open>\<open>getSimBaseport() + 2\<close> is an \<open>int\<close>, passed as 16 bits.\<close>

definition port_plus_2 :: "int \<Rightarrow> u16 res" where
  "port_plus_2 p = ebind (int_result (p + 2)) (\<lambda>q. Inr (word_of_int q))"

definition send_sim_cmds :: "'addr udp_env \<Rightarrow> inet_pton \<Rightarrow> Parameters \<Rightarrow> ('addr, unit) sending" where
  "send_sim_cmds env pton P =
     sbind (pure_res (ebind (efold append_int (sim_int_params (sim_commands P)) new_CmdSet)
              (efold (append_ip pton) (sim_ip_params (sim_commands P))))) (\<lambda>cmd_pkt.
     sbind (pure_res (getSimIp P)) (\<lambda>ip.
     sbind (pure_res (ebind (getSimBaseport P) port_plus_2)) (\<lambda>port.
     sbind (sendUdpMessage env serialize_CmdSet cmd_pkt ip port) (\<lambda>_.
     pure_res (Inr ())))))"

definition send_head_cmds :: "'addr udp_env \<Rightarrow> Parameters \<Rightarrow> ('addr, unit) sending" where
  "send_head_cmds env P =
     sbind (pure_res (ebind (efold append_float (head_float_params (head_commands P)) new_CmdSet)
              (efold append_int (head_int_params (head_commands P))))) (\<lambda>cmd_pkt.
     sbind (pure_res (getHeadIp P)) (\<lambda>ip.
     sbind (pure_res (ebind (getHeadBaseport P) port_plus_2)) (\<lambda>port.
     sbind (sendUdpMessage env serialize_CmdSet cmd_pkt ip port) (\<lambda>_.
     pure_res (Inr ())))))"

definition send_cmds :: "'addr udp_env \<Rightarrow> inet_pton \<Rightarrow> u8 list \<Rightarrow> Parameters \<Rightarrow> ('addr, unit) sending" where
  "send_cmds env pton mem P =
     (if control_mode P then
        sbind (sendNetworkConfig env pton mem P) (\<lambda>_.
        sbind (send_sim_cmds env pton P) (\<lambda>_. send_head_cmds env P))
      else (Inr (), []))"

section \<open>The contents of the command packets\<close>

definition names_ok :: "(string, string \<times> 'v) std_map \<Rightarrow> bool" where
  "names_ok m \<longleftrightarrow> (\<forall>(key, cmd, v) \<in> set m. strlen cmd = 4)"

definition ip_value :: "inet_pton \<Rightarrow> string \<Rightarrow> u32" where
  "ip_value pton s = (case ip_str_to_u32 pton (c_str s) of Inr x \<Rightarrow> x | Inl _ \<Rightarrow> 0)"

text \<open>The commands of a table: the entries in key order, name and value.\<close>

definition table_values :: "('v \<Rightarrow> u32) \<Rightarrow> (string, string \<times> 'v) std_map \<Rightarrow> (u8 list \<times> u32) list" where
  "table_values val m = map (\<lambda>(key, cmd, v). (take 4 (str_bytes cmd), val v)) m"

lemma names_ok_entry: "names_ok m \<Longrightarrow> (key, cmd, v) \<in> set m \<Longrightarrow> strlen cmd = 4"
  by (auto simp: names_ok_def)

lemma mk_cmd_ok:
  "strlen cmd = 4 \<Longrightarrow> mk_IntCmd cmd i = Inr (IntCmd (take 4 (str_bytes cmd)) (assign_int i))"
  "strlen cmd = 4 \<Longrightarrow> mk_FloatCmd cmd f = Inr (FloatCmd (take 4 (str_bytes cmd)) (set_be f))"
  by (simp_all add: mk_IntCmd_def mk_FloatCmd_def mk_Cmd_def)

lemma strlen_name: "strlen cmd = 4 \<Longrightarrow> 4 \<le> length (str_bytes cmd)"
  unfolding strlen_def by (metis length_takeWhile_le)

text \<open>A loop whose step appends a command with a given name and value.\<close>

lemma append_loop:
  assumes "\<And>e p. e \<in> set m \<Longrightarrow> \<exists>c. f e p = Inr (append_cmd c p) \<and> (cmd_name c, cmd_value c) = g e
     \<and> length (cmd_name c) = 4"
  shows "cmds_ok p \<Longrightarrow> \<exists>p'. efold f m p = Inr p' \<and> cmds_ok p'
     \<and> map (\<lambda>c. (cmd_name c, cmd_value c)) (commands p')
       = map (\<lambda>c. (cmd_name c, cmd_value c)) (commands p) @ map g m"
  using assms
proof (induction m arbitrary: p)
  case Nil
  then show ?case by simp
next
  case (Cons e m)
  obtain c where c: "f e p = Inr (append_cmd c p)" "(cmd_name c, cmd_value c) = g e" "length (cmd_name c) = 4"
    using Cons.prems(2) [of e p] by auto
  obtain p' where "efold f m (append_cmd c p) = Inr p'" "cmds_ok p'"
      "map (\<lambda>c. (cmd_name c, cmd_value c)) (commands p')
       = map (\<lambda>c. (cmd_name c, cmd_value c)) (commands (append_cmd c p)) @ map g m"
    using Cons.IH [OF cmds_ok_append [OF Cons.prems(1) c(3)]] Cons.prems(2) by auto
  with c show ?case by (simp add: append_cmd_def)
qed

lemma append_ints:
  assumes "names_ok m" and "cmds_ok p"
  shows "\<exists>p'. efold append_int m p = Inr p' \<and> cmds_ok p'
     \<and> map (\<lambda>c. (cmd_name c, cmd_value c)) (commands p')
       = map (\<lambda>c. (cmd_name c, cmd_value c)) (commands p) @ table_values word_of_int m"
  unfolding table_values_def
proof (rule append_loop [OF _ assms(2)])
  fix e q assume e: "e \<in> set m"
  obtain key cmd v where eq: "e = (key, cmd, v)" by (rule prod_cases3)
  with e have "strlen cmd = 4" using names_ok_entry [OF assms(1)] by blast
  then show "\<exists>c. append_int e q = Inr (append_cmd c q)
      \<and> (cmd_name c, cmd_value c) = (case e of (key, cmd, v) \<Rightarrow> (take 4 (str_bytes cmd), word_of_int v))
      \<and> length (cmd_name c) = 4"
    by (auto simp: eq append_int_def mk_cmd_ok assign_int_def strlen_name)
qed

lemma append_floats:
  assumes "names_ok m" and "cmds_ok p"
  shows "\<exists>p'. efold append_float m p = Inr p' \<and> cmds_ok p'
     \<and> map (\<lambda>c. (cmd_name c, cmd_value c)) (commands p')
       = map (\<lambda>c. (cmd_name c, cmd_value c)) (commands p) @ table_values (\<lambda>f. f) m"
  unfolding table_values_def
proof (rule append_loop [OF _ assms(2)])
  fix e q assume e: "e \<in> set m"
  obtain key cmd v where eq: "e = (key, cmd, v)" by (rule prod_cases3)
  with e have "strlen cmd = 4" using names_ok_entry [OF assms(1)] by blast
  then show "\<exists>c. append_float e q = Inr (append_cmd c q)
      \<and> (cmd_name c, cmd_value c) = (case e of (key, cmd, v) \<Rightarrow> (take 4 (str_bytes cmd), v))
      \<and> length (cmd_name c) = 4"
    by (auto simp: eq append_float_def mk_cmd_ok strlen_name)
qed

lemma append_ips:
  assumes "names_ok m" and "cmds_ok p" and "\<forall>(key, cmd, ip) \<in> set m. pton (c_str ip) \<noteq> None"
  shows "\<exists>p'. efold (append_ip pton) m p = Inr p' \<and> cmds_ok p'
     \<and> map (\<lambda>c. (cmd_name c, cmd_value c)) (commands p')
       = map (\<lambda>c. (cmd_name c, cmd_value c)) (commands p) @ table_values (ip_value pton) m"
  unfolding table_values_def
proof (rule append_loop [OF _ assms(2)])
  fix e q assume "e \<in> set m"
  then show "\<exists>c. append_ip pton e q = Inr (append_cmd c q)
      \<and> (cmd_name c, cmd_value c) = (case e of (key, cmd, v) \<Rightarrow> (take 4 (str_bytes cmd), ip_value pton v))
      \<and> length (cmd_name c) = 4"
    using assms(1,3) by (fastforce simp: names_ok_def append_ip_def mk_cmd_ok assign_int_def strlen_name
        ip_value_def ip_str_to_u32_def split: prod.splits)
qed

text \<open>Sending a packet from then on.\<close>

lemma command_packet_sent:
  assumes "cmds_ok p" and "from_string env ip = Some a"
  shows "\<exists>d. sbind (sendUdpMessage env serialize_CmdSet p ip port) (\<lambda>_. pure_res (Inr ()))
        = (Inr (), if goes_out env d then [d] else [])
    \<and> dest_addr d = a \<and> dest_port d = port \<and> parse_CmdSet (payload d) = command_values p"
  using assms cmd_pkt.parse_ser [of p]
  by (intro exI [of _ "udp_datagram a port ip (serialize_CmdSet p)"])
    (simp add: sendUdpMessage_def Let_def udp_datagram_def pure_res_def)

text \<open>The simbox is sent every setting of its tables once.\<close>

lemma sim_packet:
  assumes names: "names_ok (sim_int_params (sim_commands P))" "names_ok (sim_ip_params (sim_commands P))"
    and ips: "sim_ips_valid pton P" and ip: "getSimIp P = Inr ip" and port: "getSimBaseport P = Inr port"
    and fits: "fits_int (port + 2)" and addr: "from_string env ip = Some a"
  shows "\<exists>d. send_sim_cmds env pton P = (Inr (), if goes_out env d then [d] else [])
    \<and> dest_addr d = a \<and> dest_port d = word_of_int (port + 2)
    \<and> parse_CmdSet (payload d) = Some (table_values word_of_int (sim_int_params (sim_commands P))
        @ table_values (ip_value pton) (sim_ip_params (sim_commands P)))"
proof -
  obtain p where p: "efold append_int (sim_int_params (sim_commands P)) new_CmdSet = Inr p" "cmds_ok p"
      "map (\<lambda>c. (cmd_name c, cmd_value c)) (commands p) = table_values word_of_int (sim_int_params (sim_commands P))"
    using append_ints [OF names(1) cmds_ok_new] by (auto simp: new_CmdSet_def)
  obtain q where q: "efold (append_ip pton) (sim_ip_params (sim_commands P)) p = Inr q" "cmds_ok q"
      "map (\<lambda>c. (cmd_name c, cmd_value c)) (commands q) = table_values word_of_int (sim_int_params (sim_commands P))
        @ table_values (ip_value pton) (sim_ip_params (sim_commands P))"
    using append_ips [OF names(2) p(2), of pton] ips p(3) by (auto simp: sim_ips_valid_def)
  have "port_plus_2 port = Inr (word_of_int (port + 2))"
    using fits by (simp add: port_plus_2_def int_result_def)
  then have "send_sim_cmds env pton P
      = sbind (sendUdpMessage env serialize_CmdSet q ip (word_of_int (port + 2))) (\<lambda>_. pure_res (Inr ()))"
    by (simp add: send_sim_cmds_def p(1) q(1) ip port)
  then show ?thesis
    using command_packet_sent [OF q(2) addr, of "word_of_int (port + 2)"] q(3)
    by (simp add: command_values_def)
qed

text \<open>What the selected devices are is not changed by updates.\<close>

lemma names_ok_set [simp]: "names_ok (set_table read prefix ps m) = names_ok m"
  by (auto simp: names_ok_def set_table_def split_def image_iff)

lemma updated_devices:
  assumes "P' = snd (onParameterUpdate pton what ps P)"
  shows "getSimIp P' = getSimIp P" "getSimBaseport P' = getSimBaseport P"
    "getHeadIp P' = getHeadIp P" "getHeadBaseport P' = getHeadBaseport P"
  using batch_frame [OF assms] by (simp_all add: getSimIp_def getSimBaseport_def getHeadIp_def getHeadBaseport_def)

text \<open>
  C21: the simbox is sent what was set: after any batch of updates, good ones and rejected ones, the
  next round sends one datagram to the selected simbox, two ports above its base port, whose bytes
  parse into the integer table and then the address table, in key order, each entry once, with the
  value of the last acceptable update of its name, or the one it had.
\<close>

theorem sim_commands_sent:
  assumes tables: "tables_sorted P" "tables_disjoint P"
    and names: "names_ok (sim_int_params (sim_commands P))" "names_ok (sim_ip_params (sim_commands P))"
    and ips: "sim_ips_valid pton P" and ip: "getSimIp P = Inr ip" and port: "getSimBaseport P = Inr port"
    and fits: "fits_int (port + 2)" and addr: "from_string env ip = Some a"
    and P': "P' = snd (onParameterUpdate pton what ps P)"
  shows "\<exists>d. send_sim_cmds env pton P' = (Inr (), if goes_out env d then [d] else [])
    \<and> dest_addr d = a \<and> dest_port d = word_of_int (port + 2)
    \<and> parse_CmdSet (payload d) = Some
        (table_values word_of_int (set_table read_int ''sim_commands.'' ps (sim_int_params (sim_commands P)))
       @ table_values (ip_value pton) (set_table (read_address pton) ''sim_commands.'' ps (sim_ip_params (sim_commands P))))"
proof -
  have set: "sim_commands P' = \<lparr>sim_int_params = set_table read_int ''sim_commands.'' ps (sim_int_params (sim_commands P)),
      sim_ip_params = set_table (read_address pton) ''sim_commands.'' ps (sim_ip_params (sim_commands P))\<rparr>"
    by (simp add: P' batch_set [OF tables] set_parameters_def)
  have "sim_ips_valid pton P'" unfolding P' by (rule batch_keeps(2) [OF tables(1) ips])
  then show ?thesis
    using sim_packet [of P' pton ip port env a] names ip port fits addr updated_devices [OF P'] by (simp add: set)
qed

lemma head_packet:
  assumes names: "names_ok (head_float_params (head_commands P))" "names_ok (head_int_params (head_commands P))"
    and ip: "getHeadIp P = Inr ip" and port: "getHeadBaseport P = Inr port"
    and fits: "fits_int (port + 2)" and addr: "from_string env ip = Some a"
  shows "\<exists>d. send_head_cmds env P = (Inr (), if goes_out env d then [d] else [])
    \<and> dest_addr d = a \<and> dest_port d = word_of_int (port + 2)
    \<and> parse_CmdSet (payload d) = Some (table_values (\<lambda>f. f) (head_float_params (head_commands P))
        @ table_values word_of_int (head_int_params (head_commands P)))"
proof -
  obtain p where p: "efold append_float (head_float_params (head_commands P)) new_CmdSet = Inr p" "cmds_ok p"
      "map (\<lambda>c. (cmd_name c, cmd_value c)) (commands p) = table_values (\<lambda>f. f) (head_float_params (head_commands P))"
    using append_floats [OF names(1) cmds_ok_new] by (auto simp: new_CmdSet_def)
  obtain q where q: "efold append_int (head_int_params (head_commands P)) p = Inr q" "cmds_ok q"
      "map (\<lambda>c. (cmd_name c, cmd_value c)) (commands q) = table_values (\<lambda>f. f) (head_float_params (head_commands P))
        @ table_values word_of_int (head_int_params (head_commands P))"
    using append_ints [OF names(2) p(2)] p(3) by auto
  have "port_plus_2 port = Inr (word_of_int (port + 2))"
    using fits by (simp add: port_plus_2_def int_result_def)
  then have "send_head_cmds env P
      = sbind (sendUdpMessage env serialize_CmdSet q ip (word_of_int (port + 2))) (\<lambda>_. pure_res (Inr ()))"
    by (simp add: send_head_cmds_def p(1) q(1) ip port)
  then show ?thesis
    using command_packet_sent [OF q(2) addr, of "word_of_int (port + 2)"] q(3)
    by (simp add: command_values_def)
qed

text \<open>
  C22: so is the head: one datagram to the selected head, two ports above its base port, whose bytes
  parse into the float table, each value as its bits, and then the integer table, with the values
  of the last acceptable updates.
\<close>

theorem head_commands_sent:
  assumes tables: "tables_sorted P" "tables_disjoint P"
    and names: "names_ok (head_float_params (head_commands P))" "names_ok (head_int_params (head_commands P))"
    and ip: "getHeadIp P = Inr ip" and port: "getHeadBaseport P = Inr port"
    and fits: "fits_int (port + 2)" and addr: "from_string env ip = Some a"
    and P': "P' = snd (onParameterUpdate pton what ps P)"
  shows "\<exists>d. send_head_cmds env P' = (Inr (), if goes_out env d then [d] else [])
    \<and> dest_addr d = a \<and> dest_port d = word_of_int (port + 2)
    \<and> parse_CmdSet (payload d) = Some
        (table_values (\<lambda>f. f) (set_table read_float ''head_commands.'' ps (head_float_params (head_commands P)))
       @ table_values word_of_int (set_table read_int ''head_commands.'' ps (head_int_params (head_commands P))))"
proof -
  have set: "head_commands P' = \<lparr>head_float_params = set_table read_float ''head_commands.'' ps (head_float_params (head_commands P)),
      head_int_params = set_table read_int ''head_commands.'' ps (head_int_params (head_commands P))\<rparr>"
    by (simp add: P' batch_set [OF tables] set_parameters_def)
  show ?thesis
    using head_packet [of P' ip port env a] names ip port fits addr updated_devices [OF P'] by (simp add: set)
qed

section \<open>The contents of the configuration packets\<close>

definition default_addresses :: "string list" where
  "default_addresses = [''255.0.0.0'', ''0.0.0.0'', ''10.0.1.102'', ''10.0.0.86'', ''10.0.0.99'']"

text \<open>Every address the configuration is built from parses, the constructor's own included.\<close>

definition addresses_valid :: "inet_pton \<Rightarrow> Parameters \<Rightarrow> bool" where
  "addresses_valid pton P \<longleftrightarrow>
     (\<forall>s \<in> set (default_addresses @ [net_subnet_mask (network P), net_gateway_ip (network P),
        net_gui_ip (network P)] @ net_head_ips (network P) @ net_simbox_ips (network P)
        @ net_daq_ips (network P)). pton (c_str s) \<noteq> None)"

definition config_of :: "inet_pton \<Rightarrow> Parameters \<Rightarrow> string \<Rightarrow> R2DC" where
  "config_of pton P serial = setConfigId
     \<lparr>r2dc_name = str_bytes ''R2DC'', serial_number = strncpy_bytes 12 serial,
      config_id = assign_int 2549138156,
      subnet_mask = set_be (ip_value pton (net_subnet_mask (network P))),
      gateway_ip = set_be (ip_value pton (net_gateway_ip (network P))),
      gui_ip = set_be (ip_value pton (net_gui_ip (network P))),
      gui_baseport = assign_int (net_gui_baseport (network P)),
      r2dc_system = assign_int (system_index (sonar P)),
      head_ip = map (\<lambda>s. set_be (ip_value pton s)) (net_head_ips (network P)),
      head_baseport = map assign_int (net_head_baseports (network P)),
      simbox_ip = map (\<lambda>s. set_be (ip_value pton s)) (net_simbox_ips (network P)),
      simbox_baseport = map assign_int (net_simbox_baseports (network P)),
      daq_ip = map (\<lambda>s. set_be (ip_value pton s)) (net_daq_ips (network P)),
      daq_baseport = map assign_int (net_daq_baseports (network P)),
      spare = map (\<lambda>_. assign_int 0) [0..<8]\<rparr>"

lemma ip_be_value: "pton (c_str s) \<noteq> None \<Longrightarrow> ip_be pton (c_str s) = Inr (set_be (ip_value pton s))"
  by (auto simp: ip_be_def ip_value_def ip_str_to_u32_def)

lemma new_R2DC_returns:
  assumes "\<forall>s \<in> set default_addresses. pton (c_str s) \<noteq> None"
  shows "\<exists>cfg. new_R2DC pton mem = Inr cfg \<and> r2dc_name cfg = str_bytes ''R2DC''
    \<and> config_id cfg = assign_int 2549138156 \<and> spare cfg = map (\<lambda>_. assign_int 0) [0..<8]
    \<and> length (head_ip cfg) = SYSTEMS \<and> length (head_baseport cfg) = SYSTEMS
    \<and> length (simbox_ip cfg) = SYSTEMS \<and> length (simbox_baseport cfg) = SYSTEMS
    \<and> length (daq_ip cfg) = DAQS \<and> length (daq_baseport cfg) = DAQS"
proof -
  have "ip_be pton s = Inr (set_be (ip_value pton s))" if "s \<in> set default_addresses" for s
  proof -
    have "c_str s = s" using that by (auto simp: default_addresses_def c_str_def)
    then show ?thesis using assms that ip_be_value [of pton s] by metis
  qed
  then have "ip_be pton ''255.0.0.0'' = Inr (set_be (ip_value pton ''255.0.0.0''))"
    "ip_be pton ''0.0.0.0'' = Inr (set_be (ip_value pton ''0.0.0.0''))"
    "ip_be pton ''10.0.1.102'' = Inr (set_be (ip_value pton ''10.0.1.102''))"
    "ip_be pton ''10.0.0.86'' = Inr (set_be (ip_value pton ''10.0.0.86''))"
    "ip_be pton ''10.0.0.99'' = Inr (set_be (ip_value pton ''10.0.0.99''))"
    by (simp_all add: default_addresses_def)
  moreover have "[3..<DAQS] = [3, 4, 5, 6, 7]"
    by (simp add: DAQS_def upt_rec)
  ultimately show ?thesis by (simp add: new_R2DC_def SYSTEMS_def DAQS_def)
qed

lemma config_systems:
  assumes len: "length (head_ip cfg) = SYSTEMS" "length (head_baseport cfg) = SYSTEMS"
      "length (simbox_ip cfg) = SYSTEMS" "length (simbox_baseport cfg) = SYSTEMS"
    and ips: "\<And>k. k < SYSTEMS \<Longrightarrow> pton (c_str (net_head_ips net ! k)) \<noteq> None
      \<and> pton (c_str (net_simbox_ips net ! k)) \<noteq> None"
  shows "i \<le> SYSTEMS \<Longrightarrow> efold (config_system pton net) [0..<i] cfg = Inr (cfg\<lparr>
     head_ip := map (\<lambda>k. set_be (ip_value pton (net_head_ips net ! k))) [0..<i] @ drop i (head_ip cfg),
     head_baseport := map (\<lambda>k. assign_int (net_head_baseports net ! k)) [0..<i] @ drop i (head_baseport cfg),
     simbox_ip := map (\<lambda>k. set_be (ip_value pton (net_simbox_ips net ! k))) [0..<i] @ drop i (simbox_ip cfg),
     simbox_baseport := map (\<lambda>k. assign_int (net_simbox_baseports net ! k)) [0..<i] @ drop i (simbox_baseport cfg)\<rparr>)"
proof (induction i)
  case 0
  then show ?case by simp
next
  case (Suc i)
  have ip: "ip_be pton (c_str (net_head_ips net ! i)) = Inr (set_be (ip_value pton (net_head_ips net ! i)))"
    "ip_be pton (c_str (net_simbox_ips net ! i)) = Inr (set_be (ip_value pton (net_simbox_ips net ! i)))"
    using Suc.prems ips [of i] by (auto intro!: ip_be_value)
  note upd = update_prefix [of i "head_ip cfg" "\<lambda>k. set_be (ip_value pton (net_head_ips net ! k))"]
    update_prefix [of i "head_baseport cfg" "\<lambda>k. assign_int (net_head_baseports net ! k)"]
    update_prefix [of i "simbox_ip cfg" "\<lambda>k. set_be (ip_value pton (net_simbox_ips net ! k))"]
    update_prefix [of i "simbox_baseport cfg" "\<lambda>k. assign_int (net_simbox_baseports net ! k)"]
  from Suc show ?case
    using len by (simp add: efold_append config_system_def ip upd)
qed

lemma config_daqs:
  assumes len: "length (daq_ip cfg) = DAQS" "length (daq_baseport cfg) = DAQS"
    and ips: "\<And>k. k < DAQS \<Longrightarrow> pton (c_str (net_daq_ips net ! k)) \<noteq> None"
  shows "i \<le> DAQS \<Longrightarrow> efold (config_daq pton net) [0..<i] cfg = Inr (cfg\<lparr>
     daq_ip := map (\<lambda>k. set_be (ip_value pton (net_daq_ips net ! k))) [0..<i] @ drop i (daq_ip cfg),
     daq_baseport := map (\<lambda>k. assign_int (net_daq_baseports net ! k)) [0..<i] @ drop i (daq_baseport cfg)\<rparr>)"
proof (induction i)
  case 0
  then show ?case by simp
next
  case (Suc i)
  have ip: "ip_be pton (c_str (net_daq_ips net ! i)) = Inr (set_be (ip_value pton (net_daq_ips net ! i)))"
    using Suc.prems ips [of i] by (auto intro!: ip_be_value)
  note upd = update_prefix [of i "daq_ip cfg" "\<lambda>k. set_be (ip_value pton (net_daq_ips net ! k))"]
    update_prefix [of i "daq_baseport cfg" "\<lambda>k. assign_int (net_daq_baseports net ! k)"]
  from Suc show ?case
    using len by (simp add: efold_append config_daq_def ip upd)
qed

lemma map_nth_all: "length xs = n \<Longrightarrow> map (\<lambda>k. f (xs ! k)) [0..<n] = map f xs"
  by (rule nth_equalityI) auto

lemma make_config_eq:
  assumes arr: "arrays_ok (network P)" and ips: "addresses_valid pton P"
  shows "make_config pton mem P serial = Inr (config_of pton P serial)"
proof -
  let ?net = "network P"
  have "\<forall>s \<in> set default_addresses. pton (c_str s) \<noteq> None"
    using ips by (simp add: addresses_valid_def)
  from new_R2DC_returns [OF this, of mem] obtain cfg where cfg: "new_R2DC pton mem = Inr cfg"
    "r2dc_name cfg = str_bytes ''R2DC''" "config_id cfg = assign_int 2549138156"
    "spare cfg = map (\<lambda>_. assign_int 0) [0..<8]"
    "length (head_ip cfg) = SYSTEMS" "length (head_baseport cfg) = SYSTEMS"
    "length (simbox_ip cfg) = SYSTEMS" "length (simbox_baseport cfg) = SYSTEMS"
    "length (daq_ip cfg) = DAQS" "length (daq_baseport cfg) = DAQS"
    by blast
  have three: "ip_be pton (c_str (net_subnet_mask ?net)) = Inr (set_be (ip_value pton (net_subnet_mask ?net)))"
    "ip_be pton (c_str (net_gateway_ip ?net)) = Inr (set_be (ip_value pton (net_gateway_ip ?net)))"
    "ip_be pton (c_str (net_gui_ip ?net)) = Inr (set_be (ip_value pton (net_gui_ip ?net)))"
    using ips by (auto simp: addresses_valid_def intro!: ip_be_value)
  have each: "k < SYSTEMS \<Longrightarrow> pton (c_str (net_head_ips ?net ! k)) \<noteq> None
      \<and> pton (c_str (net_simbox_ips ?net ! k)) \<noteq> None"
    "k < DAQS \<Longrightarrow> pton (c_str (net_daq_ips ?net ! k)) \<noteq> None" for k
    using ips arr unfolding addresses_valid_def arrays_ok_def by simp_all
  have len: "length (net_head_ips ?net) = SYSTEMS" "length (net_head_baseports ?net) = SYSTEMS"
    "length (net_simbox_ips ?net) = SYSTEMS" "length (net_simbox_baseports ?net) = SYSTEMS"
    "length (net_daq_ips ?net) = DAQS" "length (net_daq_baseports ?net) = DAQS"
    using arr by (simp_all add: arrays_ok_def)
  note nths = map_nth_all [of _ _ "\<lambda>s. set_be (ip_value pton s)"] map_nth_all [of _ _ assign_int]
  show ?thesis
    using cfg by (cases cfg) (simp add: make_config_def three config_systems each config_daqs nths len config_of_def)
qed

lemma config_of_ok: "arrays_ok (network P) \<Longrightarrow> R2DC_ok (config_of pton P serial)"
  by (simp add: config_of_def setConfigId_keeps)
    (simp add: R2DC_ok_def arrays_ok_def str_bytes_def strncpy_bytes_def)

text \<open>The serial number is not part of what the id is computed from.\<close>

lemma config_of_serial:
  assumes "arrays_ok (network P)"
  shows "config_of pton P s = (config_of pton P s')\<lparr>serial_number := strncpy_bytes 12 s\<rparr>"
proof -
  define base where "base t = \<lparr>r2dc_name = str_bytes ''R2DC'', serial_number = strncpy_bytes 12 t,
      config_id = assign_int 2549138156,
      subnet_mask = set_be (ip_value pton (net_subnet_mask (network P))),
      gateway_ip = set_be (ip_value pton (net_gateway_ip (network P))),
      gui_ip = set_be (ip_value pton (net_gui_ip (network P))),
      gui_baseport = assign_int (net_gui_baseport (network P)),
      r2dc_system = assign_int (system_index (sonar P)),
      head_ip = map (\<lambda>s. set_be (ip_value pton s)) (net_head_ips (network P)),
      head_baseport = map assign_int (net_head_baseports (network P)),
      simbox_ip = map (\<lambda>s. set_be (ip_value pton s)) (net_simbox_ips (network P)),
      simbox_baseport = map assign_int (net_simbox_baseports (network P)),
      daq_ip = map (\<lambda>s. set_be (ip_value pton s)) (net_daq_ips (network P)),
      daq_baseport = map assign_int (net_daq_baseports (network P)),
      spare = map (\<lambda>_. assign_int 0) [0..<8]\<rparr>" for t
  have ok: "R2DC_ok (base t)" for t
    using assms by (simp add: base_def R2DC_ok_def arrays_ok_def str_bytes_def strncpy_bytes_def)
  have "generateConfigID ''ros2sonic'' (base s) = generateConfigID ''ros2sonic'' (base s')"
    by (rule generateConfigID_cong [OF ok ok]) (simp add: base_def config_bytes_def)
  then show ?thesis
    by (simp add: config_of_def setConfigId_def base_def [symmetric]) (simp add: base_def)
qed

lemma set_id_valid: "R2DC_ok c \<Longrightarrow> configIDIsValid ''ros2sonic'' (setConfigId c)"
  using generateConfigID_cong [of "setConfigId c" c] by (simp add: configIDIsValid_def setConfigId_keeps)

lemma config_of_valid:
  assumes "arrays_ok (network P)"
  shows "configIDIsValid ''ros2sonic'' (config_of pton P serial)"
  using config_of_ok [OF assms, of pton serial] unfolding config_of_def
  by (intro set_id_valid) (simp add: setConfigId_keeps)

text \<open>
  C23: the configuration is broadcast twice, to the head and to the simbox: two datagrams to
  10.255.255.255, port 53810, whose bytes parse into one configuration, every field the parameter
  it comes from, that differs only in the serial number and carries a valid id.
\<close>

theorem network_config_sent:
  assumes arr: "arrays_ok (network P)" and ips: "addresses_valid pton P"
    and addr: "from_string env ''10.255.255.255'' = Some a"
  shows "\<exists>hd sd. sendNetworkConfig env pton mem P = (Inr (), filter (goes_out env) [hd, sd])
    \<and> (\<forall>d \<in> {hd, sd}. dest_addr d = a \<and> dest_port d = 53810 \<and> broadcast d
         \<and> configIDIsValid ''ros2sonic'' (parse_R2DC (payload d)))
    \<and> parse_R2DC (payload hd) = config_of pton P (head_serial (sonar P))
    \<and> parse_R2DC (payload sd) = (parse_R2DC (payload hd))\<lparr>serial_number := strncpy_bytes 12 (sim_serial (sonar P))\<rparr>"
proof -
  define dgram where "dgram s = udp_datagram a 53810 ''10.255.255.255'' (serialize_R2DC (config_of pton P s))" for s
  have bc: "contains ''255'' ''10.255.255.255''"
    by (simp add: starts_with_def)
  have parse: "parse_R2DC (payload (dgram s)) = config_of pton P s" for s
    using cfg_pkt.parse_ser [OF config_of_ok [OF arr]] by (simp add: dgram_def udp_datagram_def)
  have "sendNetworkConfig env pton mem P
      = (Inr (), filter (goes_out env) [dgram (head_serial (sonar P)), dgram (sim_serial (sonar P))])"
    by (simp add: sendNetworkConfig_def make_config_eq [OF arr ips] sendUdpMessage_def addr Let_def
        dgram_def pure_res_def)
  moreover have "dest_addr (dgram s) = a \<and> dest_port (dgram s) = 53810 \<and> broadcast (dgram s)" for s
    using bc by (simp add: dgram_def udp_datagram_def)
  ultimately show ?thesis
    using parse config_of_valid [OF arr] config_of_serial [OF arr, of pton "sim_serial (sonar P)"]
    by (intro exI [of _ "dgram (head_serial (sonar P))"] exI [of _ "dgram (sim_serial (sonar P))"]) auto
qed

section \<open>The timer callback\<close>

text \<open>
  C31: without both serial numbers nothing is ever sent: control mode is off after \<open>init\<close> whatever
  was asked for, no update can turn it on, and the timer callback is then silent.
\<close>

theorem no_serials_no_control:
  assumes ret: "Parameters_init decl P0 = Inr P"
    and serial: "head_serial (sonar P) = [] \<or> sim_serial (sonar P) = []"
    and P': "P' = snd (onParameterUpdate pton what params P)"
  shows "send_cmds env pton mem P' = (Inr (), [])"
proof -
  obtain Q where "P = validate_control_mode Q" using init_validated [OF ret] by blast
  then have "\<not> control_mode P" using serial by (auto simp: validate_control_mode_def)
  then show ?thesis using batch_frame [OF P'] by (simp add: send_cmds_def)
qed

lemma append_ip_fails:
  assumes "names_ok m" and "\<exists>(key, cmd, ip) \<in> set m. pton (c_str ip) = None"
  shows "efold (append_ip pton) m p = Inl (RuntimeError ''Invalid IP string'')"
  using assms
proof (induction m arbitrary: p)
  case Nil
  then show ?case by simp
next
  case (Cons e m)
  obtain key cmd ip where e: "e = (key, cmd, ip)" by (rule prod_cases3)
  have "strlen cmd = 4" using Cons.prems(1) by (simp add: names_ok_def e)
  moreover have "names_ok m" using Cons.prems(1) by (simp add: names_ok_def)
  ultimately show ?case
    using Cons by (cases "pton (c_str ip)") (auto simp: e append_ip_def ip_str_to_u32_def mk_cmd_ok)
qed



section \<open>A node that controls one head\<close>

definition sample_node :: "string \<Rightarrow> Parameters" where
  "sample_node ip = \<lparr>network = \<lparr>net_subnet_mask = ''255.0.0.0'', net_gateway_ip = ''0.0.0.0'',
       net_gui_ip = ''10.0.1.102'', net_gui_baseport = 65400,
       net_head_ips = [''10.0.0.86'', ''0.0.0.0'', ''0.0.0.0'', ''0.0.0.0''], net_head_baseports = [65500, 0, 0, 0],
       net_simbox_ips = [''10.0.0.99'', ''0.0.0.0'', ''0.0.0.0'', ''0.0.0.0''], net_simbox_baseports = [65500, 0, 0, 0],
       net_daq_ips = replicate 8 ''10.0.1.102'', net_daq_baseports = replicate 8 4100\<rparr>,
     control_mode = True, sonar = sonar0\<lparr>head_serial := ''101'', sim_serial := ''202''\<rparr>, topics = topics0,
     sim_commands = \<lparr>sim_int_params = [(''status_data'', ''STM0'', 3)],
                     sim_ip_params = [(''svp_ip_addr'', ''IPS0'', ip)]\<rparr>,
     head_commands = \<lparr>head_float_params = [(''range'', ''RNG0'', f32_literal 25 1)],
                      head_int_params = [(''uhd_enable'', ''UHD0'', 0)]\<rparr>\<rparr>"

definition sample_env :: "string udp_env" where
  "sample_env = \<lparr>from_string = Some, goes_out = \<lambda>_. True\<rparr>"

lemma sample_node_ok:
  "arrays_ok (network (sample_node ip))" "addresses_valid dotted_quad (sample_node ip)"
  "sim_ips_valid dotted_quad (sample_node ''0.0.0.0'')" "\<not> sim_ips_valid dotted_quad (sample_node ''none'')"
  by (simp_all add: sample_node_def arrays_ok_def SYSTEMS_def DAQS_def addresses_valid_def
      default_addresses_def c_str_def dotted_quad_def octet_def sim_ips_valid_def)

lemma sample_node_names:
  "names_ok (sim_int_params (sim_commands (sample_node ip)))"
  "names_ok (sim_ip_params (sim_commands (sample_node ip)))"
  "names_ok (head_float_params (head_commands (sample_node ip)))"
  "names_ok (head_int_params (head_commands (sample_node ip)))"
  by (simp_all add: sample_node_def names_ok_def strlen_def str_bytes_def)

lemma sample_node_addr:
  "getSimIp (sample_node ip) = Inr ''10.0.0.99''" "getSimBaseport (sample_node ip) = Inr 65500"
  "getHeadIp (sample_node ip) = Inr ''10.0.0.86''" "getHeadBaseport (sample_node ip) = Inr 65500"
  "from_string sample_env s = Some s"
  by (simp_all add: sample_node_def getSimIp_def getSimBaseport_def getHeadIp_def getHeadBaseport_def
      at_index_def sonar0_def sample_env_def)

lemma sample_node_tables: "tables_sorted (sample_node ip)" "tables_disjoint (sample_node ip)"
  by (simp_all add: sample_node_def tables_sorted_iff map_sorted_def tables_disjoint_def)

text \<open>After an update, one that is overruled, and one of the wrong type.\<close>

theorem sim_commands_sent_witness:
  "\<exists>d. send_sim_cmds sample_env dotted_quad (snd (onParameterUpdate dotted_quad (\<lambda>_. [])
       [(''sim_commands.status_data'', PInt 5), (''sim_commands.status_data'', PInt 7), (''sim_commands.status_data'', PBool True)]
       (sample_node ''0.0.0.0''))) = (Inr (), [d]) \<and> dest_port d = 65502
    \<and> (\<exists>cmds. parse_CmdSet (payload d) = Some (([0x53, 0x54, 0x4D, 0x30], 7) # cmds))"
proof -
  let ?ps = "[(''sim_commands.status_data'', PInt 5), (''sim_commands.status_data'', PInt 7), (''sim_commands.status_data'', PBool True)]"
  have "set_table read_int ''sim_commands.'' ?ps (sim_int_params (sim_commands (sample_node ''0.0.0.0''))) = [(''status_data'', ''STM0'', 7)]"
    by (simp add: sample_node_def set_table_def set_value_def read_int_def to_int_def)
  then have v: "table_values word_of_int (set_table read_int ''sim_commands.'' ?ps (sim_int_params (sim_commands (sample_node ''0.0.0.0''))))
      = [([0x53, 0x54, 0x4D, 0x30], 7)]"
    by (simp add: table_values_def str_bytes_def)
  have "fits_int (65500 + 2)" by (simp add: fits_int_def)
  from sim_commands_sent [OF sample_node_tables sample_node_names(1,2) sample_node_ok(3) sample_node_addr(1,2) this
      sample_node_addr(5) refl, of "\<lambda>_. []" ?ps, unfolded v]
  show ?thesis by (auto simp: sample_env_def)
qed

theorem head_commands_sent_witness:
  "\<exists>d. send_head_cmds sample_env (snd (onParameterUpdate dotted_quad (\<lambda>_. [])
       [(''head_commands.range'', PInt 5)] (sample_node ''0.0.0.0''))) = (Inr (), [d]) \<and> dest_port d = 65502
    \<and> (\<exists>cmds. parse_CmdSet (payload d) = Some (([0x52, 0x4E, 0x47, 0x30], f32_literal 25 1) # cmds))"
proof -
  let ?ps = "[(''head_commands.range'', PInt 5)]"
  have "set_table read_float ''head_commands.'' ?ps (head_float_params (head_commands (sample_node ''0.0.0.0''))) = [(''range'', ''RNG0'', f32_literal 25 1)]"
    by (simp add: sample_node_def set_table_def set_value_def read_float_def)
  then have v: "table_values (\<lambda>f. f) (set_table read_float ''head_commands.'' ?ps (head_float_params (head_commands (sample_node ''0.0.0.0''))))
      = [([0x52, 0x4E, 0x47, 0x30], f32_literal 25 1)]"
    by (simp add: table_values_def str_bytes_def)
  have "fits_int (65500 + 2)" by (simp add: fits_int_def)
  from head_commands_sent [OF sample_node_tables [of "''0.0.0.0''"] sample_node_names(3,4) sample_node_addr(3,4) this
      sample_node_addr(5) refl, of dotted_quad "\<lambda>_. []" ?ps, unfolded v]
  show ?thesis by (auto simp: sample_env_def)
qed

theorem network_config_sent_witness:
  "\<exists>hd sd. sendNetworkConfig sample_env dotted_quad [] (sample_node ''0.0.0.0'') = (Inr (), [hd, sd])
    \<and> configIDIsValid ''ros2sonic'' (parse_R2DC (payload hd))
    \<and> parse_R2DC (payload sd)
      = (parse_R2DC (payload hd))\<lparr>serial_number := strncpy_bytes 12 (sim_serial (sonar (sample_node ''0.0.0.0'')))\<rparr>"
  using network_config_sent [OF sample_node_ok(1,2) sample_node_addr(5), where ip2 = "''0.0.0.0''" and mem = "[]"]
  by (auto simp: sample_env_def)

theorem no_serials_no_control_witness:
  "\<exists>P. Parameters_init (\<lambda>_ v. Inr v) sample_params = Inr P
    \<and> send_cmds sample_env dotted_quad [] (snd (onParameterUpdate dotted_quad (\<lambda>_. []) sample_batch P)) = (Inr (), [])"
proof -
  obtain P where P: "Parameters_init (\<lambda>_ v. Inr v) sample_params = Inr P" using sample_init by blast
  then have "head_serial (sonar P) = []"
    by (auto simp: Parameters_init_def Let_def ebind_eq_Inr validate_control_mode_def init_sonar_def
        setup_string_def sample_params_def sonar0_def split: if_splits)
  then show ?thesis using no_serials_no_control [OF P _ refl] P by blast
qed



section \<open>The tables the node is built with\<close>

lemma map_init_entries: "e \<in> set (map_init es) \<Longrightarrow> e \<in> set es"
proof (cases e)
  case (Pair k v)
  assume "e \<in> set (map_init es)"
  then have "map_find k (map_init es) = Some v"
    using map_find_entry [OF map_sorted_init, of k v es] by (simp add: Pair)
  then show ?thesis by (simp add: map_find_init map_of_SomeD Pair)
qed

lemma names_ok_init: "names_ok es \<Longrightarrow> names_ok (map_init es)"
  by (auto simp: names_ok_def dest: map_init_entries)

text \<open>
  The built-in tables are fit to be sent: ordered, every device command of 4 characters, every
  address parses; and the range gate defaults are encoded to the bits the manufacturer's
  documentation has for them.
\<close>

lemma default_tables_ok:
  "tables_sorted Parameters0 \<and> tables_disjoint Parameters0 \<and> sim_ips_valid dotted_quad Parameters0
   \<and> names_ok (sim_int_params SimCmds0) \<and> names_ok (sim_ip_params SimCmds0)
   \<and> names_ok (head_float_params HeadCmds0) \<and> names_ok (head_int_params HeadCmds0)
   \<and> map_find ''range_gate.min'' (head_float_params HeadCmds0) = Some (''RGA0'', 0x4042EA00)
   \<and> map_find ''range_gate.max'' (head_float_params HeadCmds0) = Some (''RGB0'', 0x4479C000)"
proof (intro conjI)
  show "tables_sorted Parameters0"
    by (simp add: tables_sorted_iff Parameters0_def SimCmds0_def HeadCmds0_def map_sorted_init)
  show "tables_disjoint Parameters0"
    by (auto simp: tables_disjoint_def Parameters0_def SimCmds0_def HeadCmds0_def dest!: map_init_entries)
  have "\<exists>bs. dotted_quad (c_str ip) = Some bs" if "ip \<in> {''10.0.0.90'', ''10.0.0.44'', ''0.0.0.0''}" for ip
    using that by (auto simp: dotted_quad_def octet_def c_str_def)
  then show "sim_ips_valid dotted_quad Parameters0"
    by (auto simp: sim_ips_valid_def Parameters0_def SimCmds0_def dest!: map_init_entries)
  show "names_ok (sim_int_params SimCmds0)" "names_ok (sim_ip_params SimCmds0)"
    unfolding SimCmds0_def SimCmds.simps
    by (rule names_ok_init; simp add: names_ok_def strlen_def str_bytes_def)+
  show "names_ok (head_float_params HeadCmds0)" "names_ok (head_int_params HeadCmds0)"
    unfolding HeadCmds0_def HeadCmds.simps
    by (rule names_ok_init; simp add: names_ok_def strlen_def str_bytes_def)+
  show "map_find ''range_gate.min'' (head_float_params HeadCmds0) = Some (''RGA0'', 0x4042EA00)"
    "map_find ''range_gate.max'' (head_float_params HeadCmds0) = Some (''RGB0'', 0x4479C000)"
    by (simp_all add: HeadCmds0_def map_find_init) (simp_all add: float_eval compute_floorlog)
qed

end
