(* ===== verification/Node.thy ===== *)
theory Node
  imports Detections Assembly Control
begin

text \<open>
  The receiving side of \<open>R2SonicNode\<close>: the message buffers with their mutexes, the two \<open>publish\<close>
  handlers and \<open>cleanMsgMap\<close>. A handler is an action on the node: it may not return (\<open>None\<close>: a
  mutex that is held, a loop that never ends), or it ends with a value or an exception in the
  state it has reached by then.
\<close>

section \<open>The node\<close>

datatype ros_event =
    PubDetections SonarDetections
  | PubBTH0 RawPacket
  | PubAID0 RawPacket
  | PubImage RawSonarImage

record node =
  parameters :: Parameters
  pub_detections :: bool
  pub_bth0 :: bool
  pub_image :: bool
  pub_aid0 :: bool
  msg_detections :: SonarDetections
  msg_bth0 :: RawPacket
  msg_aid0 :: RawPacket
  assemblers :: "(u32, assembler) std_map"
  mtx_detections :: bool
  mtx_bth0 :: bool
  mtx_image :: bool
  mtx_aid0 :: bool
  published :: "ros_event list"

definition shouldAdvertise :: "string \<Rightarrow> bool" where
  "shouldAdvertise topic \<longleftrightarrow> topic \<noteq> []"

text \<open>A null publisher is not published on; the count of subscribers is never reached.\<close>

definition shouldPublish :: "bool \<Rightarrow> bool" where
  "shouldPublish pub \<longleftrightarrow> (if \<not> pub then False else True)"

definition new_R2SonicNode :: "declare_param \<Rightarrow> Parameters \<Rightarrow> node res" where
  "new_R2SonicNode decl P0 = ebind (Parameters_init decl P0) (\<lambda>P. Inr
     \<lparr>parameters = P,
      pub_detections = shouldAdvertise (topic_detections (topics P)),
      pub_bth0 = shouldAdvertise (topic_bth0 (topics P)),
      pub_image = shouldAdvertise (topic_acoustic_image (topics P)),
      pub_aid0 = shouldAdvertise (topic_aid0 (topics P)),
      msg_detections = SonarDetections0, msg_bth0 = RawPacket0, msg_aid0 = RawPacket0, assemblers = [],
      mtx_detections = False, mtx_bth0 = False, mtx_image = False, mtx_aid0 = False, published = []\<rparr>)"

section \<open>Actions\<close>

type_synonym 'a act = "node \<Rightarrow> ('a res \<times> node) option"

definition act_return :: "'a \<Rightarrow> 'a act" where
  "act_return x nd = Some (Inr x, nd)"

definition act_bind :: "'a act \<Rightarrow> ('a \<Rightarrow> 'b act) \<Rightarrow> 'b act" where
  "act_bind m f nd = (case m nd of
     None \<Rightarrow> None
   | Some (Inl e, nd') \<Rightarrow> Some (Inl e, nd')
   | Some (Inr x, nd') \<Rightarrow> f x nd')"

text \<open>A computation on the packet, with the state as it is.\<close>

definition act_res :: "'a res \<Rightarrow> 'a act" where
  "act_res r nd = Some (r, nd)"

definition act_get :: "(node \<Rightarrow> 'a) \<Rightarrow> 'a act" where
  "act_get f nd = Some (Inr (f nd), nd)"

definition act_mod :: "(node \<Rightarrow> node) \<Rightarrow> unit act" where
  "act_mod f nd = Some (Inr (), f nd)"

text \<open>\<open>mutex::lock\<close>: a mutex that is held is waited for.\<close>

definition act_lock :: "(node \<Rightarrow> bool) \<Rightarrow> (node \<Rightarrow> node) \<Rightarrow> unit act" where
  "act_lock held acquire nd = (if held nd then None else Some (Inr (), acquire nd))"

definition publish_event :: "ros_event \<Rightarrow> unit act" where
  "publish_event e = act_mod (\<lambda>nd. nd\<lparr>published := published nd @ [e]\<rparr>)"

lemmas act_simps = act_return_def act_bind_def act_res_def act_get_def act_mod_def act_lock_def
  publish_event_def

definition act_frame :: "node \<Rightarrow> string" where
  "act_frame nd = tx_frame_id (sonar (parameters nd))"

section \<open>Publishing a BTH0 packet\<close>

definition set_detections_frame :: "string \<Rightarrow> SonarDetections \<Rightarrow> SonarDetections" where
  "set_detections_frame f m = m\<lparr>det_header := (det_header m)\<lparr>frame_id := f\<rparr>\<rparr>"

definition publish_detections :: "buffer \<Rightarrow> packet \<Rightarrow> unit act" where
  "publish_detections buf pkt =
     act_bind (act_get (\<lambda>nd. shouldPublish (pub_detections nd))) (\<lambda>should.
     if \<not> should then act_return ()
     else act_bind (act_get msg_detections) (\<lambda>m.
       act_bind (act_res (bth02SonarDetections buf pkt m)) (\<lambda>m.
       act_bind (act_get act_frame) (\<lambda>f.
       act_bind (act_mod (\<lambda>nd. nd\<lparr>msg_detections := set_detections_frame f m\<rparr>)) (\<lambda>_.
       publish_event (PubDetections (set_detections_frame f m)))))))"

definition publish_raw_bth0 :: "buffer \<Rightarrow> packet \<Rightarrow> unit act" where
  "publish_raw_bth0 buf pkt =
     act_bind (act_get (\<lambda>nd. shouldPublish (pub_bth0 nd))) (\<lambda>should.
     if \<not> should then act_return ()
     else act_bind (act_get msg_bth0) (\<lambda>m.
       act_bind (act_res (packet2RawPacket buf pkt m)) (\<lambda>m.
       act_bind (act_get act_frame) (\<lambda>f.
       act_bind (act_mod (\<lambda>nd. nd\<lparr>msg_bth0 := m\<lparr>raw_frame_id := f\<rparr>\<rparr>)) (\<lambda>_.
       publish_event (PubBTH0 (m\<lparr>raw_frame_id := f\<rparr>)))))))"

definition publish_bth0 :: "buffer \<Rightarrow> packet \<Rightarrow> unit act" where
  "publish_bth0 buf pkt =
     act_bind (act_res (packet_isType buf pkt)) (\<lambda>ok.
     if \<not> ok then act_return ()
     else
       act_bind (act_lock mtx_detections (mtx_detections_update (\<lambda>_. True))) (\<lambda>_.
       act_bind (act_lock mtx_bth0 (mtx_bth0_update (\<lambda>_. True))) (\<lambda>_.
       act_bind (publish_detections buf pkt) (\<lambda>_.
       act_bind (publish_raw_bth0 buf pkt) (\<lambda>_.
       act_mod (\<lambda>nd. nd\<lparr>mtx_detections := False, mtx_bth0 := False\<rparr>))))))"

section \<open>Publishing an AID0 packet\<close>

definition publish_raw_aid0 :: "buffer \<Rightarrow> packet \<Rightarrow> unit act" where
  "publish_raw_aid0 buf pkt =
     act_bind (act_get (\<lambda>nd. shouldPublish (pub_aid0 nd))) (\<lambda>should.
     if \<not> should then act_return ()
     else act_bind (act_get msg_aid0) (\<lambda>m.
       act_bind (act_res (packet2RawPacket buf pkt m)) (\<lambda>m.
       act_bind (act_get act_frame) (\<lambda>f.
       act_bind (act_mod (\<lambda>nd. nd\<lparr>msg_aid0 := m\<lparr>raw_frame_id := f\<rparr>\<rparr>)) (\<lambda>_.
       publish_event (PubAID0 (m\<lparr>raw_frame_id := f\<rparr>)))))))"

text \<open>The subtraction is on unsigned 32-bit numbers.\<close>

definition cleanMsgMap :: "u32 \<Rightarrow> (u32, 'v) std_map \<Rightarrow> (u32, 'v) std_map" where
  "cleanMsgMap ping_no m =
     fold (\<lambda>k m. if ping_no - 10 > k then map_erase k m else m) (map fst m) m"

text \<open>\<open>operator[]\<close>: a missing entry is a new assembler, over the memory \<open>mem\<close> holds.\<close>

definition assembler_at :: "bool \<times> H0_Body \<Rightarrow> u32 \<Rightarrow> (u32, assembler) std_map \<Rightarrow> assembler" where
  "assembler_at mem ping_no m =
     (case map_find ping_no m of Some a \<Rightarrow> a | None \<Rightarrow> new_assembler (fst mem) (snd mem))"

definition act_addPacket :: "buffer \<Rightarrow> packet \<Rightarrow> assembler \<Rightarrow> (bool \<times> assembler) act" where
  "act_addPacket buf pkt a nd = map_option (\<lambda>r. (r, nd)) (addPacket buf pkt a)"

definition set_image_frame :: "string \<Rightarrow> RawSonarImage \<Rightarrow> RawSonarImage" where
  "set_image_frame f img = img\<lparr>img_header := (img_header img)\<lparr>frame_id := f\<rparr>\<rparr>"

definition publish_image :: "bool \<times> H0_Body \<Rightarrow> buffer \<Rightarrow> packet \<Rightarrow> u32 \<Rightarrow> unit act" where
  "publish_image mem buf pkt ping_no =
     act_bind (act_get (\<lambda>nd. shouldPublish (pub_image nd))) (\<lambda>should.
     if \<not> should then act_return ()
     else act_bind (act_get (\<lambda>nd. assembler_at mem ping_no (assemblers nd))) (\<lambda>a.
       act_bind (act_mod (\<lambda>nd. nd\<lparr>assemblers := map_put ping_no a (assemblers nd)\<rparr>)) (\<lambda>_.
       act_bind (act_addPacket buf pkt a) (\<lambda>(complete, a).
       act_bind (act_mod (\<lambda>nd. nd\<lparr>assemblers := map_put ping_no a (assemblers nd)\<rparr>)) (\<lambda>_.
       if complete then
         act_bind (act_get act_frame) (\<lambda>f.
         act_bind (publish_event (PubImage (set_image_frame f (sonar_image a)))) (\<lambda>_.
         act_mod (\<lambda>nd. nd\<lparr>assemblers := cleanMsgMap ping_no (map_erase ping_no (assemblers nd))\<rparr>)))
       else act_return ())))))"

definition publish_aid0 :: "bool \<times> H0_Body \<Rightarrow> buffer \<Rightarrow> packet \<Rightarrow> unit act" where
  "publish_aid0 mem buf pkt =
     act_bind (act_res (packet_isType buf pkt)) (\<lambda>ok.
     if \<not> ok then act_return ()
     else
       act_bind (act_lock mtx_aid0 (mtx_aid0_update (\<lambda>_. True))) (\<lambda>_.
       act_bind (act_lock mtx_image (mtx_image_update (\<lambda>_. True))) (\<lambda>_.
       act_bind (act_res (AID0_getPingNo buf pkt)) (\<lambda>ping_no.
       act_bind (publish_raw_aid0 buf pkt) (\<lambda>_.
       act_bind (publish_image mem buf pkt ping_no) (\<lambda>_.
       act_mod (\<lambda>nd. nd\<lparr>mtx_aid0 := False, mtx_image := False\<rparr>)))))))"

section \<open>Cleaning the assemblers\<close>

lemma cleanMsgMap_erase_if: "cleanMsgMap ping_no m = std.erase_if (\<lambda>k. k < ping_no - 10) m"
  by (simp add: cleanMsgMap_def std.erase_if_def)

lemma cleanMsgMap_find:
  "map_sorted m \<Longrightarrow> map_find k (cleanMsgMap ping_no m) = (if k < ping_no - 10 then None else map_find k m)"
  by (simp add: cleanMsgMap_erase_if std.erase_if_find)

lemma clean_threshold:
  "unat ((ping_no :: u32) - 10) = (if 10 \<le> unat ping_no then unat ping_no - 10 else 4294967286 + unat ping_no)"
  by (simp add: unat_sub_if')

text \<open>
  C29: from ping 10 on, \<open>cleanMsgMap\<close> drops the assemblers of pings more than ten behind and no others.
  For the first ten pings the unsigned subtraction wraps: the assemblers of all pings are dropped,
  the ones of later pings included, but for ping numbers at the very end of the range.
\<close>

theorem clean_drops_old:
  assumes "map_sorted m"
  shows "map_find k (cleanMsgMap ping_no m)
    = (if (if 10 \<le> unat ping_no then unat k + 10 < unat ping_no else unat k < 4294967286 + unat ping_no)
       then None else map_find k m)"
  using assms by (auto simp: cleanMsgMap_find word_less_nat_alt clean_threshold)

theorem clean_drops_old_witness:
  "map_find (5 :: u32) (cleanMsgMap 20 [(5, ()), (12, ())]) = None
   \<and> map_find (12 :: u32) (cleanMsgMap 20 [(5, ()), (12, ())]) = Some ()
   \<and> map_find (4 :: u32) (cleanMsgMap 3 [(4, ()), (5, ())]) = None"
  using clean_drops_old [of "[(5, ()), (12, ())]" 5 20] clean_drops_old [of "[(5, ()), (12, ())]" 12 20]
    clean_drops_old [of "[(4, ()), (5, ())]" 4 3]
  by (simp add: map_sorted_def map_find_def)

end
