(* ===== verification/NodePublish.thy ===== *)
theory NodePublish
  imports Node
begin

text \<open>
  What the \<open>publish\<close> handlers do with a packet: a complete ping is published, an image section
  reaches its assembler and the last one publishes the image, an exception leaves the mutexes
  held, and each of the two handlers keeps to its own part of the node (\<open>thread_part\<close>).
\<close>

section \<open>A ping is published\<close>

definition bth0_unlocked :: "node \<Rightarrow> bool" where
  "bth0_unlocked nd \<longleftrightarrow> \<not> mtx_detections nd \<and> \<not> mtx_bth0 nd"

definition aid0_unlocked :: "node \<Rightarrow> bool" where
  "aid0_unlocked nd \<longleftrightarrow> \<not> mtx_aid0 nd \<and> \<not> mtx_image nd"

text \<open>
  The events of a ping: the detections its sections mean, then the packet's own bytes, cut to the
  16-bit size; each only where the topic is advertised, both with the configured frame.
\<close>

definition ping_events :: "node \<Rightarrow> u32 \<Rightarrow> section_data list \<Rightarrow> ros_event list" where
  "ping_events nd stream secs =
     (if pub_detections nd then [PubDetections (ping_detections (act_frame nd) secs)] else [])
   @ (if pub_bth0 nd then [PubBTH0 \<lparr>raw_frame_id = act_frame nd,
        raw_data = take (length (packet_bytes BTH0 stream secs) mod 65536) (packet_bytes BTH0 stream secs)\<rparr>] else [])"

lemma ping_detections_frame: "set_detections_frame f (ping_detections g secs) = ping_detections f secs"
  by (simp add: set_detections_frame_def ping_detections_def detections_of_def Let_def)

lemma ping_published:
  assumes "section_list_ok bth0_layout secs" and "tail_ok bth0_layout secs zs" and "bth0_complete secs h r"
    and free: "bth0_unlocked nd"
    and pkt: "buf = xs @ packet_bytes BTH0 stream secs @ zs" "pkt = mk_packet BTH0 (length xs)"
  shows "\<exists>nd'. publish_bth0 buf pkt nd = Some (Inr (), nd')
    \<and> published nd' = published nd @ ping_events nd stream secs \<and> bth0_unlocked nd'"
proof -
  have isT: "packet_isType buf pkt = Inr True"
    by (simp add: pkt packet_type_found)
  have det: "bth02SonarDetections buf pkt (msg_detections nd)
      = Inr (ping_detections (frame_id (det_header (msg_detections nd))) secs)"
    unfolding pkt by (rule view_conversion [OF bth0_packet_view [OF assms(1,2)] assms(3)])
  have raw: "packet2RawPacket buf pkt m = Inr (m\<lparr>raw_data :=
      take (length (packet_bytes BTH0 stream secs) mod 65536) (packet_bytes BTH0 stream secs)\<rparr>)" for m
    unfolding pkt by (rule raw_packet_copy)
  obtain f d where m: "msg_bth0 nd = \<lparr>raw_frame_id = f, raw_data = d\<rparr>" by (cases "msg_bth0 nd")
  show ?thesis
    using free
    by (simp add: publish_bth0_def act_simps isT bth0_unlocked_def publish_detections_def ping_events_def
        publish_raw_bth0_def shouldPublish_def det raw act_frame_def ping_detections_frame m)
qed

section \<open>A section of an image is published\<close>

lemma ping_no_of_section:
  assumes V: "aid0_view buf pkt secs pos" and h: "H0 \<notin> fst ` set secs" and d: "(M0, d) \<in> set secs"
    and len: "32 \<le> length d"
  shows "AID0_getPingNo buf pkt = Inr (get (M0_PingNumber (M0_Body_of (take 32 d))))"
proof -
  have "M0 \<in> fst ` set secs" using d by force
  then show ?thesis
    using h section_body [OF V d len]
    by (auto simp: AID0_getPingNo_def aid0_view_accessors [OF V] res_simps)
qed

lemma ping_no_of_header:
  assumes V: "aid0_view buf pkt secs pos" and h: "(H0, h) \<in> set secs" "sizeof_H0_Body \<le> length h"
    and m: "M0 \<notin> fst ` set secs"
  shows "AID0_getPingNo buf pkt = Inr (get (H0_PingNumber (H0_Body_of (take sizeof_H0_Body h))))"
proof -
  have "H0 \<in> fst ` set secs" using h(1) by force
  then show ?thesis
    using m by (simp add: AID0_getPingNo_def aid0_view_accessors [OF V] header_body_loaded [OF V h])
qed

lemma typed_view:
  assumes "aid0_view buf pkt secs pos"
  shows "packet_isType buf pkt = Inr True"
proof (cases "typeErrorCheck buf pkt")
  case (Inl e)
  then have "AID0_h0 buf pkt = Inl e" by (simp add: AID0_h0_def)
  then show ?thesis by (simp add: aid0_view_accessors [OF assms])
next
  case (Inr u)
  then show ?thesis by (simp add: typeErrorCheck_iff)
qed

text \<open>
  A section of a ping whose header has been received goes into that ping's assembler; the section
  that reaches the last bin publishes the image with it laid in, and the ping's assembler is
  removed. The mutexes are released.
\<close>

lemma image_section_published:
  assumes V: "aid0_view buf pkt secs pos" and h: "H0 \<notin> fst ` set secs" and d: "(M0, d) \<in> set secs"
    and b: "b = M0_Body_of (take 32 d)" and fits: "section_fits b d"
    and ping: "get (M0_PingNumber b) = ping" "map_find ping (assemblers nd) = Some a"
      "get (H0_PingNumber (h0_data a)) = ping"
    and sorted: "map_sorted (assemblers nd)"
    and free: "aid0_unlocked nd" and pubs: "pub_image nd" "\<not> pub_aid0 nd"
  shows "\<exists>a' nd'. publish_aid0 mem buf pkt nd = Some (Inr (), nd')
    \<and> shows_image b (image_data (sonar_image a')) (overlay b d (prior_image b a))
    \<and> (if get (M0_TotalBins b) \<le> get (M0_FirstBin b) + ucast (get (M0_Bins b))
       then published nd' = published nd @ [PubImage (set_image_frame (act_frame nd) (sonar_image a'))]
         \<and> map_find ping (assemblers nd') = None
       else published nd' = published nd \<and> map_find ping (assemblers nd') = Some a')
    \<and> aid0_unlocked nd'"
proof -
  have "get (H0_PingNumber (h0_data a)) = get (M0_PingNumber b)" using ping by simp
  from section_added [OF V h d b fits this] obtain a' where
    a': "addPacket buf pkt a = Some (Inr (get (M0_TotalBins b) \<le> get (M0_FirstBin b) + ucast (get (M0_Bins b)), a'))"
      "shows_image b (image_data (sonar_image a')) (overlay b d (prior_image b a))"
    by blast
  have "32 \<le> length d" using fits by (simp add: section_fits_def)
  then have no: "AID0_getPingNo buf pkt = Inr ping"
    using ping_no_of_section [OF V h d] ping(1) by (simp add: b)
  have at: "assembler_at mem ping (assemblers nd) = a"
    using ping(2) by (simp add: assembler_at_def)
  have sorted': "map_sorted (map_put ping x (assemblers nd))" for x
    using sorted by (rule map_sorted_put)
  show ?thesis
    using free pubs a'(2) map_sorted_erase [OF map_sorted_put [OF sorted'], of ping ping]
    by (intro exI [of _ a'])
      (simp add: publish_aid0_def act_simps typed_view [OF V] aid0_unlocked_def no publish_raw_aid0_def
        publish_image_def shouldPublish_def at act_addPacket_def a'(1) act_frame_def map_find_put
        cleanMsgMap_find map_find_erase)
qed

section \<open>Exceptions\<close>


section \<open>The handlers of the two receivers\<close>

text \<open>
  An action commutes with a change \<open>g\<close> of the node when it neither reads nor writes what \<open>g\<close>
  changes; \<open>f\<close> is kept by an action that writes nothing \<open>f\<close> shows.
\<close>

definition act_hom :: "(node \<Rightarrow> node) \<Rightarrow> 'a act \<Rightarrow> bool" where
  "act_hom g m \<longleftrightarrow> (\<forall>nd. m (g nd) = map_option (\<lambda>(r, nd'). (r, g nd')) (m nd))"

definition act_keeps :: "(node \<Rightarrow> 'b) \<Rightarrow> 'a act \<Rightarrow> bool" where
  "act_keeps f m \<longleftrightarrow> (\<forall>nd r nd'. m nd = Some (r, nd') \<longrightarrow> f nd' = f nd)"

named_theorems act_rules \<open>compositional rules for actions\<close>

lemma act_hom_bind [act_rules]:
  "act_hom g m \<Longrightarrow> (\<And>x. act_hom g (k x)) \<Longrightarrow> act_hom g (act_bind m k)"
  unfolding act_hom_def act_bind_def by (auto split: option.splits sum.splits prod.splits)

lemma act_hom_if [act_rules]: "act_hom g m \<Longrightarrow> act_hom g n \<Longrightarrow> act_hom g (if c then m else n)"
  by simp

lemma act_hom_prod [act_rules]: "(\<And>x y. act_hom g (k x y)) \<Longrightarrow> act_hom g (case p of (x, y) \<Rightarrow> k x y)"
  by (cases p) simp

lemma act_hom_return [act_rules]: "act_hom g (act_return x)"
  by (simp add: act_hom_def act_return_def)

lemma act_hom_res [act_rules]: "act_hom g (act_res r)"
  by (simp add: act_hom_def act_res_def)

lemma act_hom_get [act_rules]: "(\<And>nd. h (g nd) = h nd) \<Longrightarrow> act_hom g (act_get h)"
  by (simp add: act_hom_def act_get_def)

lemma act_hom_mod [act_rules]: "(\<And>nd. w (g nd) = g (w nd)) \<Longrightarrow> act_hom g (act_mod w)"
  by (simp add: act_hom_def act_mod_def)

lemma act_hom_lock [act_rules]:
  "(\<And>nd. h (g nd) = h nd) \<Longrightarrow> (\<And>nd. w (g nd) = g (w nd)) \<Longrightarrow> act_hom g (act_lock h w)"
  by (simp add: act_hom_def act_lock_def)

lemma act_hom_event [act_rules]:
  "(\<And>nd. (g nd)\<lparr>published := published (g nd) @ [e]\<rparr> = g (nd\<lparr>published := published nd @ [e]\<rparr>)) \<Longrightarrow>
   act_hom g (publish_event e)"
  unfolding publish_event_def by (rule act_hom_mod) simp

lemma act_keeps_bind [act_rules]:
  assumes "act_keeps f m" and "\<And>x. act_keeps f (k x)"
  shows "act_keeps f (act_bind m k)"
  unfolding act_keeps_def
proof (intro allI impI)
  fix nd r nd' assume run: "act_bind m k nd = Some (r, nd')"
  then obtain q nd1 where q: "m nd = Some (q, nd1)"
    by (auto simp: act_bind_def split: option.splits)
  then have "f nd1 = f nd" using assms(1) by (simp add: act_keeps_def)
  moreover have "f nd' = f nd1"
    using run q assms(2) by (cases q) (auto simp: act_bind_def act_keeps_def)
  ultimately show "f nd' = f nd" by simp
qed

lemma act_keeps_if [act_rules]: "act_keeps f m \<Longrightarrow> act_keeps f n \<Longrightarrow> act_keeps f (if c then m else n)"
  by simp

lemma act_keeps_prod [act_rules]: "(\<And>x y. act_keeps f (k x y)) \<Longrightarrow> act_keeps f (case p of (x, y) \<Rightarrow> k x y)"
  by (cases p) simp

lemma act_keeps_basic [act_rules]:
  "act_keeps f (act_return x)" "act_keeps f (act_res r)" "act_keeps f (act_get h)"
  by (simp_all add: act_keeps_def act_return_def act_res_def act_get_def)

lemma act_keeps_write [act_rules]:
  "(\<And>nd. f (w nd) = f nd) \<Longrightarrow> act_keeps f (act_mod w)"
  "(\<And>nd. f (w nd) = f nd) \<Longrightarrow> act_keeps f (act_lock h w)"
  by (simp_all add: act_keeps_def act_mod_def act_lock_def)

lemma act_keeps_event [act_rules]:
  "(\<And>nd. f (nd\<lparr>published := published nd @ [e]\<rparr>) = f nd) \<Longrightarrow> act_keeps f (publish_event e)"
  unfolding publish_event_def by (rule act_keeps_write) simp

lemma addPacket_rules [act_rules]: "act_hom g (act_addPacket buf pkt a)" "act_keeps f (act_addPacket buf pkt a)"
  by (auto simp: act_hom_def act_keeps_def act_addPacket_def option.map_comp comp_def)

text \<open>The part of the node each handler owns, taken from another node, and the events so far.\<close>

definition with_image_part :: "node \<Rightarrow> node \<Rightarrow> node" where
  "with_image_part src nd = nd\<lparr>msg_aid0 := msg_aid0 src, assemblers := assemblers src,
     mtx_image := mtx_image src, mtx_aid0 := mtx_aid0 src\<rparr>"

definition with_ping_part :: "node \<Rightarrow> node \<Rightarrow> node" where
  "with_ping_part src nd = nd\<lparr>msg_detections := msg_detections src, msg_bth0 := msg_bth0 src,
     mtx_detections := mtx_detections src, mtx_bth0 := mtx_bth0 src\<rparr>"

definition with_events :: "ros_event list \<Rightarrow> node \<Rightarrow> node" where
  "with_events es nd = nd\<lparr>published := es @ published nd\<rparr>"

definition quiet :: "node \<Rightarrow> node" where
  "quiet nd = nd\<lparr>published := []\<rparr>"

lemma quiet_simps [simp]:
  "quiet (quiet nd) = quiet nd" "quiet (with_events es nd) = quiet nd" "published (quiet nd) = []"
  "with_events es (with_events es' nd) = with_events (es @ es') nd"
  "published (with_events es nd) = es @ published nd"
  by (simp_all add: quiet_def with_events_def)

lemma with_events_quiet: "with_events (published nd) (quiet nd) = nd"
  by (simp add: quiet_def with_events_def)

text \<open>
  The contract between two threads: \<open>own\<close> and \<open>other\<close> overwrite disjoint parts of the node, and
  neither part has the events. An action that works on its own part only runs from any node as it
  runs from the silent node, with the earlier events in front and the other part untouched.
\<close>

locale thread_part =
  fixes own other :: "node \<Rightarrow> node \<Rightarrow> node"
  assumes own_self: "own nd nd = nd" and other_self: "other nd nd = nd"
    and own_own: "own s (own t nd) = own s nd" and own_other: "own s (other t nd) = other t (own s nd)"
    and own_quiet: "own s (quiet nd) = quiet (own s nd)" and other_quiet: "other s (quiet nd) = quiet (other s nd)"
    and own_events: "own s (with_events es nd) = with_events es (own s nd)"
    and other_events: "other s (with_events es nd) = with_events es (other s nd)"
    and own_silent: "own (with_events es s) nd = own s nd" and other_silent: "other (with_events es s) nd = other s nd"
begin

definition in_own_part :: "'a act \<Rightarrow> bool" where
  "in_own_part m \<longleftrightarrow> (\<forall>es src. act_hom (\<lambda>nd. with_events es (other src nd)) m)
     \<and> (\<forall>src. act_keeps (\<lambda>nd. quiet (own src nd)) m)"

lemma quiet_own_self: "quiet q = own q (quiet n) \<Longrightarrow> q = with_events (published q) (own q (quiet n))"
  using with_events_quiet [of q] by simp

lemma run_quiet:
  assumes m: "in_own_part m" and run: "m (with_events es (other t (quiet a))) = Some (r, nd')"
  obtains q where "m (quiet a) = Some (r, q)" "nd' = with_events es (other t q)" "quiet q = own q (quiet a)"
proof -
  have "m (with_events es (other t (quiet a)))
      = map_option (\<lambda>(r, q). (r, with_events es (other t q))) (m (quiet a))"
    using m by (simp add: in_own_part_def act_hom_def)
  with run obtain q where q: "m (quiet a) = Some (r, q)" "nd' = with_events es (other t q)" by auto
  have "quiet (own q q) = quiet (own q (quiet a))"
    using m q(1) by (simp add: in_own_part_def act_keeps_def)
  with q that show ?thesis by (simp add: own_self own_quiet)
qed

lemma run_from_quiet:
  assumes m: "in_own_part m" and run: "m nd = Some (r, nd')"
  obtains q where "m (quiet nd) = Some (r, q)" "nd' = with_events (published nd) q"
    "quiet q = own q (quiet nd)"
proof -
  have "nd = with_events (published nd) (other nd (quiet nd))"
    using with_events_quiet [of nd] by (simp add: other_quiet other_self)
  with run have "m (with_events (published nd) (other nd (quiet nd))) = Some (r, nd')" by simp
  from run_quiet [OF m this] obtain q where q: "m (quiet nd) = Some (r, q)"
    "nd' = with_events (published nd) (other nd q)" "quiet q = own q (quiet nd)" .
  have "other nd (own q (quiet nd)) = own q (quiet nd)"
    by (simp add: own_other [symmetric] other_quiet other_self)
  with q(3) have "other nd q = q"
    using with_events_quiet [of q] other_events by metis
  with q that show ?thesis by simp
qed

text \<open>And back: what it does from the silent node it does from any merge with another part.\<close>

lemma run_merged:
  assumes "in_own_part m" and "m (quiet a) = Some (r, q)"
  shows "m (with_events es (other t (quiet a))) = Some (r, with_events es (other t q))"
    and "m a = Some (r, with_events (published a) (other a q))"
proof -
  have hom: "m (with_events es (other t (quiet a))) = Some (r, with_events es (other t q))" for es t
    using assms by (simp add: in_own_part_def act_hom_def)
  then show "m (with_events es (other t (quiet a))) = Some (r, with_events es (other t q))" .
  have "with_events (published a) (other a (quiet a)) = a"
    using with_events_quiet [of a] by (simp add: other_quiet other_self)
  with hom [of "published a" a] show "m a = Some (r, with_events (published a) (other a q))" by simp
qed

text \<open>The step of a thread in a merged node is its step alone.\<close>

lemma merged_step:
  assumes m: "in_own_part m" and run: "m (with_events es (other t (quiet a))) = Some (r, nd')"
  obtains a' es' where "m a = Some (r, a')" "published a' = published a @ es'"
    "quiet a' = own a' (quiet a)" "nd' = with_events (es @ es') (other t (quiet a'))"
proof -
  from run_quiet [OF m run] obtain q where
    q: "m (quiet a) = Some (r, q)" "nd' = with_events es (other t q)" "quiet q = own q (quiet a)" .
  from run_merged(2) [OF m q(1)] have a': "m a = Some (r, with_events (published a) (other a q))" .
  have "other a (own q (quiet a)) = own q (quiet a)"
    by (simp add: own_other [symmetric] other_quiet other_self)
  with q(3) have same: "other a q = q"
    using with_events_quiet [of q] other_events by metis
  have "other t q = with_events (published q) (other t (quiet q))"
    using with_events_quiet [of q] other_events by metis
  with that [of "with_events (published a) q" "published q"] a' q(2,3) same show ?thesis
    by (simp add: own_silent)
qed

end

interpretation ping: thread_part with_ping_part with_image_part
  by unfold_locales (simp_all add: with_ping_part_def with_image_part_def quiet_def with_events_def)

interpretation image: thread_part with_image_part with_ping_part
  by unfold_locales (simp_all add: with_ping_part_def with_image_part_def quiet_def with_events_def)

lemmas part_defs = with_ping_part_def with_image_part_def with_events_def quiet_def act_frame_def

lemma bth0_in_part: "ping.in_own_part (publish_bth0 buf pkt)"
  unfolding ping.in_own_part_def publish_bth0_def publish_detections_def publish_raw_bth0_def
  by (intro conjI allI act_rules) (simp_all add: part_defs)

lemma aid0_in_part: "image.in_own_part (publish_aid0 mem buf pkt)"
  unfolding image.in_own_part_def publish_aid0_def publish_raw_aid0_def publish_image_def
  by (intro conjI allI act_rules) (simp_all add: part_defs)

section \<open>An idle node\<close>

definition sample_idle :: node where
  "sample_idle = \<lparr>parameters = sample_params, pub_detections = True, pub_bth0 = True, pub_image = True,
     pub_aid0 = False, msg_detections = SonarDetections0, msg_bth0 = RawPacket0, msg_aid0 = RawPacket0,
     assemblers = [(0, sample_assembler)], mtx_detections = False, mtx_bth0 = False, mtx_image = False,
     mtx_aid0 = False, published = []\<rparr>"

lemma sample_idle_facts:
  "bth0_unlocked sample_idle" "aid0_unlocked sample_idle" "pub_detections sample_idle" "pub_bth0 sample_idle"
  "pub_image sample_idle" "\<not> pub_aid0 sample_idle" "map_sorted (assemblers sample_idle)"
  "map_find 0 (assemblers sample_idle) = Some sample_assembler" "published sample_idle = []"
  by (simp_all add: sample_idle_def bth0_unlocked_def aid0_unlocked_def map_sorted_def map_find_def)

abbreviation no_memory :: "bool \<times> H0_Body" where
  "no_memory \<equiv> (False, H0_Body_of (replicate 112 0))"

lemma sample_one_tile:
  "get (M0_TotalBins (M0_Body_of (take 32 sample_section)))
     \<le> get (M0_FirstBin (M0_Body_of (take 32 sample_section))) + ucast (get (M0_Bins (M0_Body_of (take 32 sample_section))))"
  by (simp add: sample_section_def M0_Body_of_def field_be_def mem_eval)

lemma sample_image_view:
  "aid0_view (fst sample_arrival) (snd sample_arrival) [(M0, sample_section)] (\<lambda>t. section_pos 0 t [(M0, sample_section)])"
  using aid0_packet_view [OF sample_section_ok(1,2), of "[]" 0] by (simp add: sample_arrival_def)

lemma image_section_example:
  "\<exists>(a' :: assembler) nd'. publish_aid0 no_memory (fst sample_arrival) (snd sample_arrival) sample_idle = Some (Inr (), nd')
    \<and> published nd' = [PubImage (set_image_frame (act_frame sample_idle) (sonar_image a'))]
    \<and> map_find 0 (assemblers nd') = None"
proof -
  have hd: "H0 \<notin> fst ` set [(M0, sample_section)]" "(M0, sample_section) \<in> set [(M0, sample_section)]"
    by simp_all
  have ping: "get (H0_PingNumber (h0_data sample_assembler)) = 0"
    using sample_section_ok(4) sample_body(1) by simp
  show ?thesis
    using image_section_published [OF sample_image_view hd refl sample_section_ok(3) sample_body(1) sample_idle_facts(8) ping
        sample_idle_facts(7,2,5,6), of no_memory]
    by (simp only: sample_one_tile if_True sample_idle_facts(9) append_Nil) blast
qed

lemma sample_runs:
  "\<exists>nd1. publish_bth0 (sample_buffer sample_a2) sample_packet sample_idle = Some (Inr (), nd1) \<and> length (published nd1) = 2"
  "\<exists>nd2. publish_aid0 no_memory (packet_bytes AID0 0 [(H0, sample_header)] @ [0, 0]) (mk_packet AID0 0) sample_idle
      = Some (Inl (OutOfRange ''requested optional section was not in this packet''), nd2) \<and> published nd2 = []"
proof -
  show "\<exists>nd1. publish_bth0 (sample_buffer sample_a2) sample_packet sample_idle = Some (Inr (), nd1) \<and> length (published nd1) = 2"
    using ping_published [OF sample_ok(1,3,5) sample_idle_facts(1) refl refl, of "[]" 0 "[]"] sample_idle_facts(3,4,9)
    by (auto simp: sample_buffer_def ping_events_def)
  show "\<exists>nd2. publish_aid0 no_memory (packet_bytes AID0 0 [(H0, sample_header)] @ [0, 0]) (mk_packet AID0 0) sample_idle
      = Some (Inl (OutOfRange ''requested optional section was not in this packet''), nd2) \<and> published nd2 = []"
    using sample_idle_facts(2,5,6,9) ping_no_of_header [OF sample_header_views(2) _ sample_header_facts(2)]
      header_without_angles_throws [OF sample_header_views(2) _ sample_header_facts(2)]
    by (simp add: publish_aid0_def act_simps typed_view [OF sample_header_views(2)] aid0_unlocked_def
      publish_raw_aid0_def publish_image_def shouldPublish_def act_addPacket_def sample_header_facts(1))
qed


end
