(* ===== verification/Receiver.thy ===== *)
theory Receiver
  imports NodePublish
begin

text \<open>
  \<open>UdpReceiver\<close> and \<open>DatatypeReceiver\<close>: the bind loop, the receive buffer, and the handler that
  interprets a datagram and waits for the next one. The buffer is not cleared between datagrams.
  A receiver that reports an error does not wait again; an exception that leaves the handler
  leaves the thread and ends the process.
\<close>

section \<open>The local endpoint\<close>

text \<open>\<open>std::to_string\<close> of an \<open>int\<close>.\<close>

definition int_to_string :: "int \<Rightarrow> string" where
  "int_to_string i = (if i < 0 then CHR ''-'' # to_string (nat (- i)) else to_string (nat i))"

text \<open>\<open>std::atoi\<close>: white space, a sign, and digits up to the first other character; undefined outside \<open>int\<close>.\<close>

definition is_digit :: "char \<Rightarrow> bool" where
  "is_digit c \<longleftrightarrow> 48 \<le> (of_char c :: nat) \<and> (of_char c :: nat) \<le> 57"

definition is_space :: "char \<Rightarrow> bool" where
  "is_space c \<longleftrightarrow> (of_char c :: nat) = 32 \<or> 9 \<le> (of_char c :: nat) \<and> (of_char c :: nat) \<le> 13"

fun digits_value :: "int \<Rightarrow> string \<Rightarrow> int" where
  "digits_value v [] = v"
| "digits_value v (c # s) = (if is_digit c then digits_value (10 * v + (of_char c - 48)) s else v)"

definition atoi :: "string \<Rightarrow> int res" where
  "atoi s = int_result (case dropWhile is_space s of
       [] \<Rightarrow> 0
     | c # r \<Rightarrow> if c = CHR ''-'' then - digits_value 0 r
               else if c = CHR ''+'' then digits_value 0 r else digits_value 0 (c # r))"

text \<open>
  \<open>receive\<close> makes the endpoint of \<open>udp::v4()\<close>, any address, and the port, cut to 16 bits; the host is
  only printed. The overload for a port number prints the number and lets it be read again.
\<close>

definition local_endpoint :: "string \<Rightarrow> string \<Rightarrow> (u8 list \<times> u16) res" where
  "local_endpoint host port = ebind (atoi port) (\<lambda>p. Inr ([0, 0, 0, 0], word_of_int p))"

definition receive_int :: "string \<Rightarrow> int \<Rightarrow> (u8 list \<times> u16) res" where
  "receive_int host port = local_endpoint host (int_to_string port)"

text \<open>The argument of the receivers in \<open>main\<close>: an \<open>int\<close> sum.\<close>

definition receiver_endpoint :: "int \<Rightarrow> Parameters \<Rightarrow> (u8 list \<times> u16) res" where
  "receiver_endpoint offset P =
     ebind (int_result (net_gui_baseport (network P) + offset)) (receive_int (interface_ip (sonar P)))"

lemma digits_value_snoc:
  "list_all is_digit s \<Longrightarrow> is_digit c \<Longrightarrow> digits_value v (s @ [c]) = 10 * digits_value v s + (of_char c - 48)"
  by (induction s arbitrary: v) simp_all

lemma of_char_int: "(of_char c :: int) = int (of_char c)"
  by (metis of_nat_of_char)

lemma digit_char: "n < 10 \<Longrightarrow> is_digit (char_of (48 + n))" "n < 10 \<Longrightarrow> of_char (char_of (48 + n) :: char) = (48 + int n)"
  by (simp_all add: is_digit_def of_char_int)

lemma to_string_digits: "list_all is_digit (to_string n) \<and> digits_value 0 (to_string n) = int n"
proof (induction n rule: to_string.induct)
  case (1 n)
  show ?case
  proof (cases "n < 10")
    case True
    then show ?thesis by (subst (1 2) to_string.simps) (simp add: digit_char)
  next
    case False
    have d: "n mod 10 < 10" by simp
    from False 1 have IH: "list_all is_digit (to_string (n div 10))" "digits_value 0 (to_string (n div 10)) = int (n div 10)"
      by simp_all
    have "int (10 * (n div 10) + n mod 10) = int n" by (simp only: mult_div_mod_eq)
    then have "10 * int (n div 10) + int (n mod 10) = int n" by (simp only: of_nat_add of_nat_mult of_nat_numeral)
    with False show ?thesis
      using digits_value_snoc [OF IH(1) digit_char(1) [OF d], of 0]
      by (subst (1 2) to_string.simps) (simp add: IH digit_char [OF d])
  qed
qed

lemma to_string_head: "\<exists>c s. to_string n = c # s \<and> is_digit c"
proof -
  have "to_string n \<noteq> []" by (subst to_string.simps) simp
  then show ?thesis using to_string_digits [of n] by (cases "to_string n") auto
qed

lemma atoi_to_string: "atoi (int_to_string i) = int_result i"
proof -
  obtain c s where cs: "to_string (nat \<bar>i\<bar>) = c # s" "is_digit c" using to_string_head by blast
  have c: "\<not> is_space c" "c \<noteq> CHR ''-''" "c \<noteq> CHR ''+''" "\<not> is_space (CHR ''-'')"
    using cs(2) by (auto simp: is_digit_def is_space_def)
  have "digits_value 0 (c # s) = \<bar>i\<bar>" using to_string_digits [of "nat \<bar>i\<bar>"] cs by simp
  then show ?thesis
    using cs c by (cases "i < 0") (simp_all add: atoi_def int_to_string_def)
qed


section \<open>Binding\<close>

datatype bind_outcome = Bound nat | ShutDown nat

text \<open>
  Each attempt is what \<open>rclcpp::ok()\<close> says and whether \<open>bind\<close> succeeds; the number is
  \<open>retry_count\<close>. \<open>None\<close>: still trying after the given attempts.
\<close>

fun bind_loop :: "(bool \<times> bool) list \<Rightarrow> nat \<Rightarrow> bind_outcome option" where
  "bind_loop [] retry_count = None"
| "bind_loop ((ok, bound) # attempts) retry_count =
     (if \<not> ok then Some (ShutDown retry_count)
      else if bound then Some (Bound retry_count)
      else bind_loop attempts (retry_count + 1))"

text \<open>\<open>receive\<close> waits for datagrams when the loop is over and the node is still up.\<close>

definition receive_listens :: "(bool \<times> bool) list \<Rightarrow> bool \<Rightarrow> bool" where
  "receive_listens attempts ok_after = (bind_loop attempts 0 \<noteq> None \<and> ok_after)"

text \<open>
  The bind loop reports success, with the number of failures before it, exactly at the first
  attempt that succeeds, and only when the node was up at every attempt until then.
\<close>

lemma bind_loop_first_success:
  "bind_loop attempts r = Some (Bound n) \<longleftrightarrow>
     r \<le> n \<and> n - r < length attempts \<and> attempts ! (n - r) = (True, True)
     \<and> (\<forall>i < n - r. attempts ! i = (True, False))"
proof (induction attempts r rule: bind_loop.induct)
  case (1 r)
  then show ?case by simp
next
  case (2 ok bound attempts r)
  show ?case
  proof (cases "ok \<and> \<not> bound")
    case True
    have "(\<forall>i < n - r. ((ok, bound) # attempts) ! i = (True, False)) \<longleftrightarrow>
        (\<forall>i < n - Suc r. attempts ! i = (True, False))" if "Suc r \<le> n"
    proof -
      have "n - r = Suc (n - Suc r)" using that by simp
      then show ?thesis using True by (simp add: All_less_Suc2)
    qed
    moreover have "((ok, bound) # attempts) ! (n - r) = attempts ! (n - Suc r)" if "Suc r \<le> n"
      using that by (simp add: nth_Cons' Suc_diff_Suc)
    ultimately show ?thesis
      using 2 True by (cases "Suc r \<le> n") (auto simp: not_less_eq_eq le_Suc_eq)
  next
    case False
    then show ?thesis by (cases "n = r") (auto simp: le_less intro!: exI [of _ 0])
  qed
qed

section \<open>The handler\<close>

text \<open>
  What a receiver thread is doing. \<open>receive\<close> binds, looks at \<open>rclcpp::ok()\<close> again, and waits in \<open>run\<close>;
  \<open>run\<close> returns, and with it the thread, when it is stopped or when nothing is waited for any more.
\<close>

datatype recv_phase =
    Binding nat  \<comment> \<open>in the bind loop, with \<open>retry_count\<close>\<close>
  | Checking     \<comment> \<open>behind the loop, before the check for a shutdown\<close>
  | Receiving
  | Deaf         \<comment> \<open>an error was reported, nothing is waited for\<close>
  | Stopped      \<comment> \<open>the thread has returned\<close>
  | Waiting      \<comment> \<open>the handler has not returned: a held mutex or an endless loop\<close>
  | Terminated   \<comment> \<open>an exception has left the thread\<close>

text \<open>One turn of \<open>receive\<close>: \<open>up\<close> is \<open>rclcpp::ok()\<close>, \<open>bound\<close> whether \<open>bind\<close> succeeds.\<close>

fun receive_turn :: "bool \<Rightarrow> bool \<Rightarrow> recv_phase \<Rightarrow> recv_phase" where
  "receive_turn up bound (Binding retry_count) =
     (if up then (if bound then Checking else Binding (retry_count + 1)) else Checking)"
| "receive_turn up bound Checking = (if up then Receiving else Stopped)"
| "receive_turn up bound phase = phase"

text \<open>A turn of a thread that is binding is an iteration of the loop.\<close>

lemma bind_loop_turn:
  "bind_loop (a # attempts) r = (case receive_turn (fst a) (snd a) (Binding r) of
     Binding n \<Rightarrow> bind_loop attempts n | _ \<Rightarrow> Some (if fst a then Bound r else ShutDown r))"
  by (cases a) simp

definition RECV_BUFFER :: nat where
  "RECV_BUFFER = 262144"

text \<open>The packet type of a \<open>DatatypeReceiver\<close>; \<open>None\<close> for the plain \<open>UdpReceiver\<close>.\<close>

record receiver =
  recv_type :: "packet_type option"
  recv_buffer :: buffer
  recv_phase :: recv_phase

datatype recv_event = Datagram "u8 list" | ReceiveError

text \<open>\<open>memory\<close>: what new assemblers find in their uninitialised members.\<close>

definition receiveImpl :: "bool \<times> H0_Body \<Rightarrow> packet_type option \<Rightarrow> buffer \<Rightarrow> unit act" where
  "receiveImpl mem ty buf =
     (case ty of
        None \<Rightarrow> act_return ()
      | Some t \<Rightarrow> act_bind (act_res (packet_isType buf (mk_packet t 0))) (\<lambda>ok.
          if ok then
            (case t of BTH0 \<Rightarrow> publish_bth0 buf (mk_packet BTH0 0)
                     | AID0 \<Rightarrow> publish_aid0 mem buf (mk_packet AID0 0))
          else act_return ()))"

text \<open>
  A datagram overwrites the front of the buffer, cut to the buffer's size. A handler that never
  returns shows no state of its own: its receiver is \<open>Waiting\<close> and the node is left as it was.
\<close>

definition store_datagram :: "u8 list \<Rightarrow> buffer \<Rightarrow> buffer" where
  "store_datagram bs buf = take RECV_BUFFER bs @ drop (length bs) buf"

definition receiveHandler :: "bool \<times> H0_Body \<Rightarrow> recv_event \<Rightarrow> receiver \<times> node \<Rightarrow> receiver \<times> node" where
  "receiveHandler mem ev s = (case s of (rc, nd) \<Rightarrow>
     (case ev of
        ReceiveError \<Rightarrow> (rc\<lparr>recv_phase := Deaf\<rparr>, nd)
      | Datagram bs \<Rightarrow>
          let rc = rc\<lparr>recv_buffer := store_datagram bs (recv_buffer rc)\<rparr>
          in (case receiveImpl mem (recv_type rc) (recv_buffer rc) nd of
                None \<Rightarrow> (rc\<lparr>recv_phase := Waiting\<rparr>, nd)
              | Some (Inl e, nd') \<Rightarrow> (rc\<lparr>recv_phase := Terminated\<rparr>, nd')
              | Some (Inr u, nd') \<Rightarrow> (rc, nd'))))"

lemma length_store_datagram: "length buf = RECV_BUFFER \<Longrightarrow> length (store_datagram bs buf) = RECV_BUFFER"
  by (simp add: store_datagram_def min_def)

lemma receiveHandler_buffer:
  "length (recv_buffer rc) = RECV_BUFFER \<Longrightarrow>
   length (recv_buffer (fst (receiveHandler mem ev (rc, nd)))) = RECV_BUFFER"
  by (auto simp: receiveHandler_def Let_def length_store_datagram
      split: recv_event.split option.split sum.split prod.split)

lemma receiveHandler_type: "recv_type (fst (receiveHandler mem ev (rc, nd))) = recv_type rc"
  by (auto simp: receiveHandler_def Let_def split: recv_event.split option.split sum.split prod.split)

lemma bind_loop_example:
  "bind_loop [(True, False), (True, True), (True, False)] 0 = Some (Bound 1)"
  unfolding bind_loop_first_success by simp

section \<open>Bytes of an earlier datagram\<close>

lemma quality_nibble_prefix:
  "k div 2 < length d \<Longrightarrow> quality_nibble (d @ zs) k = quality_nibble d k"
  by (simp add: quality_nibble_def nth_append)

lemma packet_bytes_snoc:
  "\<exists>hdr. packet_bytes t st (old @ [(u, d)]) = hdr @ section_bytes u d \<and> length hdr = 12 + length (sections_bytes old)"
  by (intro exI [of _ "take (12 + length (sections_bytes old)) (packet_bytes t st (old @ [(u, d)]))"])
    (simp add: packet_bytes_def)

text \<open>
  C36: the buffer is not cleared and the walk over the sections does not know where the packet ends.
  When a ping with quality flags is followed by one without, whose other sections have the same
  total length, the new ping is given the flags of the earlier one.
\<close>

theorem stale_flags_reported:
  assumes old: "length (sections_bytes old) = length (sections_bytes secs)"
    and fits: "length (packet_bytes BTH0 st (old @ [(Q0, d)])) \<le> RECV_BUFFER" and mem: "length mem = RECV_BUFFER"
    and ok: "section_list_ok bth0_layout secs" and absent: "Q0 \<notin> fst ` set secs"
    and buf: "buf = store_datagram (packet_bytes BTH0 st' secs)
      (store_datagram (packet_bytes BTH0 st (old @ [(Q0, d)])) mem)"
  shows "\<exists>q. BTH0_q0 buf (mk_packet BTH0 0) = Inr q \<and> section_exists buf q = Inr True
    \<and> (\<forall>k. 4 * (unat k div 8) + 4 \<le> length d \<longrightarrow>
          getQualityFlag buf q k = Inr (quality_nibble d (unat k)))"
proof -
  define p where "p = length (packet_bytes BTH0 st' secs)"
  define rest where "rest = drop (length (packet_bytes BTH0 st (old @ [(Q0, d)]))) mem"
  have p: "p = 12 + length (sections_bytes old)" "p \<le> RECV_BUFFER" "p + 4 + length d \<le> RECV_BUFFER"
    using fits by (simp_all add: p_def old section_bytes_def)
  obtain hdr where hdr: "packet_bytes BTH0 st (old @ [(Q0, d)]) = hdr @ section_bytes Q0 d" "length hdr = p"
    using packet_bytes_snoc [of BTH0 st old Q0 d] p(1) by auto
  have "buf = packet_bytes BTH0 st' secs @ section_bytes Q0 d @ rest"
    using fits hdr(2) p(2) unfolding buf rest_def hdr(1) store_datagram_def
    by (simp flip: p_def del: length_packet_bytes)
  note bytes = this
  let ?q = "mk_section Q0 p"
  have found: "BTH0_q0 buf (mk_packet BTH0 0) = Inr ?q" "section_exists buf ?q = Inr True"
    using stale_section_found [OF ok absent, of "section_bytes Q0 d @ rest" "[]" st']
    by (simp_all add: bytes p_def section_bytes_def)
  have data: "drop (p + 4) buf = d @ rest"
    by (simp add: bytes p_def section_bytes_def)
  have "getQualityFlag buf ?q k = Inr (quality_nibble d (unat k))"
    if k: "4 * (unat k div 8) + 4 \<le> length d" for k
  proof -
    have "unat k div 2 < length d" using k by linarith
    moreover have "start_bit ?q + 4 + 4 * (unat k div 8) + 4 \<le> length buf"
      using k by (simp add: mk_section_def bytes p_def section_bytes_def)
    ultimately show ?thesis
      using quality_flag_word [of ?q k buf] data quality_nibble_prefix by (simp add: mk_section_def)
  qed
  with found show ?thesis by blast
qed

theorem stale_flags_reported_witness:
  "\<exists>q. BTH0_q0 (store_datagram (packet_bytes BTH0 2 []) (store_datagram (packet_bytes BTH0 1 ([] @ [(Q0, [0x84, 0xC1, 0, 0])]))
        (replicate RECV_BUFFER 0))) (mk_packet BTH0 0) = Inr q
    \<and> getQualityFlag (store_datagram (packet_bytes BTH0 2 []) (store_datagram (packet_bytes BTH0 1 ([] @ [(Q0, [0x84, 0xC1, 0, 0])]))
        (replicate RECV_BUFFER 0))) q 0 = Inr 8"
proof -
  have "quality_nibble [0x84, 0xC1, 0, 0] 0 = 8" by (simp add: quality_nibble_def)
  then show ?thesis
    using stale_flags_reported [of "[]" "[]" 1 "[0x84, 0xC1, 0, 0]" "replicate RECV_BUFFER 0" _ 2, OF _ _ _ _ _ refl]
    by (force simp: section_list_ok_def RECV_BUFFER_def section_bytes_def)
qed

end
