(* ===== verification/Runs.thy ===== *)
theory Runs
  imports Main
begin

text \<open>
  Runs of a labelled step relation, and simulations between two of them. The program is given twice,
  by the runs of its handlers and by the statements of its threads; the interface between the two
  is the locale \<open>simulation\<close>.
\<close>

section \<open>Runs\<close>

inductive lts_run :: "('l \<Rightarrow> 's \<Rightarrow> 's \<Rightarrow> bool) \<Rightarrow> 's \<Rightarrow> 'l list \<Rightarrow> 's \<Rightarrow> bool"
  for step s where
  run_start: "lts_run step s [] s"
| run_step: "lts_run step s tr t \<Longrightarrow> step l t t' \<Longrightarrow> lts_run step s (tr @ [l]) t'"

lemma run_one: "step l s s' \<Longrightarrow> lts_run step s [l] s'"
  using run_step [OF run_start, of step l s s'] by simp

lemma run_append: "lts_run step t tr' u \<Longrightarrow> lts_run step s tr t \<Longrightarrow> lts_run step s (tr @ tr') u"
proof (induction rule: lts_run.induct)
  case (run_step tr' t' l t'')
  then show ?case using lts_run.run_step [of step s "tr @ tr'" t' l t''] by simp
qed simp

lemma run_cons: "step l s s' \<Longrightarrow> lts_run step s' tr t \<Longrightarrow> lts_run step s (l # tr) t"
  using run_append [OF _ run_one, of step s' tr t l s] by simp

lemma lts_run_moves: "lts_run step s tr s' \<Longrightarrow> (\<lambda>s s'. \<exists>l. step l s s')\<^sup>*\<^sup>* s s'"
proof (induction rule: lts_run.induct)
  case (run_step tr t l t')
  then show ?case by (blast intro: rtranclp.rtrancl_into_rtrancl)
qed simp

lemma lts_moves_run: "(\<lambda>s s'. \<exists>l. step l s s')\<^sup>*\<^sup>* s s' \<Longrightarrow> \<exists>tr. lts_run step s tr s'"
  by (induction rule: rtranclp_induct) (blast intro: run_start run_step)+

section \<open>Simulations\<close>

text \<open>
  Two descriptions of a program, a state of one matching a state of the other together with the
  labels that have led to them: a step of the first is matched by some steps of the second.
\<close>

locale simulation =
  fixes step :: "'l \<Rightarrow> 's \<Rightarrow> 's \<Rightarrow> bool" and abstract :: "'k \<Rightarrow> 't \<Rightarrow> 't \<Rightarrow> bool"
    and match :: "'s \<Rightarrow> 'l list \<Rightarrow> 't \<Rightarrow> 'k list \<Rightarrow> bool"
  assumes simulated: "step l s s' \<Longrightarrow> match s tr t tr' \<Longrightarrow>
    \<exists>t' ks. lts_run abstract t ks t' \<and> match s' (tr @ [l]) t' (tr' @ ks)"
begin

lemma run_simulated:
  assumes "lts_run step s tr s'" and "match s [] t []"
  shows "\<exists>t' tr'. lts_run abstract t tr' t' \<and> match s' tr t' tr'"
  using assms(1)
proof (induction rule: lts_run.induct)
  case run_start
  have "lts_run abstract t [] t" by (rule lts_run.run_start)
  with assms(2) show ?case by blast
next
  case (run_step tr u l u')
  then obtain v tr' where v: "lts_run abstract t tr' v" "match u tr v tr'" by blast
  from simulated [OF run_step.hyps(2) v(2)] obtain v' ks where
    "lts_run abstract v ks v'" "match u' (tr @ [l]) v' (tr' @ ks)" by blast
  with run_append [OF _ v(1)] show ?case by blast
qed

end

end
