(* ===== verification/System.thy ===== *)
theory System
  imports Receiver Runs
begin

text \<open>
  The program of \<open>nodes/r2sonic_node.cpp\<close>: three receiver threads over one node, the timer and the
  parameter callback of the executor. A step is one datagram handled, one error reported, one
  update or one round of the timer, labelled with what a receiver is handed in it. The system
  invariant is proved by induction over the steps; that a shutdown can be completed while no handler
  is held up, by constructing its steps.
\<close>

section \<open>The system\<close>

text \<open>\<open>main\<close>: in \<open>spin\<close>, behind it and joining the threads, or returned.\<close>

datatype main_phase = Spinning | Joining | Exited

text \<open>The receivers are told apart by their packet type, \<open>None\<close> for the plain one.\<close>

type_synonym receiver_id = "packet_type option"

record 'addr system =
  recs :: "receiver_id \<Rightarrow> receiver"
  sys_node :: node
  outbox :: "'addr datagram list"
  up :: bool
  main :: main_phase
  crashed :: bool

definition phase :: "'addr system \<Rightarrow> receiver_id \<Rightarrow> recv_phase" where
  "phase s i = recv_phase (recs s i)"

definition set_phase :: "receiver_id \<Rightarrow> recv_phase \<Rightarrow> 'addr system \<Rightarrow> 'addr system" where
  "set_phase i ph s = s\<lparr>recs := (recs s)(i := (recs s i)\<lparr>recv_phase := ph\<rparr>)\<rparr>"

text \<open>The process runs: no exception has left a thread, and \<open>main\<close> has not returned.\<close>

definition running :: "'addr system \<Rightarrow> bool" where
  "running s \<longleftrightarrow> \<not> crashed s \<and> main s \<noteq> Exited \<and> (\<forall>i. phase s i \<noteq> Terminated)"

definition new_receiver :: "receiver_id \<Rightarrow> buffer \<Rightarrow> receiver" where
  "new_receiver ty mem = \<lparr>recv_type = ty, recv_buffer = mem, recv_phase = Binding 0\<rparr>"

text \<open>\<open>main\<close> before \<open>spin\<close>: the node and the three receivers, over buffers the memory fills.\<close>

definition start_system :: "node \<Rightarrow> (receiver_id \<Rightarrow> buffer) \<Rightarrow> 'addr system" where
  "start_system nd bufs =
     \<lparr>recs = (\<lambda>i. new_receiver i (bufs i)), sys_node = nd, outbox = [], up = True, main = Spinning, crashed = False\<rparr>"

text \<open>
  A step is labelled with what a receiver has been handed: the event, and the memory a new
  assembler finds in its uninitialised members.
\<close>

datatype sys_label = Received receiver_id "bool \<times> H0_Body" recv_event | Internal

inductive sys_step :: "'addr udp_env \<Rightarrow> inet_pton \<Rightarrow> sys_label \<Rightarrow> 'addr system \<Rightarrow> 'addr system \<Rightarrow> bool"
  for env pton where
  bind: "running s \<Longrightarrow> phase s i = Binding n \<or> phase s i = Checking \<Longrightarrow>
    sys_step env pton Internal s (set_phase i (receive_turn (up s) bound (phase s i)) s)"
| handle: "running s \<Longrightarrow> phase s i = Receiving \<Longrightarrow>
    receiveHandler mem ev (recs s i, sys_node s) = (rc, nd) \<Longrightarrow>
    sys_step env pton (Received i mem ev) s (s\<lparr>recs := (recs s)(i := rc), sys_node := nd\<rparr>)"
| update: "running s \<Longrightarrow> main s = Spinning \<Longrightarrow>
    snd (onParameterUpdate pton what ps (parameters (sys_node s))) = P \<Longrightarrow>
    sys_step env pton Internal s (s\<lparr>sys_node := (sys_node s)\<lparr>parameters := P\<rparr>\<rparr>)"
| timer: "running s \<Longrightarrow> main s = Spinning \<Longrightarrow>
    send_cmds env pton mem (parameters (sys_node s)) = (Inr u, w) \<Longrightarrow>
    sys_step env pton Internal s (s\<lparr>outbox := outbox s @ w\<rparr>)"
| timer_throws: "running s \<Longrightarrow> main s = Spinning \<Longrightarrow>
    send_cmds env pton mem (parameters (sys_node s)) = (Inl e, w) \<Longrightarrow>
    sys_step env pton Internal s (s\<lparr>outbox := outbox s @ w, crashed := True\<rparr>)"
| signal: "running s \<Longrightarrow> sys_step env pton Internal s (s\<lparr>up := False\<rparr>)"
| spin_returns: "running s \<Longrightarrow> main s = Spinning \<Longrightarrow> \<not> up s \<Longrightarrow> sys_step env pton Internal s (s\<lparr>main := Joining\<rparr>)"
| stop: "running s \<Longrightarrow> main s = Joining \<Longrightarrow> phase s i = Receiving \<Longrightarrow>
    sys_step env pton Internal s (set_phase i Stopped s)"
| join: "running s \<Longrightarrow> main s = Joining \<Longrightarrow> \<forall>i. phase s i \<in> {Stopped, Deaf} \<Longrightarrow>
    sys_step env pton Internal s (s\<lparr>main := Exited\<rparr>)"

definition sys_move :: "'addr udp_env \<Rightarrow> inet_pton \<Rightarrow> 'addr system \<Rightarrow> 'addr system \<Rightarrow> bool" where
  "sys_move env pton s s' \<longleftrightarrow> (\<exists>l. sys_step env pton l s s')"

text \<open>A run, with the events the receivers were handed in it.\<close>

abbreviation sys_run :: "'addr udp_env \<Rightarrow> inet_pton \<Rightarrow> 'addr system \<Rightarrow> sys_label list \<Rightarrow> 'addr system \<Rightarrow> bool" where
  "sys_run env pton \<equiv> lts_run (sys_step env pton)"

lemma sys_moveI: "sys_step env pton l s s' \<Longrightarrow> sys_move env pton s s'"
  by (auto simp: sys_move_def)

lemma run_moves: "sys_run env pton s tr s' \<Longrightarrow> (sys_move env pton)\<^sup>*\<^sup>* s s'"
  using lts_run_moves unfolding sys_move_def by fast

lemma moves_run: "(sys_move env pton)\<^sup>*\<^sup>* s s' \<Longrightarrow> \<exists>tr. sys_run env pton s tr s'"
  using lts_moves_run unfolding sys_move_def by fast

lemma sys_move_cases [consumes 1, case_names bind handle update timer timer_throws signal spin_returns stop join]:
  assumes "sys_move env pton s s'"
  obtains
    (bind) i n bound where "s' = set_phase i (receive_turn (up s) bound (phase s i)) s" "running s"
      "phase s i = Binding n \<or> phase s i = Checking"
  | (handle) i mem ev rc nd where "s' = s\<lparr>recs := (recs s)(i := rc), sys_node := nd\<rparr>" "running s"
      "phase s i = Receiving" "receiveHandler mem ev (recs s i, sys_node s) = (rc, nd)"
  | (update) what ps P where "s' = s\<lparr>sys_node := (sys_node s)\<lparr>parameters := P\<rparr>\<rparr>" "running s" "main s = Spinning"
      "snd (onParameterUpdate pton what ps (parameters (sys_node s))) = P"
  | (timer) mem u w where "s' = s\<lparr>outbox := outbox s @ w\<rparr>" "running s" "main s = Spinning"
      "send_cmds env pton mem (parameters (sys_node s)) = (Inr u, w)"
  | (timer_throws) mem e w where "s' = s\<lparr>outbox := outbox s @ w, crashed := True\<rparr>" "running s" "main s = Spinning"
      "send_cmds env pton mem (parameters (sys_node s)) = (Inl e, w)"
  | (signal) "s' = s\<lparr>up := False\<rparr>" "running s"
  | (spin_returns) "s' = s\<lparr>main := Joining\<rparr>" "running s" "main s = Spinning" "\<not> up s"
  | (stop) i where "s' = set_phase i Stopped s" "running s" "main s = Joining" "phase s i = Receiving"
  | (join) "s' = s\<lparr>main := Exited\<rparr>" "running s" "main s = Joining" "\<forall>i. phase s i \<in> {Stopped, Deaf}"
  using assms unfolding sys_move_def by (elim exE) (erule sys_step.cases; blast)

lemma set_phase_simps [simp]:
  "recs (set_phase i ph s) = (recs s)(i := (recs s i)\<lparr>recv_phase := ph\<rparr>)" "sys_node (set_phase i ph s) = sys_node s"
  "outbox (set_phase i ph s) = outbox s" "up (set_phase i ph s) = up s" "main (set_phase i ph s) = main s"
  "crashed (set_phase i ph s) = crashed s" "phase (set_phase i ph s) = (phase s)(i := ph)"
  by (auto simp: set_phase_def phase_def)

section \<open>What the handlers preserve\<close>

definition act_pres :: "(node \<Rightarrow> bool) \<Rightarrow> 'a act \<Rightarrow> bool" where
  "act_pres I m \<longleftrightarrow> (\<forall>nd r nd'. m nd = Some (r, nd') \<longrightarrow> I nd \<longrightarrow> I nd')"

lemma act_pres_bind [act_rules]:
  assumes "act_pres I m" and "\<And>x. act_pres I (k x)"
  shows "act_pres I (act_bind m k)"
  unfolding act_pres_def
proof (intro allI impI)
  fix nd r nd' assume run: "act_bind m k nd = Some (r, nd')" and nd: "I nd"
  then obtain q nd1 where q: "m nd = Some (q, nd1)"
    by (auto simp: act_bind_def split: option.splits)
  then have "I nd1" using assms(1) nd by (simp add: act_pres_def)
  then show "I nd'"
    using run q assms(2) by (cases q) (auto simp: act_bind_def act_pres_def)
qed

lemma act_pres_if [act_rules]: "act_pres I m \<Longrightarrow> act_pres I n \<Longrightarrow> act_pres I (if c then m else n)"
  by simp

lemma act_pres_prod [act_rules]: "(\<And>x y. act_pres I (k x y)) \<Longrightarrow> act_pres I (case p of (x, y) \<Rightarrow> k x y)"
  by (cases p) simp

lemma act_pres_basic [act_rules]:
  "act_pres I (act_return x)" "act_pres I (act_res r)" "act_pres I (act_get h)"
  "act_pres I (act_addPacket buf pkt a)"
  by (auto simp: act_pres_def act_return_def act_res_def act_get_def act_addPacket_def)

lemma act_pres_write [act_rules]:
  "(\<And>nd. I nd \<Longrightarrow> I (w nd)) \<Longrightarrow> act_pres I (act_mod w)"
  "(\<And>nd. I nd \<Longrightarrow> I (w nd)) \<Longrightarrow> act_pres I (act_lock h w)"
  by (simp_all add: act_pres_def act_mod_def act_lock_def)

lemma act_pres_event [act_rules]:
  "(\<And>nd. I nd \<Longrightarrow> I (nd\<lparr>published := published nd @ [e]\<rparr>)) \<Longrightarrow> act_pres I (publish_event e)"
  unfolding publish_event_def by (rule act_pres_write)

text \<open>The assemblers stay a map.\<close>

lemma map_sorted_clean: "map_sorted m \<Longrightarrow> map_sorted (cleanMsgMap n m)"
  by (simp add: cleanMsgMap_erase_if std.erase_if_invar)

lemma aid0_sorted: "act_pres (\<lambda>nd. map_sorted (assemblers nd)) (publish_aid0 mem buf pkt)"
  unfolding publish_aid0_def publish_raw_aid0_def publish_image_def
  by (intro act_rules) (simp_all add: map_sorted_put map_sorted_erase map_sorted_clean)

lemma bth0_sorted: "act_pres (\<lambda>nd. map_sorted (assemblers nd)) (publish_bth0 buf pkt)"
  unfolding publish_bth0_def publish_detections_def publish_raw_bth0_def
  by (intro act_rules) simp_all

text \<open>A handler does not write the parameters, nor the mutexes of the other one.\<close>

definition handler_unlocked :: "receiver_id \<Rightarrow> node \<Rightarrow> bool" where
  "handler_unlocked i nd = (case i of None \<Rightarrow> True | Some BTH0 \<Rightarrow> bth0_unlocked nd | Some AID0 \<Rightarrow> aid0_unlocked nd)"

lemma bth0_others: "act_keeps (\<lambda>nd. (parameters nd, aid0_unlocked nd)) (publish_bth0 buf pkt)"
  unfolding publish_bth0_def publish_detections_def publish_raw_bth0_def
  by (intro act_rules) (simp_all add: aid0_unlocked_def)

lemma aid0_others: "act_keeps (\<lambda>nd. (parameters nd, bth0_unlocked nd)) (publish_aid0 mem buf pkt)"
  unfolding publish_aid0_def publish_raw_aid0_def publish_image_def
  by (intro act_rules) (simp_all add: bth0_unlocked_def)

text \<open>A handler that returns has released its mutexes.\<close>

lemma act_bind_returns:
  "act_bind m k nd = Some (Inr x, nd') \<longleftrightarrow> (\<exists>y nd1. m nd = Some (Inr y, nd1) \<and> k y nd1 = Some (Inr x, nd'))"
  by (auto simp: act_bind_def split: option.splits sum.splits prod.splits)

lemma bth0_releases: "publish_bth0 buf pkt nd = Some (Inr u, nd') \<Longrightarrow> bth0_unlocked nd \<Longrightarrow> bth0_unlocked nd'"
  by (auto simp: publish_bth0_def act_bind_returns act_return_def act_mod_def act_res_def bth0_unlocked_def
      split: if_splits)

lemma aid0_releases: "publish_aid0 mem buf pkt nd = Some (Inr u, nd') \<Longrightarrow> aid0_unlocked nd \<Longrightarrow> aid0_unlocked nd'"
  by (auto simp: publish_aid0_def act_bind_returns act_return_def act_mod_def act_res_def aid0_unlocked_def
      split: if_splits)

text \<open>One datagram of a receiver.\<close>

lemma receiveImpl_sorted: "act_pres (\<lambda>nd. map_sorted (assemblers nd)) (receiveImpl mem i buf)"
  by (auto simp: receiveImpl_def split: option.split packet_type.split intro!: act_rules bth0_sorted aid0_sorted)

lemma receiveImpl_others:
  assumes "i \<noteq> j" shows "act_keeps (\<lambda>nd. (parameters nd, handler_unlocked j nd)) (receiveImpl mem i buf)"
proof (cases i)
  case None
  then show ?thesis by (simp add: receiveImpl_def act_rules)
next
  case (Some t)
  have bth0: "act_keeps (\<lambda>nd. (parameters nd, handler_unlocked j nd)) (publish_bth0 buf pkt)" if "t = BTH0" for pkt
    using bth0_others [of buf pkt] assms Some that
    by (auto simp: act_keeps_def handler_unlocked_def split: option.split packet_type.split)
  have aid0: "act_keeps (\<lambda>nd. (parameters nd, handler_unlocked j nd)) (publish_aid0 mem buf pkt)" if "t = AID0" for pkt
    using aid0_others [of mem buf pkt] assms Some that
    by (auto simp: act_keeps_def handler_unlocked_def split: option.split packet_type.split)
  show ?thesis
    by (cases t) (auto simp: receiveImpl_def Some intro!: act_rules bth0 aid0)
qed

lemma receiveImpl_params: "act_keeps parameters (receiveImpl mem i buf)"
proof -
  have "publish_bth0 b p nd = Some (r, nd') \<Longrightarrow> parameters nd' = parameters nd"
    "publish_aid0 mem b p nd = Some (r, nd') \<Longrightarrow> parameters nd' = parameters nd" for b p nd r nd'
    using bth0_others [of b p] aid0_others [of mem b p] by (auto simp: act_keeps_def)
  then have "act_keeps parameters (publish_bth0 b p)" "act_keeps parameters (publish_aid0 mem b p)" for b p
    by (auto simp: act_keeps_def)
  then show ?thesis
    by (auto simp: receiveImpl_def split: option.split packet_type.split intro!: act_rules)
qed

lemma receiveImpl_releases:
  "receiveImpl mem i buf nd = Some (Inr u, nd') \<Longrightarrow> handler_unlocked i nd \<Longrightarrow> handler_unlocked i nd'"
  by (auto simp: receiveImpl_def act_bind_returns act_return_def act_res_def handler_unlocked_def
      dest: bth0_releases aid0_releases split: if_splits option.splits packet_type.splits)

lemma receiveImpl_cmd: "receiveImpl mem None buf nd = Some (Inr (), nd)"
  by (simp add: receiveImpl_def act_return_def)

section \<open>The invariant\<close>

definition sys_ok :: "Parameters \<Rightarrow> 'addr system \<Rightarrow> bool" where
  "sys_ok P0 s \<longleftrightarrow>
     (\<forall>i. recv_type (recs s i) = i \<and> length (recv_buffer (recs s i)) = RECV_BUFFER
        \<and> (phase s i \<notin> {Waiting, Terminated} \<longrightarrow> handler_unlocked i (sys_node s)))
     \<and> map_sorted (assemblers (sys_node s))
     \<and> network (parameters (sys_node s)) = network P0 \<and> sonar (parameters (sys_node s)) = sonar P0
     \<and> control_mode (parameters (sys_node s)) = control_mode P0
     \<and> all_commands (parameters (sys_node s)) = all_commands P0
     \<and> (main s = Spinning \<or> \<not> up s) \<and> (\<forall>i. phase s i = Stopped \<longrightarrow> \<not> up s)"

lemma handler_cases:
  assumes "receiveHandler mem ev (rc, nd) = (rc', nd')"
  obtains (deaf) "ev = ReceiveError" "rc' = rc\<lparr>recv_phase := Deaf\<rparr>" "nd' = nd"
  | (waiting) bs where "rc' = rc\<lparr>recv_buffer := store_datagram bs (recv_buffer rc), recv_phase := Waiting\<rparr>" "nd' = nd"
  | (terminated) bs e where "rc' = rc\<lparr>recv_buffer := store_datagram bs (recv_buffer rc), recv_phase := Terminated\<rparr>"
      "receiveImpl mem (recv_type rc) (store_datagram bs (recv_buffer rc)) nd = Some (Inl e, nd')"
  | (handled) bs where "rc' = rc\<lparr>recv_buffer := store_datagram bs (recv_buffer rc)\<rparr>"
      "receiveImpl mem (recv_type rc) (store_datagram bs (recv_buffer rc)) nd = Some (Inr (), nd')"
proof (cases ev)
  case ReceiveError
  with assms deaf show ?thesis by (simp add: receiveHandler_def)
next
  case (Datagram bs)
  let ?run = "receiveImpl mem (recv_type rc) (store_datagram bs (recv_buffer rc)) nd"
  show ?thesis
  proof (cases ?run)
    case None
    with Datagram assms have "rc' = rc\<lparr>recv_buffer := store_datagram bs (recv_buffer rc), recv_phase := Waiting\<rparr>"
        "nd' = nd" by (auto simp: receiveHandler_def Let_def)
    then show ?thesis by (rule waiting)
  next
    case (Some p)
    obtain r nd1 where p: "p = (r, nd1)" by (cases p)
    show ?thesis
    proof (cases r)
      case (Inl e)
      with Some p Datagram assms terminated show ?thesis by (auto simp: receiveHandler_def Let_def)
    next
      case (Inr u)
      with Some p Datagram assms have "rc' = rc\<lparr>recv_buffer := store_datagram bs (recv_buffer rc)\<rparr>"
          "?run = Some (Inr (), nd')" by (auto simp: receiveHandler_def Let_def)
      then show ?thesis by (rule handled)
    qed
  qed
qed

lemma handled_unlocked:
  assumes "receiveHandler mem ev (rc, nd) = (rc', nd')" and "recv_type rc = i"
    and "recv_phase rc \<notin> {Waiting, Terminated} \<Longrightarrow> handler_unlocked i nd" and "recv_phase rc = Receiving"
  shows "recv_phase rc' \<notin> {Waiting, Terminated} \<Longrightarrow> handler_unlocked i nd'"
    and "j \<noteq> i \<Longrightarrow> handler_unlocked j nd' = handler_unlocked j nd"
    and "parameters nd' = parameters nd" and "map_sorted (assemblers nd) \<Longrightarrow> map_sorted (assemblers nd')"
    and "recv_phase rc' \<noteq> Stopped"
proof -
  have keep: "j \<noteq> i \<Longrightarrow> handler_unlocked j nd' = handler_unlocked j nd" "parameters nd' = parameters nd"
    "map_sorted (assemblers nd) \<Longrightarrow> map_sorted (assemblers nd')" if "receiveImpl mem i buf nd = Some (r, nd')" for buf r
    using that receiveImpl_others [of i j mem buf] receiveImpl_params [of mem i buf] receiveImpl_sorted [of mem i buf]
    by (auto simp: act_keeps_def act_pres_def)
  from assms(1) show "recv_phase rc' \<notin> {Waiting, Terminated} \<Longrightarrow> handler_unlocked i nd'"
    by (cases rule: handler_cases) (use assms(2-4) receiveImpl_releases in auto)
  from assms(1) show "j \<noteq> i \<Longrightarrow> handler_unlocked j nd' = handler_unlocked j nd"
    by (cases rule: handler_cases) (use assms(2) keep(1) in auto)
  from assms(1) show "parameters nd' = parameters nd"
    by (cases rule: handler_cases) (use assms(2) keep(2) in auto)
  from assms(1) show "map_sorted (assemblers nd) \<Longrightarrow> map_sorted (assemblers nd')"
    by (cases rule: handler_cases) (use assms(2) keep(3) in auto)
  from assms(1) show "recv_phase rc' \<noteq> Stopped"
    by (cases rule: handler_cases) (use assms(4) in auto)
qed

lemma sys_ok_handle:
  assumes ok: "sys_ok P0 s" and ph: "phase s i = Receiving"
    and run: "receiveHandler mem ev (recs s i, sys_node s) = (rc, nd)"
  shows "sys_ok P0 (s\<lparr>recs := (recs s)(i := rc), sys_node := nd\<rparr>)"
proof -
  have i: "recv_type (recs s i) = i" "length (recv_buffer (recs s i)) = RECV_BUFFER"
    "recv_phase (recs s i) \<notin> {Waiting, Terminated} \<Longrightarrow> handler_unlocked i (sys_node s)"
    using ok by (simp_all add: sys_ok_def phase_def)
  have ph': "recv_phase (recs s i) = Receiving" using ph by (simp add: phase_def)
  have "recv_type rc = i" "length (recv_buffer rc) = RECV_BUFFER"
    using receiveHandler_type [of mem ev "recs s i" "sys_node s"] receiveHandler_buffer [OF i(2), of mem ev "sys_node s"]
    by (simp_all add: run i(1))
  with handled_unlocked [OF run i(1,3) ph'] ok show ?thesis
    by (auto simp: sys_ok_def phase_def)
qed

lemma batch_commands:
  assumes "tables_sorted P"
  shows "all_commands (snd (onParameterUpdate pton what ps P)) = all_commands P"
proof (rule batch_invariant)
  fix p Q assume Q: "all_commands Q = all_commands P"
  then have "tables_sorted Q" using assms by (simp add: tables_sorted_def)
  from applied_keeps(1) [OF this] Q show "all_commands (applied pton what p Q) = all_commands P" by simp
qed simp

lemma receive_turn_cases:
  assumes "ph = Binding n \<or> ph = Checking" and "ph' = receive_turn u b ph"
  shows "ph' \<notin> {Waiting, Terminated, Deaf}" and "ph' = Stopped \<Longrightarrow> \<not> u" and "ph \<notin> {Waiting, Terminated}"
  using assms by (auto split: if_splits)

lemma sys_ok_phase:
  assumes "sys_ok P0 s" and "phase s i \<notin> {Waiting, Terminated}" and "ph = Stopped \<longrightarrow> \<not> up s"
  shows "sys_ok P0 (set_phase i ph s)"
  using assms by (auto simp: sys_ok_def phase_def)

lemma sys_ok_step:
  assumes "sys_move env pton s s'" and ok: "sys_ok P0 s" and tables: "tables_sorted P0"
  shows "sys_ok P0 s'"
  using assms(1)
proof (cases rule: sys_move_cases)
  case (bind i n bound)
  from receive_turn_cases(1,2) [OF bind(3) refl, of "up s" bound] show ?thesis
    unfolding bind(1) by (intro sys_ok_phase [OF ok]) auto
next
  case (handle i mem ev rc nd)
  show ?thesis unfolding handle(1) by (rule sys_ok_handle [OF ok handle(3,4)])
next
  case (update what ps P)
  have "tables_sorted (parameters (sys_node s))"
    using ok tables by (simp add: sys_ok_def tables_sorted_def)
  from batch_commands [OF this, of pton what ps] batch_frame [OF update(4) [symmetric]] show ?thesis
    using ok by (auto simp: sys_ok_def phase_def update(1,4) handler_unlocked_def bth0_unlocked_def aid0_unlocked_def
        split: option.split packet_type.split)
next
  case (stop i)
  have "\<not> up s" using ok stop(3) by (auto simp: sys_ok_def)
  then show ?thesis unfolding stop(1) by (intro sys_ok_phase [OF ok]) (simp_all add: stop(4))
qed (use ok in \<open>simp_all add: sys_ok_def phase_def\<close>)

lemma start_ok:
  assumes "new_R2SonicNode decl P = Inr nd" and "\<forall>i. length (bufs i) = RECV_BUFFER"
  shows "sys_ok (parameters nd) (start_system nd bufs)"
  using assms by (auto simp: sys_ok_def start_system_def new_receiver_def new_R2SonicNode_def res_simps phase_def
      handler_unlocked_def bth0_unlocked_def aid0_unlocked_def split: option.split packet_type.split)

lemma reachable_ok:
  assumes start: "new_R2SonicNode decl P = Inr nd" and tables: "tables_sorted (parameters nd)"
    and bufs: "\<forall>i. length (bufs i) = RECV_BUFFER"
    and run: "(sys_move env pton)\<^sup>*\<^sup>* (start_system nd bufs) s"
  shows "sys_ok (parameters nd) s"
  using run
proof (induction rule: rtranclp_induct)
  case base
  show ?case by (rule start_ok [OF start bufs])
next
  case (step s s')
  from sys_ok_step [OF step(2,3) tables] show ?case .
qed

section \<open>The shutdown\<close>

lemma running_set_phase: "running s \<Longrightarrow> ph \<noteq> Terminated \<Longrightarrow> running (set_phase i ph s)"
  by (simp add: running_def)

text \<open>No step moves a receiver whose handler does not return, and \<open>main\<close> waits for it.\<close>

lemma waiting_step:
  assumes "sys_move env pton s s'" and "phase s i = Waiting"
  shows "phase s' i = Waiting \<and> main s' \<noteq> Exited"
  using assms(1)
proof (cases rule: sys_move_cases)
  case (handle j mem ev rc nd)
  then show ?thesis using assms(2) by (auto simp: phase_def running_def)
next
  case join
  then show ?thesis using assms(2) by (metis insert_iff empty_iff recv_phase.distinct)
qed (use assms(2) in \<open>auto simp: phase_def running_def\<close>)

text \<open>After \<open>stop\<close>, a receiver thread that is not held up can return, whatever the others do.\<close>

definition joining :: "'addr system \<Rightarrow> bool" where
  "joining s \<longleftrightarrow> running s \<and> main s = Joining \<and> \<not> up s"

lemma joining_set_phase: "joining s \<Longrightarrow> ph \<noteq> Terminated \<Longrightarrow> joining (set_phase i ph s)"
  by (simp add: joining_def running_set_phase)

lemma checking_returns:
  "joining s \<Longrightarrow> phase s i = Checking \<Longrightarrow> sys_move env pton s (set_phase i Stopped s)"
  using sys_moveI [OF sys_step.bind, of s i undefined env pton False] by (simp add: joining_def)

lemma binding_checks:
  "joining s \<Longrightarrow> phase s i = Binding n \<Longrightarrow> sys_move env pton s (set_phase i Checking s)"
  using sys_moveI [OF sys_step.bind, of s i n env pton False] by (simp add: joining_def)

lemma receiver_returns:
  assumes s: "joining s" and i: "phase s i \<noteq> Waiting"
  shows "\<exists>s'. (sys_move env pton)\<^sup>*\<^sup>* s s' \<and> joining s' \<and> phase s' i \<in> {Stopped, Deaf}
    \<and> (\<forall>j. j \<noteq> i \<longrightarrow> phase s' j = phase s j)"
proof (cases "phase s i")
  case (Binding n)
  let ?t = "set_phase i Checking s"
  have "sys_move env pton s ?t" by (rule binding_checks [OF s Binding])
  moreover have t: "joining ?t" "phase ?t i = Checking" using s by (simp_all add: joining_set_phase)
  moreover from t have "sys_move env pton ?t (set_phase i Stopped ?t)" by (rule checking_returns)
  ultimately show ?thesis
    by (intro exI [of _ "set_phase i Stopped ?t"]) (auto simp: joining_set_phase)
next
  case Checking
  from checking_returns [OF s this] s show ?thesis
    by (intro exI [of _ "set_phase i Stopped s"]) (auto simp: joining_set_phase)
next
  case Receiving
  have "sys_move env pton s (set_phase i Stopped s)"
    using s Receiving by (intro sys_moveI [OF sys_step.stop]) (simp_all add: joining_def)
  with s show ?thesis
    by (intro exI [of _ "set_phase i Stopped s"]) (auto simp: joining_set_phase)
qed (use s i in \<open>auto simp: joining_def running_def\<close>)

lemma begin_shutdown:
  assumes "running s"
  shows "\<exists>t. (sys_move env pton)\<^sup>*\<^sup>* s t \<and> joining t \<and> phase t = phase s"
proof -
  let ?d = "s\<lparr>up := False\<rparr>"
  have d: "sys_move env pton s ?d" by (rule sys_moveI [OF sys_step.signal [OF assms]])
  have same: "phase (f s) = phase s" "phase (f ?d) = phase s" if "\<And>x. recs (f x) = recs x" for f :: "'a system \<Rightarrow> 'a system"
    using that by (simp_all add: phase_def fun_eq_iff)
  have run: "running ?d" using assms by (simp add: running_def phase_def)
  show ?thesis
  proof (cases "main s")
    case Spinning
    then have "sys_move env pton ?d (?d\<lparr>main := Joining\<rparr>)" by (intro sys_moveI [OF sys_step.spin_returns] run) simp_all
    with d have "(sys_move env pton)\<^sup>*\<^sup>* s (?d\<lparr>main := Joining\<rparr>)" by simp
    with run show ?thesis
      by (intro exI [of _ "?d\<lparr>main := Joining\<rparr>"]) (simp add: joining_def running_def phase_def fun_eq_iff)
  next
    case Joining
    with d run show ?thesis
      by (intro exI [of _ ?d]) (simp add: joining_def phase_def fun_eq_iff r_into_rtranclp)
  qed (use assms in \<open>simp add: running_def\<close>)
qed

lemma receiver_ids: "(i :: receiver_id) = None \<or> i = Some BTH0 \<or> i = Some AID0"
  by (metis option.exhaust packet_type.exhaust)

lemma shutdown_run:
  assumes "running s" and quiet: "\<forall>i. phase s i \<noteq> Waiting"
  shows "\<exists>s'. (sys_move env pton)\<^sup>*\<^sup>* s s' \<and> main s' = Exited"
proof -
  obtain t where t: "(sys_move env pton)\<^sup>*\<^sup>* s t" "joining t" "\<forall>i. phase t i \<noteq> Waiting"
    using begin_shutdown [OF assms(1)] quiet by metis
  obtain t1 where t1: "(sys_move env pton)\<^sup>*\<^sup>* t t1" "joining t1" "phase t1 None \<in> {Stopped, Deaf}"
      "\<forall>j. j \<noteq> None \<longrightarrow> phase t1 j = phase t j"
    using receiver_returns [OF t(2), of None] t(3) by blast
  obtain t2 where t2: "(sys_move env pton)\<^sup>*\<^sup>* t1 t2" "joining t2" "phase t2 (Some BTH0) \<in> {Stopped, Deaf}"
      "\<forall>j. j \<noteq> Some BTH0 \<longrightarrow> phase t2 j = phase t1 j"
    using receiver_returns [OF t1(2), of "Some BTH0"] t(3) t1(4) by (metis option.discI)
  obtain t3 where t3: "(sys_move env pton)\<^sup>*\<^sup>* t2 t3" "joining t3" "phase t3 (Some AID0) \<in> {Stopped, Deaf}"
      "\<forall>j. j \<noteq> Some AID0 \<longrightarrow> phase t3 j = phase t2 j"
    using receiver_returns [OF t2(2), of "Some AID0"] t(3) t1(4) t2(4)
    by (metis option.discI option.inject packet_type.distinct(1))
  have "\<forall>i. phase t3 i \<in> {Stopped, Deaf}"
    using t1(3) t2(3,4) t3(3,4) receiver_ids by (metis option.discI option.inject packet_type.distinct(1))
  then have "sys_move env pton t3 (t3\<lparr>main := Exited\<rparr>)"
    using t3(2) by (intro sys_moveI [OF sys_step.join]) (simp_all add: joining_def)
  with t(1) t1(1) t2(1) t3(1) have "(sys_move env pton)\<^sup>*\<^sup>* s (t3\<lparr>main := Exited\<rparr>)"
    by (meson rtranclp.rtrancl_into_rtrancl rtranclp_trans)
  moreover have "main (t3\<lparr>main := Exited\<rparr>) = Exited" by simp
  ultimately show ?thesis by blast
qed

text \<open>Of the handlers only the one for images can fail to return: the others run no endless loop and
  wait for no mutex that an earlier exception has left locked.\<close>

definition act_total :: "'a act \<Rightarrow> bool" where
  "act_total m \<longleftrightarrow> (\<forall>nd. m nd \<noteq> None)"

lemma act_total_rules:
  "act_total m \<Longrightarrow> (\<And>x. act_total (k x)) \<Longrightarrow> act_total (act_bind m k)"
  "act_total m \<Longrightarrow> act_total n \<Longrightarrow> act_total (if b then m else n)"
  "act_total (act_return x)" "act_total (act_res r)" "act_total (act_get h)" "act_total (act_mod w)"
  "act_total (publish_event e)"
  by (auto simp: act_total_def act_simps split: option.split sum.split)

lemma bth0_parts_total: "act_total (publish_detections buf pkt)" "act_total (publish_raw_bth0 buf pkt)"
  unfolding publish_detections_def publish_raw_bth0_def by (intro act_total_rules)+

lemma bth0_returns:
  assumes "bth0_unlocked nd" shows "publish_bth0 buf pkt nd \<noteq> None"
proof -
  have "act_total (act_bind (publish_detections buf pkt) (\<lambda>_. act_bind (publish_raw_bth0 buf pkt) (\<lambda>_.
      act_mod (\<lambda>nd. nd\<lparr>mtx_detections := False, mtx_bth0 := False\<rparr>))))"
    by (intro act_total_rules bth0_parts_total)
  moreover have "act_bind (act_lock mtx_detections (mtx_detections_update (\<lambda>_. True))) (\<lambda>_.
      act_bind (act_lock mtx_bth0 (mtx_bth0_update (\<lambda>_. True))) (\<lambda>_. m)) nd = m (nd\<lparr>mtx_detections := True, mtx_bth0 := True\<rparr>)"
    for m :: "unit act"
    using assms by (simp add: act_bind_def act_lock_def bth0_unlocked_def)
  ultimately show ?thesis
    by (auto simp: publish_bth0_def act_bind_def [of "act_res _"] act_res_def act_return_def act_total_def split: sum.split)
qed

lemma receiveImpl_returns:
  assumes "i \<noteq> Some AID0" and "handler_unlocked i nd"
  shows "receiveImpl mem i buf nd \<noteq> None"
proof (cases i)
  case None
  then show ?thesis by (simp add: receiveImpl_cmd)
next
  case (Some t)
  then have "t = BTH0" using assms(1) by (cases t) simp_all
  then show ?thesis
    using bth0_returns [of nd buf "mk_packet BTH0 0"] assms(2)
    by (auto simp: Some receiveImpl_def handler_unlocked_def act_bind_def act_res_def act_return_def split: sum.split)
qed

section \<open>A run\<close>

lemma sample_start:
  "\<exists>nd. new_R2SonicNode (\<lambda>_ v. Inr v) sample_params = Inr nd \<and> tables_sorted (parameters nd)"
proof -
  obtain P where P: "Parameters_init (\<lambda>_ v. Inr v) sample_params = Inr P" using sample_init by blast
  then have "all_commands P = all_commands sample_params" by (rule init_commands)
  then have "tables_sorted P" using sample_params_ok(1) by (simp add: tables_sorted_def)
  with P show ?thesis by (simp add: new_R2SonicNode_def)
qed

text \<open>A receiver binds at its first attempt and meets an error.\<close>

lemma error_run:
  assumes "running s" and "up s" and "phase s i = Binding 0"
  shows "(sys_move env pton)\<^sup>*\<^sup>* s (set_phase i Deaf s)"
proof -
  let ?c = "set_phase i Checking s" and ?r = "set_phase i Receiving s"
  have "sys_move env pton s ?c"
    using sys_moveI [OF sys_step.bind, of s i 0 env pton True] assms by simp
  moreover have "sys_move env pton ?c ?r"
    using sys_moveI [OF sys_step.bind, of ?c i 0 env pton True] assms by (simp add: running_set_phase) (simp add: set_phase_def)
  moreover have "sys_move env pton ?r (set_phase i Deaf s)"
    using sys_moveI [OF sys_step.handle, of ?r i undefined ReceiveError "(recs s i)\<lparr>recv_phase := Deaf\<rparr>" "sys_node s" env pton] assms
    by (simp add: running_set_phase receiveHandler_def) (simp add: set_phase_def)
  ultimately show ?thesis by (meson r_into_rtranclp rtranclp.rtrancl_into_rtrancl)
qed

lemma start_runs [simp]:
  "running (start_system nd bufs)" "up (start_system nd bufs)" "phase (start_system nd bufs) i = Binding 0"
  "recv_type (recs (start_system nd bufs) i) = i"
  by (simp_all add: running_def start_system_def new_receiver_def phase_def)

end
