(* ===== verification/Reception.thy ===== *)
theory Reception
  imports System
begin

text \<open>
  What a receiver contributes to a run of the handlers, whatever happens beside it: the run, seen by one
  receiver, is that receiver's handler applied to its own events, one after the other. What the
  other receivers are handed, the parameter updates, the timer and the shutdown make no difference
  to its buffer, to its messages and assemblers, nor to the events it publishes.
\<close>

section \<open>The part of the node a receiver sees\<close>

fun event_source :: "ros_event \<Rightarrow> receiver_id" where
  "event_source (PubDetections m) = Some BTH0"
| "event_source (PubBTH0 m) = Some BTH0"
| "event_source (PubAID0 m) = Some AID0"
| "event_source (PubImage m) = Some AID0"

definition events_by :: "receiver_id \<Rightarrow> ros_event list \<Rightarrow> ros_event list" where
  "events_by i es = filter (\<lambda>e. event_source e = i) es"

text \<open>
  The settings but not the values of the device commands, the publishers, the messages, mutexes and
  assemblers of the receiver's handler, and the events it has published; the rest is blanked.
\<close>

definition receiver_view :: "receiver_id \<Rightarrow> node \<Rightarrow> node" where
  "receiver_view i nd =
     (let nd = nd\<lparr>parameters := (parameters nd)\<lparr>sim_commands := SimCmds0, head_commands := HeadCmds0\<rparr>,
               published := events_by i (published nd)\<rparr>;
          nd = (if i = Some BTH0 then nd else nd\<lparr>msg_detections := SonarDetections0, msg_bth0 := RawPacket0,
                 mtx_detections := False, mtx_bth0 := False\<rparr>)
      in if i = Some AID0 then nd else nd\<lparr>msg_aid0 := RawPacket0, assemblers := [],
           mtx_image := False, mtx_aid0 := False\<rparr>)"

lemma events_by_snoc [simp]:
  "events_by i (es @ fs) = events_by i es @ events_by i fs" "events_by i [] = []"
  "events_by i [e] = (if event_source e = i then [e] else [])"
  by (simp_all add: events_by_def)

lemma view_published: "published (receiver_view i nd) = events_by i (published nd)"
  by (simp add: receiver_view_def Let_def)

lemmas view_simps = receiver_view_def Let_def act_frame_def

lemma bth0_view_hom: "act_hom (receiver_view (Some BTH0)) (publish_bth0 buf pkt)"
  unfolding publish_bth0_def publish_detections_def publish_raw_bth0_def
  by (intro act_rules) (simp_all add: view_simps)

lemma aid0_view_hom: "act_hom (receiver_view (Some AID0)) (publish_aid0 mem buf pkt)"
  unfolding publish_aid0_def publish_raw_aid0_def publish_image_def
  by (intro act_rules) (simp_all add: view_simps)

lemma bth0_view_keeps: "i \<noteq> Some BTH0 \<Longrightarrow> act_keeps (receiver_view i) (publish_bth0 buf pkt)"
  unfolding publish_bth0_def publish_detections_def publish_raw_bth0_def
  by (intro act_rules) (simp_all add: view_simps)

lemma aid0_view_keeps: "i \<noteq> Some AID0 \<Longrightarrow> act_keeps (receiver_view i) (publish_aid0 mem buf pkt)"
  unfolding publish_aid0_def publish_raw_aid0_def publish_image_def
  by (intro act_rules) (simp_all add: view_simps)

lemma receiveImpl_hom: "act_hom (receiver_view i) (receiveImpl mem i buf)"
  by (auto simp: receiveImpl_def split: option.split packet_type.split
      intro!: act_rules bth0_view_hom aid0_view_hom)

lemma receiveImpl_keeps: "i \<noteq> j \<Longrightarrow> act_keeps (receiver_view j) (receiveImpl mem i buf)"
  by (auto simp: receiveImpl_def split: option.split packet_type.split
      intro!: act_rules bth0_view_keeps aid0_view_keeps)

section \<open>A receiver alone\<close>

text \<open>What the handler of receiver \<open>i\<close> can tell of its receiver and of the node.\<close>

definition seen :: "receiver_id \<Rightarrow> receiver \<times> node \<Rightarrow> receiver_id \<times> buffer \<times> node" where
  "seen i st = (case st of (rc, nd) \<Rightarrow> (recv_type rc, recv_buffer rc, receiver_view i nd))"

text \<open>The handler applied to a list of events, each with the memory it finds.\<close>

type_synonym handed_event = "(bool \<times> H0_Body) \<times> recv_event"

definition handle_all :: "handed_event list \<Rightarrow> receiver \<times> node \<Rightarrow> receiver \<times> node" where
  "handle_all evs = fold (\<lambda>(mem, ev). receiveHandler mem ev) evs"

lemma handle_all_simps [simp]:
  "handle_all [] st = st" "handle_all ((mem, ev) # evs) st = handle_all evs (receiveHandler mem ev st)"
  "handle_all (evs @ evs') st = handle_all evs' (handle_all evs st)"
  by (simp_all add: handle_all_def)

text \<open>The events a run hands to one receiver.\<close>

definition handed :: "receiver_id \<Rightarrow> sys_label list \<Rightarrow> handed_event list" where
  "handed i tr = concat (map (\<lambda>l. case l of Received j mem ev \<Rightarrow> if j = i then [(mem, ev)] else [] | Internal \<Rightarrow> []) tr)"

lemma handed_simps [simp]:
  "handed i [] = []" "handed i (tr @ tr') = handed i tr @ handed i tr'"
  "handed i (Received j mem ev # tr) = (if j = i then [(mem, ev)] else []) @ handed i tr"
  "handed i (Internal # tr) = handed i tr"
  by (simp_all add: handed_def)

lemma map_option_pair_eq:
  assumes "map_option (\<lambda>(r, q). (r, f q)) x = map_option (\<lambda>(r, q). (r, f q)) y"
  obtains "x = None" "y = None" | r q q' where "x = Some (r, q)" "y = Some (r, q')" "f q = f q'"
  using assms by (cases x; cases y) (auto split: prod.splits)

lemma handler_seen:
  assumes "seen i st = seen i st'" and ty: "recv_type (fst st) = i"
  shows "seen i (receiveHandler mem ev st) = seen i (receiveHandler mem ev st')"
proof -
  obtain rc nd rc' nd' where st: "st = (rc, nd)" "st' = (rc', nd')" by (cases st, cases st')
  have same: "recv_type rc = i" "recv_type rc' = i" "recv_buffer rc' = recv_buffer rc"
      "receiver_view i nd = receiver_view i nd'"
    using assms by (simp_all add: seen_def st)
  show ?thesis
  proof (cases ev)
    case (Datagram bs)
    let ?m = "receiveImpl mem i (store_datagram bs (recv_buffer rc))"
    have m: "?m (receiver_view i nd) = map_option (\<lambda>(r, q). (r, receiver_view i q)) (?m nd)" for nd
      using receiveImpl_hom [of i mem "store_datagram bs (recv_buffer rc)"] by (simp add: act_hom_def)
    have eq: "map_option (\<lambda>(r, q). (r, receiver_view i q)) (?m nd) = map_option (\<lambda>(r, q). (r, receiver_view i q)) (?m nd')"
      by (subst (1 2) m [symmetric]) (simp only: same(4))
    consider (hangs) "?m nd = None" "?m nd' = None"
      | (ends) r q q' where "?m nd = Some (r, q)" "?m nd' = Some (r, q')" "receiver_view i q = receiver_view i q'"
      using eq by (rule map_option_pair_eq)
    then show ?thesis
    proof cases
      case hangs
      then show ?thesis using same by (simp add: receiveHandler_def Let_def seen_def st Datagram)
    next
      case ends
      then show ?thesis using same
        by (cases r) (simp_all add: receiveHandler_def Let_def seen_def st Datagram)
    qed
  qed (use same in \<open>simp add: receiveHandler_def seen_def st\<close>)
qed

lemma handler_unseen:
  assumes "receiveHandler mem ev (rc, nd) = (rc', nd')" and "recv_type rc \<noteq> j"
  shows "receiver_view j nd' = receiver_view j nd"
  using assms(1)
  by (cases rule: handler_cases) (use assms(2) receiveImpl_keeps in \<open>auto simp: act_keeps_def\<close>)

lemma update_unseen:
  assumes "snd (onParameterUpdate pton what ps (parameters nd)) = P"
  shows "receiver_view i (nd\<lparr>parameters := P\<rparr>) = receiver_view i nd"
proof -
  have "P\<lparr>sim_commands := a, head_commands := b\<rparr> = (parameters nd)\<lparr>sim_commands := a, head_commands := b\<rparr>" for a b
    using batch_frame [OF assms [symmetric]] by (intro Parameters.equality) simp_all
  then show ?thesis by (simp add: receiver_view_def Let_def)
qed

lemma run_types:
  "sys_run env pton s tr t \<Longrightarrow> \<forall>i. recv_type (recs s i) = i \<Longrightarrow> recv_type (recs t i) = i"
proof (induction arbitrary: i rule: lts_run.induct)
  case (run_step tr t l t')
  then have IH: "\<And>i. recv_type (recs t i) = i" by blast
  from run_step.hyps(2) show ?case
  proof (cases rule: sys_step.cases)
    case (handle j mem ev rc nd)
    then show ?thesis using IH receiveHandler_type [of mem ev "recs t j" "sys_node t"] by (simp add: handle(2,5))
  qed (use IH in auto)
qed simp

lemma step_seen:
  assumes "sys_step env pton l t t'" and types: "\<forall>i. recv_type (recs t i) = i"
  shows "seen i (recs t' i, sys_node t') = seen i (handle_all (handed i [l]) (recs t i, sys_node t))"
  using assms(1)
proof (cases rule: sys_step.cases)
  case (handle j mem ev rc nd)
  show ?thesis
  proof (cases "j = i")
    case True
    then show ?thesis using handle by simp
  next
    case False
    then show ?thesis using handler_unseen [OF handle(5), of i] types by (simp add: handle(1,2) seen_def)
  qed
next
  case (update what ps P)
  then show ?thesis by (simp add: seen_def update_unseen)
qed (simp_all add: seen_def)

lemma run_seen:
  assumes run: "sys_run env pton s tr t" and types: "\<forall>i. recv_type (recs s i) = i"
  shows "seen i (recs t i, sys_node t) = seen i (handle_all (handed i tr) (recs s i, sys_node s))"
  using run
proof (induction rule: lts_run.induct)
  case (run_step tr t l t')
  have types': "\<forall>i. recv_type (recs t i) = i" using run_types [OF run_step.hyps(1) types] by blast
  from step_seen [OF run_step.hyps(2) this, of i] have
    "seen i (recs t' i, sys_node t') = seen i (handle_all (handed i [l]) (recs t i, sys_node t))" .
  also have "\<dots> = seen i (handle_all (handed i [l]) (handle_all (handed i tr) (recs s i, sys_node s)))"
    using run_step.IH types' by (cases l) (auto intro: handler_seen)
  finally show ?case by simp
qed simp

lemma run_alone:
  assumes run: "sys_run env pton s tr s'" and types: "\<forall>i. recv_type (recs s i) = i"
    and alone: "handle_all (handed i tr) (recs s i, sys_node s) = (rc, nd)"
  shows "recv_buffer (recs s' i) = recv_buffer rc" "receiver_view i (sys_node s') = receiver_view i nd"
  using run_seen [OF run types, of i] alone by (simp_all add: seen_def)

lemma run_published:
  assumes "sys_run env pton s tr s'" and "\<forall>i. recv_type (recs s i) = i"
    and "handle_all (handed i tr) (recs s i, sys_node s) = (rc, nd)"
  shows "events_by i (published (sys_node s')) = events_by i (published nd)"
  using arg_cong [OF run_alone(2) [OF assms], of published] unfolding view_published .

section \<open>Making a run\<close>

text \<open>A receiver binds at its first attempt.\<close>

lemma bound_run:
  assumes "running s" and "up s" and "phase s i = Binding 0"
  shows "sys_run env pton s [Internal, Internal] (set_phase i Receiving s)"
proof -
  let ?c = "set_phase i Checking s"
  have "sys_step env pton Internal s ?c"
    using sys_step.bind [of s i 0 env pton True] assms by simp
  moreover have "sys_step env pton Internal ?c (set_phase i Receiving s)"
    using sys_step.bind [of ?c i 0 env pton True] assms by (simp add: running_set_phase) (simp add: set_phase_def)
  ultimately have "sys_run env pton s (([] @ [Internal]) @ [Internal]) (set_phase i Receiving s)"
    by (blast intro: run_start run_step)
  then show ?thesis by simp
qed

text \<open>And is then handed events; a handler that has left \<open>Receiving\<close> does not come back to it.\<close>

lemma handler_phase:
  "recv_phase (fst (receiveHandler mem ev st)) = Receiving \<Longrightarrow> recv_phase (fst st) = Receiving"
  by (auto simp: receiveHandler_def Let_def split: prod.splits recv_event.splits option.splits sum.splits)

lemma handed_run:
  "running s \<Longrightarrow> phase s i = Receiving \<Longrightarrow> handle_all evs (recs s i, sys_node s) = (rc, nd) \<Longrightarrow>
   recv_phase rc = Receiving \<Longrightarrow>
   sys_run env pton s (map (\<lambda>(mem, ev). Received i mem ev) evs) (s\<lparr>recs := (recs s)(i := rc), sys_node := nd\<rparr>)"
proof (induction evs arbitrary: rc nd rule: rev_induct)
  case Nil
  then have "rc = recs s i" "nd = sys_node s" by simp_all
  then have "s\<lparr>recs := (recs s)(i := rc), sys_node := nd\<rparr> = s" by (simp only: fun_upd_triv) simp
  then show ?case using run_start [of "sys_step env pton" s] by (simp only: list.map)
next
  case (snoc x evs)
  obtain mem ev where x: "x = (mem, ev)" by (cases x)
  obtain rc1 nd1 where 1: "handle_all evs (recs s i, sys_node s) = (rc1, nd1)" by fastforce
  have 2: "receiveHandler mem ev (rc1, nd1) = (rc, nd)" using snoc.prems(3) by (simp add: x 1)
  have ph: "recv_phase rc1 = Receiving" using handler_phase [of mem ev "(rc1, nd1)"] 2 snoc.prems(4) by simp
  let ?t = "s\<lparr>recs := (recs s)(i := rc1), sys_node := nd1\<rparr>"
  have "running ?t" using snoc.prems(1) ph by (auto simp: running_def phase_def)
  then have "sys_step env pton (Received i mem ev) ?t (?t\<lparr>recs := (recs ?t)(i := rc), sys_node := nd\<rparr>)"
    using ph 2 by (intro sys_step.handle) (simp_all add: phase_def)
  then have "sys_step env pton (Received i mem ev) ?t (s\<lparr>recs := (recs s)(i := rc), sys_node := nd\<rparr>)" by simp
  from run_step [OF snoc.IH [OF snoc.prems(1,2) 1 ph] this] show ?case
    by (simp only: x map_append list.map prod.case)
qed

lemma handed_map [simp]: "handed i (map (\<lambda>(mem, ev). Received j mem ev) evs) = (if i = j then evs else [])"
  by (induction evs) (auto simp: handed_def)

end
