(* ===== verification/Interleaving.thy ===== *)
theory Interleaving
  imports NodePublish
begin

text \<open>
  The two receiver threads run their handlers at the same time, each for one packet after the other.
  Here a handler is its sequence of statements, any of which may be followed by a statement of the
  other thread; the handlers of \<open>Node\<close> are what the sequences compute alone, and every interleaving of
  the two threads ends as one thread after the other does, but for the order of their events.
\<close>

section \<open>Code\<close>

text \<open>A piece of code is finished, or has a next statement that returns the code left to run.\<close>

datatype 'a code = Ret 'a | Do "node \<Rightarrow> ((exn + 'a code) \<times> node) option"

primrec code_bind :: "'a code \<Rightarrow> ('a \<Rightarrow> 'b code) \<Rightarrow> 'b code" where
  "code_bind (Ret x) k = k x"
| "code_bind (Do f) k = Do (map_option (map_prod (map_sum id (\<lambda>c. code_bind c k)) id) \<circ> f)"

definition atom :: "'a act \<Rightarrow> 'a code" where
  "atom m = Do (\<lambda>nd. map_option (map_prod (map_sum id Ret) id) (m nd))"

text \<open>The code run alone, as an action.\<close>

definition continue :: "((exn + 'a act) \<times> node) option \<Rightarrow> ('a res \<times> node) option" where
  "continue r = (case r of None \<Rightarrow> None | Some (Inl e, nd) \<Rightarrow> Some (Inl e, nd) | Some (Inr m, nd) \<Rightarrow> m nd)"

primrec run :: "'a code \<Rightarrow> 'a act" where
  "run (Ret x) = act_return x"
| "run (Do f) = continue \<circ> (map_option (map_prod (map_sum id run) id) \<circ> f)"

lemma run_Do: "run (Do f) nd = (case f nd of None \<Rightarrow> None | Some (Inl e, nd') \<Rightarrow> Some (Inl e, nd')
    | Some (Inr c, nd') \<Rightarrow> run c nd')"
  by (auto simp: continue_def split: option.split sum.split)

lemma run_atom [simp]: "run (atom m) = m"
proof
  fix nd show "run (atom m) nd = m nd"
  proof (cases "m nd")
    case None
    then show ?thesis by (simp add: atom_def run_Do del: run.simps)
  next
    case (Some p)
    obtain r nd' where "p = (r, nd')" by (cases p)
    then show ?thesis using Some
      by (cases r) (simp_all add: atom_def run_Do act_return_def del: run.simps(2))
  qed
qed

lemma code_induct [case_names Ret Do]:
  assumes "\<And>x. P (Ret x)" and "\<And>f. (\<And>nd c nd'. f nd = Some (Inr c, nd') \<Longrightarrow> P c) \<Longrightarrow> P (Do f)"
  shows "P c"
proof (induction c)
  case (Do f)
  have "P c" if "f nd = Some (Inr c, nd')" for nd c nd'
    using that by (intro Do.IH [of "Some (Inr c, nd')" "(Inr c, nd')" "Inr c" c]) (simp_all, metis rangeI)
  then show ?case by (rule assms(2))
qed (rule assms(1))

lemma run_bind [simp]: "run (code_bind c k) = act_bind (run c) (\<lambda>x. run (k x))"
proof (induction c rule: code_induct)
  case (Ret x)
  then show ?case by (auto simp: act_bind_def act_return_def)
next
  case (Do f)
  show ?case
  proof
    fix nd
    show "run (code_bind (Do f) k) nd = act_bind (run (Do f)) (\<lambda>x. run (k x)) nd"
      using Do.IH by (auto simp: run_Do act_bind_def simp del: run.simps split: option.split sum.split)
  qed
qed

lemma run_if [simp]: "run (if b then c else d) = (if b then run c else run d)"
  by simp

section \<open>The statements of the handlers\<close>

definition update_msg :: "(node \<Rightarrow> 'm) \<Rightarrow> ('m \<Rightarrow> node \<Rightarrow> node) \<Rightarrow> ('m \<Rightarrow> 'm res) \<Rightarrow> unit act" where
  "update_msg msg set_msg f = act_bind (act_get msg) (\<lambda>m. act_bind (act_res (f m)) (\<lambda>m. act_mod (set_msg m)))"

definition set_frame :: "(node \<Rightarrow> 'm) \<Rightarrow> ('m \<Rightarrow> node \<Rightarrow> node) \<Rightarrow> (string \<Rightarrow> 'm \<Rightarrow> 'm) \<Rightarrow> unit act" where
  "set_frame msg set_msg f =
     act_bind (act_get act_frame) (\<lambda>frame. act_bind (act_get msg) (\<lambda>m. act_mod (set_msg (f frame m))))"

definition publish_msg :: "(node \<Rightarrow> ros_event) \<Rightarrow> unit act" where
  "publish_msg e = act_bind (act_get e) publish_event"

text \<open>One topic of a handler: convert into the buffered message, set its frame, publish it.\<close>

definition topic_code :: "(node \<Rightarrow> bool) \<Rightarrow> (node \<Rightarrow> 'm) \<Rightarrow> ('m \<Rightarrow> node \<Rightarrow> node) \<Rightarrow> ('m \<Rightarrow> 'm res) \<Rightarrow>
    (string \<Rightarrow> 'm \<Rightarrow> 'm) \<Rightarrow> ('m \<Rightarrow> ros_event) \<Rightarrow> unit code" where
  "topic_code pub msg set_msg convert frame event =
     code_bind (atom (act_get (\<lambda>nd. shouldPublish (pub nd)))) (\<lambda>should.
     if \<not> should then Ret ()
     else code_bind (atom (update_msg msg set_msg convert)) (\<lambda>_.
       code_bind (atom (set_frame msg set_msg frame)) (\<lambda>_.
       atom (publish_msg (\<lambda>nd. event (msg nd))))))"

definition bth0_code :: "buffer \<Rightarrow> packet \<Rightarrow> unit code" where
  "bth0_code buf pkt =
     code_bind (atom (act_res (packet_isType buf pkt))) (\<lambda>ok.
     if \<not> ok then Ret ()
     else
       code_bind (atom (act_lock mtx_detections (mtx_detections_update (\<lambda>_. True)))) (\<lambda>_.
       code_bind (atom (act_lock mtx_bth0 (mtx_bth0_update (\<lambda>_. True)))) (\<lambda>_.
       code_bind (topic_code pub_detections msg_detections (\<lambda>m. msg_detections_update (\<lambda>_. m))
         (bth02SonarDetections buf pkt) set_detections_frame PubDetections) (\<lambda>_.
       code_bind (topic_code pub_bth0 msg_bth0 (\<lambda>m. msg_bth0_update (\<lambda>_. m))
         (packet2RawPacket buf pkt) (\<lambda>f. raw_frame_id_update (\<lambda>_. f)) PubBTH0) (\<lambda>_.
       code_bind (atom (act_mod (mtx_detections_update (\<lambda>_. False)))) (\<lambda>_.
       atom (act_mod (mtx_bth0_update (\<lambda>_. False)))))))))"

text \<open>The assembler of a ping is used through a pointer into the map.\<close>

definition set_assembler :: "u32 \<Rightarrow> assembler \<Rightarrow> node \<Rightarrow> node" where
  "set_assembler ping_no a nd = nd\<lparr>assemblers := map_put ping_no a (assemblers nd)\<rparr>"

definition image_code :: "bool \<times> H0_Body \<Rightarrow> buffer \<Rightarrow> packet \<Rightarrow> u32 \<Rightarrow> unit code" where
  "image_code mem buf pkt ping_no =
     code_bind (atom (act_get (\<lambda>nd. shouldPublish (pub_image nd)))) (\<lambda>should.
     if \<not> should then Ret ()
     else
       let assembler = (\<lambda>nd. assembler_at mem ping_no (assemblers nd))
       in code_bind (atom (act_bind (act_get assembler) (\<lambda>a. act_mod (set_assembler ping_no a)))) (\<lambda>_.
       code_bind (atom (act_bind (act_get assembler) (\<lambda>a. act_bind (act_addPacket buf pkt a) (\<lambda>(cpl, a).
         act_bind (act_mod (set_assembler ping_no a)) (\<lambda>_. act_return cpl))))) (\<lambda>cpl.
       if cpl then
         code_bind (atom (set_frame assembler (set_assembler ping_no)
           (\<lambda>f a. a\<lparr>sonar_image := set_image_frame f (sonar_image a)\<rparr>))) (\<lambda>_.
         code_bind (atom (publish_msg (\<lambda>nd. PubImage (sonar_image (assembler nd))))) (\<lambda>_.
         code_bind (atom (act_mod (\<lambda>nd. nd\<lparr>assemblers := map_erase ping_no (assemblers nd)\<rparr>))) (\<lambda>_.
         atom (act_mod (\<lambda>nd. nd\<lparr>assemblers := cleanMsgMap ping_no (assemblers nd)\<rparr>)))))
       else Ret ())))"

definition aid0_code :: "bool \<times> H0_Body \<Rightarrow> buffer \<Rightarrow> packet \<Rightarrow> unit code" where
  "aid0_code mem buf pkt =
     code_bind (atom (act_res (packet_isType buf pkt))) (\<lambda>ok.
     if \<not> ok then Ret ()
     else
       code_bind (atom (act_lock mtx_aid0 (mtx_aid0_update (\<lambda>_. True)))) (\<lambda>_.
       code_bind (atom (act_lock mtx_image (mtx_image_update (\<lambda>_. True)))) (\<lambda>_.
       code_bind (atom (act_res (AID0_getPingNo buf pkt))) (\<lambda>ping_no.
       code_bind (topic_code pub_aid0 msg_aid0 (\<lambda>m. msg_aid0_update (\<lambda>_. m))
         (packet2RawPacket buf pkt) (\<lambda>f. raw_frame_id_update (\<lambda>_. f)) PubAID0) (\<lambda>_.
       code_bind (image_code mem buf pkt ping_no) (\<lambda>_.
       code_bind (atom (act_mod (mtx_aid0_update (\<lambda>_. False)))) (\<lambda>_.
       atom (act_mod (mtx_image_update (\<lambda>_. False))))))))))"

text \<open>Alone, the statements compute the handlers.\<close>

lemma act_mod_mod: "act_bind (act_mod f) (\<lambda>_. act_mod g) = act_mod (\<lambda>nd. g (f nd))"
  by (rule ext) (simp add: act_bind_def act_mod_def)

lemma run_raw_bth0: "run (topic_code pub_bth0 msg_bth0 (\<lambda>m. msg_bth0_update (\<lambda>_. m))
    (packet2RawPacket buf pkt) (\<lambda>f. raw_frame_id_update (\<lambda>_. f)) PubBTH0) = publish_raw_bth0 buf pkt"
  by (rule ext) (auto simp: topic_code_def publish_raw_bth0_def update_msg_def set_frame_def publish_msg_def act_simps
      act_frame_def split: sum.split)

lemma run_raw_aid0: "run (topic_code pub_aid0 msg_aid0 (\<lambda>m. msg_aid0_update (\<lambda>_. m))
    (packet2RawPacket buf pkt) (\<lambda>f. raw_frame_id_update (\<lambda>_. f)) PubAID0) = publish_raw_aid0 buf pkt"
  by (rule ext) (auto simp: topic_code_def publish_raw_aid0_def update_msg_def set_frame_def publish_msg_def act_simps
      act_frame_def split: sum.split)

lemma run_detections: "run (topic_code pub_detections msg_detections (\<lambda>m. msg_detections_update (\<lambda>_. m))
    (bth02SonarDetections buf pkt) set_detections_frame PubDetections) = publish_detections buf pkt"
  by (rule ext) (auto simp: topic_code_def publish_detections_def update_msg_def set_frame_def publish_msg_def act_simps
      act_frame_def split: sum.split)

lemma map_put_put: "map_put k x (map_put k y m) = map_put k x m"
  by (induction m) auto

lemma map_erase_put: "map_erase k (map_put k x m) = map_erase k m"
  by (induction m) (auto simp: map_erase_def)

lemma assembler_at_put: "assembler_at mem k (map_put k a m) = a"
proof -
  have "map_find k (map_put k a m) = Some a" by (induction m) (auto simp: map_find_def)
  then show ?thesis by (simp add: assembler_at_def)
qed

lemma run_image: "run (image_code mem buf pkt ping_no) = publish_image mem buf pkt ping_no"
  by (rule ext) (auto simp: image_code_def publish_image_def set_frame_def publish_msg_def act_simps Let_def
      set_assembler_def assembler_at_put map_put_put map_erase_put act_frame_def act_addPacket_def set_image_frame_def
      split: sum.split option.split)

lemma run_bth0_code: "run (bth0_code buf pkt) = publish_bth0 buf pkt"
  unfolding bth0_code_def publish_bth0_def
  by (simp add: run_detections run_raw_bth0 act_mod_mod cong: if_cong)

lemma run_aid0_code: "run (aid0_code mem buf pkt) = publish_aid0 mem buf pkt"
  unfolding aid0_code_def publish_aid0_def
  by (simp add: run_image run_raw_aid0 act_mod_mod cong: if_cong)

text \<open>A thread runs its handler for each of its packets in turn.\<close>

primrec in_turn :: "unit code list \<Rightarrow> unit code" where
  "in_turn [] = Ret ()"
| "in_turn (c # cs) = code_bind c (\<lambda>_. in_turn cs)"

primrec act_seq :: "unit act list \<Rightarrow> unit act" where
  "act_seq [] = act_return ()"
| "act_seq (m # ms) = act_bind m (\<lambda>_. act_seq ms)"

lemma run_in_turn: "run (in_turn cs) = act_seq (map run cs)"
  by (induction cs) simp_all

definition bth0_thread :: "(buffer \<times> packet) list \<Rightarrow> unit code" where
  "bth0_thread ps = in_turn (map (\<lambda>(buf, pkt). bth0_code buf pkt) ps)"

definition aid0_thread :: "((bool \<times> H0_Body) \<times> buffer \<times> packet) list \<Rightarrow> unit code" where
  "aid0_thread ps = in_turn (map (\<lambda>(mem, buf, pkt). aid0_code mem buf pkt) ps)"

definition publish_pings :: "(buffer \<times> packet) list \<Rightarrow> unit act" where
  "publish_pings ps = act_seq (map (\<lambda>(buf, pkt). publish_bth0 buf pkt) ps)"

definition publish_sections :: "((bool \<times> H0_Body) \<times> buffer \<times> packet) list \<Rightarrow> unit act" where
  "publish_sections ps = act_seq (map (\<lambda>(mem, buf, pkt). publish_aid0 mem buf pkt) ps)"

lemma run_bth0_thread: "run (bth0_thread ps) = publish_pings ps"
  by (simp add: bth0_thread_def publish_pings_def run_in_turn run_bth0_code comp_def split_def)

lemma run_aid0_thread: "run (aid0_thread ps) = publish_sections ps"
  by (simp add: aid0_thread_def publish_sections_def run_in_turn run_aid0_code comp_def split_def)

section \<open>Code that keeps to its part\<close>

text \<open>
  What a statement may do is given by two sets: it runs the same after the changes in \<open>G\<close>, and keeps
  what the functions in \<open>F\<close> show. Code is as its statements.
\<close>

definition act_in :: "(node \<Rightarrow> node) set \<Rightarrow> (node \<Rightarrow> 'b) set \<Rightarrow> 'a act \<Rightarrow> bool" where
  "act_in G F m \<longleftrightarrow> (\<forall>g \<in> G. act_hom g m) \<and> (\<forall>f \<in> F. act_keeps f m)"

inductive code_in :: "(node \<Rightarrow> node) set \<Rightarrow> (node \<Rightarrow> 'b) set \<Rightarrow> 'a code \<Rightarrow> bool"
  for G F where
  in_Ret: "code_in G F (Ret x)"
| in_Do: "act_in G F f \<Longrightarrow> (\<And>nd c nd'. f nd = Some (Inr c, nd') \<Longrightarrow> code_in G F c) \<Longrightarrow> code_in G F (Do f)"

lemma in_DoE: "code_in G F (Do f) \<Longrightarrow> act_in G F f"
  "code_in G F (Do f) \<Longrightarrow> f nd = Some (Inr c, nd') \<Longrightarrow> code_in G F c"
  by (auto elim: code_in.cases)

lemma map_sum_eq_Inr: "map_sum f g s = Inr y \<longleftrightarrow> (\<exists>x. s = Inr x \<and> y = g x)"
  by (cases s) auto

lemma act_in_map: "act_in G F m \<Longrightarrow> act_in G F (\<lambda>nd. map_option (map_prod (map_sum id h) id) (m nd))"
  by (fastforce simp: act_in_def act_hom_def act_keeps_def option.map_comp comp_def split_def
      intro: option.map_cong0)

lemma in_atom: "act_in G F m \<Longrightarrow> code_in G F (atom m)"
  unfolding atom_def by (rule in_Do [OF act_in_map]) (auto simp: map_sum_eq_Inr intro: in_Ret)

lemma in_bind: "code_in G F c \<Longrightarrow> (\<And>x. code_in G F (k x)) \<Longrightarrow> code_in G F (code_bind c k)"
proof (induction rule: code_in.induct)
  case (in_Ret x)
  then show ?case by simp
next
  case (in_Do f)
  show ?case
    unfolding code_bind.simps comp_def
  proof (rule code_in.in_Do [OF act_in_map [OF in_Do.hyps(1)]])
    fix nd c' nd'
    assume "map_option (map_prod (map_sum id (\<lambda>c. code_bind c k)) id) (f nd) = Some (Inr c', nd')"
    then obtain c where "f nd = Some (Inr c, nd')" "c' = code_bind c k"
      by (auto simp: map_sum_eq_Inr)
    with in_Do.IH in_Do.prems show "code_in G F c'" by blast
  qed
qed

lemma in_if: "code_in G F c \<Longrightarrow> code_in G F d \<Longrightarrow> code_in G F (if b then c else d)"
  by simp

lemmas code_rules = in_Ret in_atom in_bind in_if

lemma in_turn_in: "(\<And>c. c \<in> set cs \<Longrightarrow> code_in G F c) \<Longrightarrow> code_in G F (in_turn cs)"
  by (induction cs) (simp_all add: in_Ret in_bind)

text \<open>Run alone, the code does as its statements.\<close>

lemma run_in: "code_in G F c \<Longrightarrow> act_in G F (run c)"
proof (induction rule: code_in.induct)
  case (in_Ret x)
  show ?case by (simp add: act_in_def act_rules)
next
  case (in_Do f)
  have "act_hom g (run (Do f))" if g: "g \<in> G" for g
    unfolding act_hom_def
  proof
    fix nd
    have f: "f (g nd) = map_option (\<lambda>(r, nd'). (r, g nd')) (f nd)"
      using in_Do.hyps(1) g by (simp add: act_in_def act_hom_def)
    show "run (Do f) (g nd) = map_option (\<lambda>(r, nd'). (r, g nd')) (run (Do f) nd)"
      using in_Do.IH g by (auto simp: run_Do f act_in_def act_hom_def simp del: run.simps
          split: option.split sum.split)
  qed
  moreover have "act_keeps h (run (Do f))" if h: "h \<in> F" for h
    unfolding act_keeps_def
  proof (intro allI impI)
    fix nd r nd' assume run: "run (Do f) nd = Some (r, nd')"
    then obtain q nd1 where q: "f nd = Some (q, nd1)" by (auto simp: run_Do simp del: run.simps split: option.splits)
    then have "h nd1 = h nd" using in_Do.hyps(1) h by (simp add: act_in_def act_keeps_def)
    then show "h nd' = h nd"
      using run q in_Do.IH [of nd _ nd1] h
      by (cases q) (auto simp: run_Do act_in_def act_keeps_def simp del: run.simps)
  qed
  ultimately show ?case unfolding act_in_def by blast
qed

text \<open>The statements of a thread keep to its part of the node.\<close>

context thread_part
begin

definition own_homs :: "(node \<Rightarrow> node) set" where
  "own_homs = {\<lambda>nd. with_events es (other src nd) | es src. True}"

definition own_shows :: "(node \<Rightarrow> node) set" where
  "own_shows = {\<lambda>nd. quiet (own src nd) | src. True}"

lemma in_own_part_iff: "in_own_part m \<longleftrightarrow> act_in own_homs own_shows m"
  by (auto simp: in_own_part_def act_in_def own_homs_def own_shows_def)

abbreviation own_code :: "'a code \<Rightarrow> bool" where
  "own_code \<equiv> code_in own_homs own_shows"

lemma own_DoE: "own_code (Do f) \<Longrightarrow> in_own_part f"
  by (simp add: in_own_part_iff in_DoE(1))

lemma own_run: "own_code c \<Longrightarrow> in_own_part (run c)"
  by (simp add: in_own_part_iff run_in)

lemma own_atom: "in_own_part m \<Longrightarrow> own_code (atom m)"
  by (simp add: in_own_part_iff in_atom)

lemmas own_rules = in_Ret own_atom in_bind in_if

end

lemmas in_part_defs = ping.in_own_part_def image.in_own_part_def update_msg_def set_frame_def publish_msg_def

lemma bth0_code_own: "ping.own_code (bth0_code buf pkt)"
  unfolding bth0_code_def topic_code_def
  by (intro ping.own_rules; unfold in_part_defs; intro conjI allI act_rules) (simp_all add: part_defs)

lemma aid0_code_own: "image.own_code (aid0_code mem buf pkt)"
  unfolding aid0_code_def topic_code_def image_code_def Let_def
  by (intro image.own_rules; unfold in_part_defs; intro conjI allI act_rules)
    (simp_all add: part_defs set_assembler_def)

lemma threads_own: "ping.own_code (bth0_thread ps)" "image.own_code (aid0_thread is)"
  unfolding bth0_thread_def aid0_thread_def
  by (auto intro!: in_turn_in bth0_code_own aid0_code_own)

lemma publish_in_part: "ping.in_own_part (publish_pings ps)" "image.in_own_part (publish_sections is)"
  using ping.own_run [OF threads_own(1)] image.own_run [OF threads_own(2)]
  by (simp_all add: run_bth0_thread run_aid0_thread)

section \<open>Interleavings\<close>

text \<open>Either thread does its next statement; a statement that blocks or throws is not a step.\<close>

inductive istep :: "unit code \<times> unit code \<times> node \<Rightarrow> unit code \<times> unit code \<times> node \<Rightarrow> bool" where
  bth0_step: "f nd = Some (Inr c, nd') \<Longrightarrow> istep (Do f, d, nd) (c, d, nd')"
| aid0_step: "f nd = Some (Inr d, nd') \<Longrightarrow> istep (c, Do f, nd) (c, d, nd')"

inductive_cases istepE: "istep (c, d, nd) s"

lemma shuffles_extend:
  "zs \<in> shuffles xs ys \<Longrightarrow> zs @ es \<in> shuffles (xs @ es) ys"
  "zs \<in> shuffles xs ys \<Longrightarrow> zs @ es \<in> shuffles xs (ys @ es)"
proof -
  have "zs @ es \<in> shuffles (xs @ es) ys" if "zs \<in> shuffles xs ys" for zs xs ys
    using that
  proof (induction xs ys arbitrary: zs rule: shuffles.induct)
    case (1 ys)
    then show ?case by (induction ys arbitrary: zs) (auto simp: Cons_in_shuffles_rightI)
  next
    case (2 xs)
    then show ?case by simp
  next
    case (3 x xs y ys)
    then show ?case by (auto simp: Cons_in_shuffles_leftI Cons_in_shuffles_rightI)
  qed
  note left = this
  then show "zs \<in> shuffles xs ys \<Longrightarrow> zs @ es \<in> shuffles (xs @ es) ys" .
  show "zs \<in> shuffles xs ys \<Longrightarrow> zs @ es \<in> shuffles xs (ys @ es)"
    using left [of zs ys xs] by (simp add: shuffles_commutes [of xs])
qed

text \<open>
  The state of an interleaving: each thread is where it would be alone, in the node \<open>a\<close> or \<open>b\<close>, and the
  node is \<open>a\<close> with the part of the other thread from \<open>b\<close>.
\<close>

definition merged :: "node \<Rightarrow> node \<Rightarrow> node \<Rightarrow> node \<Rightarrow> bool" where
  "merged nd a b s \<longleftrightarrow> quiet a = with_ping_part a (quiet nd) \<and> quiet b = with_image_part b (quiet nd)
     \<and> (\<exists>es fs zs. published a = published nd @ es \<and> published b = published nd @ fs \<and> zs \<in> shuffles es fs
          \<and> s = with_events (published nd @ zs) (with_image_part b (quiet a)))"

lemma merged_swap:
  assumes "merged nd a b s"
  shows "with_image_part b (quiet a) = with_ping_part a (quiet b)"
  using assms unfolding merged_def by (metis ping.own_other)

lemma merged_start: "merged nd nd nd nd"
proof -
  have "nd = with_events (published nd @ []) (with_image_part nd (quiet nd))"
    using with_events_quiet [of nd] by (simp add: image.own_quiet image.own_self)
  then show ?thesis
    by (auto simp: merged_def ping.own_quiet ping.own_self image.own_quiet image.own_self)
qed

lemma bth0_moves:
  assumes M: "merged nd a b s" and own: "ping.own_code (Do f)" and step: "f s = Some (r, s')"
  obtains a' where "f a = Some (r, a')" "merged nd a' b s'"
proof -
  obtain es fs zs where P: "published a = published nd @ es" "published b = published nd @ fs" "zs \<in> shuffles es fs"
      "s = with_events (published nd @ zs) (with_image_part b (quiet a))"
    using M by (auto simp: merged_def)
  from ping.merged_step [OF ping.own_DoE [OF own] step [unfolded P(4)]] obtain a' gs where
    a': "f a = Some (r, a')" "published a' = published a @ gs" "quiet a' = with_ping_part a' (quiet a)"
      "s' = with_events ((published nd @ zs) @ gs) (with_image_part b (quiet a'))" .
  have "quiet a' = with_ping_part a' (quiet nd)"
    using M a'(3) by (metis merged_def ping.own_own)
  then have "merged nd a' b s'"
    using M P(1,2) a'(2,4) shuffles_extend(1) [OF P(3), of gs] unfolding merged_def
    by (intro conjI exI [of _ "es @ gs"] exI [of _ fs] exI [of _ "zs @ gs"]) simp_all
  with a'(1) that show ?thesis by blast
qed

lemma aid0_moves:
  assumes M: "merged nd a b s" and own: "image.own_code (Do f)" and step: "f s = Some (r, s')"
  obtains b' where "f b = Some (r, b')" "merged nd a b' s'"
proof -
  obtain es fs zs where P: "published a = published nd @ es" "published b = published nd @ fs" "zs \<in> shuffles es fs"
      "s = with_events (published nd @ zs) (with_ping_part a (quiet b))"
    using M merged_swap [OF M] by (auto simp: merged_def)
  from image.merged_step [OF image.own_DoE [OF own] step [unfolded P(4)]] obtain b' gs where
    b': "f b = Some (r, b')" "published b' = published b @ gs" "quiet b' = with_image_part b' (quiet b)"
      "s' = with_events ((published nd @ zs) @ gs) (with_ping_part a (quiet b'))" .
  have qb: "quiet b' = with_image_part b' (quiet nd)"
    using M b'(3) by (metis merged_def image.own_own)
  have "with_ping_part a (quiet b') = with_image_part b' (quiet a)"
    using M qb by (metis merged_def ping.own_other)
  then have "merged nd a b' s'"
    using M P(1,2) b'(2,4) qb shuffles_extend(2) [OF P(3), of gs] unfolding merged_def
    by (intro conjI exI [of _ es] exI [of _ "fs @ gs"] exI [of _ "zs @ gs"]) simp_all
  with b'(1) that show ?thesis by blast
qed

lemma bth0_can_move:
  assumes M: "merged nd a b s" and own: "ping.own_code (Do f)" and alone: "f a = Some (r, a')"
  obtains s' where "f s = Some (r, s')" "merged nd a' b s'"
proof -
  from ping.run_from_quiet [OF ping.own_DoE [OF own] alone] obtain q where q: "f (quiet a) = Some (r, q)" .
  obtain es where "s = with_events es (with_image_part b (quiet a))"
    using M by (auto simp: merged_def)
  with ping.run_merged(1) [OF ping.own_DoE [OF own] q] obtain s' where s': "f s = Some (r, s')" by blast
  from bth0_moves [OF M own s'] alone that s' show ?thesis by auto
qed

lemma aid0_can_move:
  assumes M: "merged nd a b s" and own: "image.own_code (Do f)" and alone: "f b = Some (r, b')"
  obtains s' where "f s = Some (r, s')" "merged nd a b' s'"
proof -
  from image.run_from_quiet [OF image.own_DoE [OF own] alone] obtain q where q: "f (quiet b) = Some (r, q)" .
  obtain es where "s = with_events es (with_ping_part a (quiet b))"
    using M merged_swap [OF M] by (auto simp: merged_def)
  with image.run_merged(1) [OF image.own_DoE [OF own] q] obtain s' where s': "f s = Some (r, s')" by blast
  from aid0_moves [OF M own s'] alone that s' show ?thesis by auto
qed

lemma run_DoE:
  assumes "run (Do f) nd = Some (Inr x, nd')"
  obtains c nd1 where "f nd = Some (Inr c, nd1)" "run c nd1 = Some (Inr x, nd')"
  using assms by (auto simp: run_Do simp del: run.simps split: option.splits sum.splits)

lemma bth0_finishes:
  "ping.own_code c \<Longrightarrow> merged nd a b s \<Longrightarrow> run c a = Some (Inr u, a') \<Longrightarrow>
   \<exists>s'. istep\<^sup>*\<^sup>* (c, d, s) (Ret (), d, s') \<and> merged nd a' b s'"
proof (induction arbitrary: a s rule: code_in.induct)
  case (in_Ret x)
  then show ?case by (auto simp: act_return_def)
next
  case (in_Do f)
  from run_DoE [OF in_Do.prems(2)] obtain c a1 where c: "f a = Some (Inr c, a1)" "run c a1 = Some (Inr u, a')" .
  have "ping.own_code (Do f)" using in_Do.hyps by (rule code_in.in_Do)
  from bth0_can_move [OF in_Do.prems(1) this c(1)] obtain s1 where s1: "f s = Some (Inr c, s1)" "merged nd a1 b s1" .
  from in_Do.IH [OF c(1) s1(2) c(2)] bth0_step [of f s c s1 d, OF s1(1)] show ?case
    by (meson converse_rtranclp_into_rtranclp)
qed

lemma aid0_finishes:
  "image.own_code d \<Longrightarrow> merged nd a b s \<Longrightarrow> run d b = Some (Inr u, b') \<Longrightarrow>
   \<exists>s'. istep\<^sup>*\<^sup>* (c, d, s) (c, Ret (), s') \<and> merged nd a b' s'"
proof (induction arbitrary: b s rule: code_in.induct)
  case (in_Ret x)
  then show ?case by (auto simp: act_return_def)
next
  case (in_Do f)
  from run_DoE [OF in_Do.prems(2)] obtain d b1 where d: "f b = Some (Inr d, b1)" "run d b1 = Some (Inr u, b')" .
  have "image.own_code (Do f)" using in_Do.hyps by (rule code_in.in_Do)
  from aid0_can_move [OF in_Do.prems(1) this d(1)] obtain s1 where s1: "f s = Some (Inr d, s1)" "merged nd a b1 s1" .
  from in_Do.IH [OF d(1) s1(2) d(2)] aid0_step [of f s d s1 c, OF s1(1)] show ?case
    by (meson converse_rtranclp_into_rtranclp)
qed

text \<open>What every reachable state of the interleaving keeps.\<close>

definition inter :: "unit code \<Rightarrow> unit code \<Rightarrow> node \<Rightarrow> unit code \<times> unit code \<times> node \<Rightarrow> bool" where
  "inter c0 d0 nd st = (case st of (c, d, s) \<Rightarrow> ping.own_code c \<and> image.own_code d
     \<and> (\<exists>a b. merged nd a b s \<and> run c0 nd = run c a \<and> run d0 nd = run d b))"

lemma inter_step:
  assumes "istep st st'" and inter: "inter c0 d0 nd st"
  shows "inter c0 d0 nd st'"
  using assms(1)
proof cases
  case (bth0_step f s c s' d)
  obtain a b where own: "ping.own_code (Do f)" "image.own_code d" and M: "merged nd a b s"
    and alone: "run c0 nd = run (Do f) a" "run d0 nd = run d b"
    using inter by (auto simp: inter_def bth0_step(1) simp del: run.simps)
  from bth0_moves [OF M own(1) bth0_step(3)] obtain a' where a': "f a = Some (Inr c, a')" "merged nd a' b s'" .
  have "run c0 nd = run c a'" using alone(1) a'(1) by (simp add: run_Do del: run.simps)
  moreover have "ping.own_code c" using own(1) bth0_step(3) by (rule in_DoE(2))
  ultimately show ?thesis using own(2) alone(2) a'(2) by (auto simp: inter_def bth0_step(2))
next
  case (aid0_step f s d s' c)
  obtain a b where own: "ping.own_code c" "image.own_code (Do f)" and M: "merged nd a b s"
    and alone: "run c0 nd = run c a" "run d0 nd = run (Do f) b"
    using inter by (auto simp: inter_def aid0_step(1) simp del: run.simps)
  from aid0_moves [OF M own(2) aid0_step(3)] obtain b' where b': "f b = Some (Inr d, b')" "merged nd a b' s'" .
  have "run d0 nd = run d b'" using alone(2) b'(1) by (simp add: run_Do del: run.simps)
  moreover have "image.own_code d" using own(2) aid0_step(3) by (rule in_DoE(2))
  ultimately show ?thesis using own(1) alone(1) b'(2) by (auto simp: inter_def aid0_step(2))
qed

lemma inter_reachable:
  assumes "istep\<^sup>*\<^sup>* (c0, d0, nd) st" and "ping.own_code c0" "image.own_code d0"
  shows "inter c0 d0 nd st"
  using assms(1)
proof (induction rule: rtranclp_induct)
  case base
  show ?case using assms(2,3) merged_start by (auto simp: inter_def)
next
  case (step st st')
  then show ?case using inter_step by blast
qed

text \<open>One thread after the other is the second alone, in the other part.\<close>

lemma after_pings:
  assumes 1: "publish_pings ps nd = Some (r1, nd1)" and 2: "publish_sections is nd1 = Some (r2, nd2)"
  obtains b where "publish_sections is nd = Some (r2, b)" "quiet nd2 = with_ping_part nd1 (quiet b)"
    "\<exists>gs. published nd2 = published nd1 @ gs \<and> published b = published nd @ gs"
proof -
  from ping.run_from_quiet [OF publish_in_part(1) 1] obtain q1 where
    q1: "nd1 = with_events (published nd) q1" "quiet q1 = with_ping_part q1 (quiet nd)" .
  then have nd1: "nd1 = with_events (published nd1) (with_ping_part nd1 (quiet nd))"
    using with_events_quiet [of nd1] by (simp add: image.other_silent)
  from image.run_quiet [OF publish_in_part(2), of "is" "published nd1" nd1 nd r2 nd2] 2 nd1 obtain q2 where
    q2: "publish_sections is (quiet nd) = Some (r2, q2)" "nd2 = with_events (published nd1) (with_ping_part nd1 q2)"
      "quiet q2 = with_image_part q2 (quiet nd)" by metis
  from image.run_merged(2) [OF publish_in_part(2) q2(1)]
  have b: "publish_sections is nd = Some (r2, with_events (published nd) (with_ping_part nd q2))" .
  have "with_ping_part nd (with_image_part q2 (quiet nd)) = with_image_part q2 (quiet nd)"
    by (simp add: ping.own_other ping.own_quiet ping.own_self)
  with q2(3) have same: "with_ping_part nd q2 = q2"
    using with_events_quiet [of q2] ping.own_events by metis
  have "published (with_ping_part nd1 q2) = published q2" by (simp add: with_ping_part_def)
  with that [OF b [unfolded same]] q2(2) show ?thesis
    by (simp add: ping.own_quiet)
qed


text \<open>What the image thread can do alone it can do after the other.\<close>

lemma sections_after_pings:
  assumes 1: "publish_pings ps nd = Some (r1, nd1)" and 2: "publish_sections is nd = Some (r2, b)"
  shows "\<exists>nd2. publish_sections is nd1 = Some (r2, nd2)"
proof -
  from ping.run_from_quiet [OF publish_in_part(1) 1] obtain q1 where
    q1: "nd1 = with_events (published nd) q1" "quiet q1 = with_ping_part q1 (quiet nd)" .
  then have "nd1 = with_events (published nd1) (with_ping_part nd1 (quiet nd))"
    using with_events_quiet [of nd1] by (simp add: image.other_silent)
  moreover from image.run_from_quiet [OF publish_in_part(2) 2] obtain q where
    "publish_sections is (quiet nd) = Some (r2, q)" .
  ultimately show ?thesis using image.run_merged(1) [OF publish_in_part(2)] by metis
qed

lemma sample_two_pings:
  "\<exists>nd1. publish_pings (replicate 2 (sample_buffer sample_a2, sample_packet)) sample_idle = Some (Inr (), nd1)"
proof -
  have ping: "\<exists>nd'. publish_bth0 (sample_buffer sample_a2) sample_packet nd = Some (Inr (), nd') \<and> bth0_unlocked nd'"
    if "bth0_unlocked nd" for nd
    using ping_published [OF sample_ok(1,3,5) that refl refl, of "[]" 0] by (auto simp: sample_buffer_def)
  from ping [OF sample_idle_facts(1)] ping show ?thesis
    by (fastforce simp: publish_pings_def act_bind_def act_return_def numeral_2_eq_2)
qed


end
