(* ===== verification/Threads.thy ===== *)
theory Threads
  imports Reception Interleaving
begin

text \<open>
  The program at the level of its statements: every receiver thread runs the statements of its
  handler, and between two of them the other receivers, the timer, the parameter callback and the
  shutdown go on. The handlers of \<open>System\<close>, which run as one step, are proved to be a correct
  abstraction of it: each run of the threads is, for every receiver, a run of the handlers.
\<close>

section \<open>The threads\<close>

text \<open>\<open>receiveImpl\<close> as code, for the receiver's packet type.\<close>

definition receive_code :: "bool \<times> H0_Body \<Rightarrow> receiver_id \<Rightarrow> buffer \<Rightarrow> unit code" where
  "receive_code mem ty buf =
     (case ty of
        None \<Rightarrow> Ret ()
      | Some t \<Rightarrow> code_bind (atom (act_res (packet_isType buf (mk_packet t 0)))) (\<lambda>ok.
          if ok then
            (case t of BTH0 \<Rightarrow> bth0_code buf (mk_packet BTH0 0)
                     | AID0 \<Rightarrow> aid0_code mem buf (mk_packet AID0 0))
          else Ret ()))"

lemma run_receive_code: "run (receive_code mem i buf) = receiveImpl mem i buf"
  by (auto simp: receive_code_def receiveImpl_def run_bth0_code run_aid0_code simp del: run.simps(2)
      split: option.split packet_type.split intro!: arg_cong [of _ _ "act_bind _"])

text \<open>
  What each receiver is at: nothing, or a datagram, with the memory its handler finds, and the
  statements that are left to run.
\<close>

type_synonym handling = "((bool \<times> H0_Body) \<times> u8 list) \<times> unit code"

type_synonym 'addr threads = "(receiver_id \<Rightarrow> handling option) \<times> 'addr system"

abbreviation idle :: "receiver_id \<Rightarrow> handling option" where
  "idle \<equiv> \<lambda>_. None"

text \<open>
  A thread waits for a datagram only when its handler has returned (\<open>wait\<close> is called behind
  \<open>receiveImpl\<close>). The executor's callbacks run one after the other in one thread; no receiver reads
  what they write, so each is one step, as in \<open>System\<close>.
\<close>

inductive thread_step :: "'addr udp_env \<Rightarrow> inet_pton \<Rightarrow> sys_label \<Rightarrow> 'addr threads \<Rightarrow> 'addr threads \<Rightarrow> bool"
  for env pton where
  arrive: "running s \<Longrightarrow> phase s i = Receiving \<Longrightarrow> w i = None \<Longrightarrow>
    buf = store_datagram bs (recv_buffer (recs s i)) \<Longrightarrow>
    thread_step env pton (Received i mem (Datagram bs)) (w, s)
      (w(i := Some ((mem, bs), receive_code mem (recv_type (recs s i)) buf)),
       s\<lparr>recs := (recs s)(i := (recs s i)\<lparr>recv_buffer := buf\<rparr>)\<rparr>)"
| fail: "running s \<Longrightarrow> phase s i = Receiving \<Longrightarrow> w i = None \<Longrightarrow>
    thread_step env pton (Received i mem ReceiveError) (w, s) (w, set_phase i Deaf s)"
| statement: "running s \<Longrightarrow> w i = Some (a, Do f) \<Longrightarrow> f (sys_node s) = Some (Inr c, nd) \<Longrightarrow>
    thread_step env pton Internal (w, s) (w(i := Some (a, c)), s\<lparr>sys_node := nd\<rparr>)"
| returns: "running s \<Longrightarrow> w i = Some (a, Ret ()) \<Longrightarrow>
    thread_step env pton Internal (w, s) (w(i := None), s)"
| throws: "running s \<Longrightarrow> w i = Some (a, Do f) \<Longrightarrow> f (sys_node s) = Some (Inl e, nd) \<Longrightarrow>
    thread_step env pton Internal (w, s) (w(i := None), set_phase i Terminated (s\<lparr>sys_node := nd\<rparr>))"
| other: "sys_step env pton Internal s s' \<Longrightarrow> \<forall>i. w i \<noteq> None \<longrightarrow> phase s' i = phase s i \<Longrightarrow>
    thread_step env pton Internal (w, s) (w, s')"

inductive_cases thread_stepE: "thread_step env pton l (w, s) st'"

abbreviation thread_run :: "'addr udp_env \<Rightarrow> inet_pton \<Rightarrow> 'addr threads \<Rightarrow> sys_label list \<Rightarrow> 'addr threads \<Rightarrow> bool" where
  "thread_run env pton \<equiv> lts_run (thread_step env pton)"

section \<open>The statements of a receiver\<close>

text \<open>They see the receiver's part of the node only, and keep the parts of the others and the parameters.\<close>

abbreviation act_by :: "receiver_id \<Rightarrow> 'a act \<Rightarrow> bool" where
  "act_by i \<equiv> act_in {receiver_view i} {\<lambda>nd. (receiver_view j nd, parameters nd) | j. j \<noteq> i}"

abbreviation code_by :: "receiver_id \<Rightarrow> 'a code \<Rightarrow> bool" where
  "code_by i \<equiv> code_in {receiver_view i} {\<lambda>nd. (receiver_view j nd, parameters nd) | j. j \<noteq> i}"

lemma act_byI:
  "act_hom (receiver_view i) m \<Longrightarrow> (\<And>j. j \<noteq> i \<Longrightarrow> act_keeps (\<lambda>nd. (receiver_view j nd, parameters nd)) m) \<Longrightarrow> act_by i m"
  by (auto simp: act_in_def)

lemma act_byD:
  "act_by i m \<Longrightarrow> act_hom (receiver_view i) m"
  "act_by i m \<Longrightarrow> m nd = Some (r, nd') \<Longrightarrow> j \<noteq> i \<Longrightarrow> receiver_view j nd' = receiver_view j nd"
proof -
  show "act_by i m \<Longrightarrow> act_hom (receiver_view i) m" by (simp add: act_in_def)
  assume m: "act_by i m" "m nd = Some (r, nd')" and j: "j \<noteq> i"
  then have "act_keeps (\<lambda>nd. (receiver_view j nd, parameters nd)) m" unfolding act_in_def by blast
  with m(2) show "receiver_view j nd' = receiver_view j nd" by (simp add: act_keeps_def)
qed

lemma another_receiver: obtains j where "j \<noteq> (i :: receiver_id)"
  by (cases i) auto

lemma act_by_params: "act_by i m \<Longrightarrow> m nd = Some (r, nd') \<Longrightarrow> parameters nd' = parameters nd"
proof -
  assume m: "act_by i m" "m nd = Some (r, nd')"
  obtain j where "j \<noteq> i" by (rule another_receiver)
  with m(1) have "act_keeps (\<lambda>nd. (receiver_view j nd, parameters nd)) m" unfolding act_in_def by blast
  with m(2) show "parameters nd' = parameters nd" by (simp add: act_keeps_def)
qed

lemmas by_rules = in_Ret in_bind in_if in_atom act_byI

lemmas statement_defs = update_msg_def set_frame_def set_assembler_def

lemma publish_msg_rules:
  "(\<And>nd. e (g nd) = e nd) \<Longrightarrow> (\<And>nd. g (nd\<lparr>published := published nd @ [e nd]\<rparr>)
      = (g nd)\<lparr>published := published (g nd) @ [e nd]\<rparr>) \<Longrightarrow> act_hom g (publish_msg e)"
  "(\<And>nd. f (nd\<lparr>published := published nd @ [e nd]\<rparr>) = f nd) \<Longrightarrow> act_keeps f (publish_msg e)"
  by (simp_all add: publish_msg_def publish_event_def act_simps act_hom_def act_keeps_def)

lemma view_frame:
  "j \<noteq> Some BTH0 \<Longrightarrow> receiver_view j (msg_detections_update f nd) = receiver_view j nd"
  "j \<noteq> Some BTH0 \<Longrightarrow> receiver_view j (msg_bth0_update g nd) = receiver_view j nd"
  "j \<noteq> Some BTH0 \<Longrightarrow> receiver_view j (mtx_detections_update h nd) = receiver_view j nd"
  "j \<noteq> Some BTH0 \<Longrightarrow> receiver_view j (mtx_bth0_update h nd) = receiver_view j nd"
  "j \<noteq> Some AID0 \<Longrightarrow> receiver_view j (msg_aid0_update g nd) = receiver_view j nd"
  "j \<noteq> Some AID0 \<Longrightarrow> receiver_view j (assemblers_update k nd) = receiver_view j nd"
  "j \<noteq> Some AID0 \<Longrightarrow> receiver_view j (mtx_image_update h nd) = receiver_view j nd"
  "j \<noteq> Some AID0 \<Longrightarrow> receiver_view j (mtx_aid0_update h nd) = receiver_view j nd"
  "event_source e \<noteq> j \<Longrightarrow> receiver_view j (nd\<lparr>published := published nd @ [e]\<rparr>) = receiver_view j nd"
  by (cases "j = Some BTH0"; simp add: receiver_view_def Let_def)+

lemma bth0_code_by: "code_by (Some BTH0) (bth0_code buf pkt)"
  unfolding bth0_code_def topic_code_def
  by (intro by_rules; (unfold statement_defs)?; intro act_rules publish_msg_rules) (simp_all add: view_frame, simp_all add: view_simps)

lemma aid0_code_by: "code_by (Some AID0) (aid0_code mem buf pkt)"
  unfolding aid0_code_def topic_code_def image_code_def Let_def
  by (intro by_rules; (unfold statement_defs)?; intro act_rules publish_msg_rules) (simp_all add: view_frame, simp_all add: view_simps)

lemma receive_code_by: "code_by i (receive_code mem i buf)"
proof (cases i)
  case None
  then show ?thesis by (simp add: receive_code_def in_Ret)
next
  case (Some t)
  have "code_by (Some t) (if ok then (case t of BTH0 \<Rightarrow> bth0_code buf (mk_packet BTH0 0)
      | AID0 \<Rightarrow> aid0_code mem buf (mk_packet AID0 0)) else Ret ())" for ok
    by (cases t) (simp_all add: bth0_code_by aid0_code_by in_Ret)
  then show ?thesis
    unfolding Some receive_code_def option.case by (intro in_bind in_atom act_byI act_rules)
qed

lemma receiveImpl_by: "act_by i (receiveImpl mem i buf)"
  using run_in [OF receive_code_by] by (simp only: run_receive_code)

section \<open>Threads and handlers\<close>

text \<open>Two ways to end that the receiver cannot tell apart.\<close>

definition same_end :: "receiver_id \<Rightarrow> ('a res \<times> node) option \<Rightarrow> ('a res \<times> node) option \<Rightarrow> bool" where
  "same_end i x y \<longleftrightarrow> map_option (\<lambda>(r, nd). (r, receiver_view i nd)) x = map_option (\<lambda>(r, nd). (r, receiver_view i nd)) y"

lemma same_end_Some:
  assumes "same_end i (Some (r, nd)) y"
  obtains nd' where "y = Some (r, nd')" "receiver_view i nd = receiver_view i nd'"
  using assms by (cases y) (auto simp: same_end_def)

lemma same_end_act:
  assumes "act_by i m" and "receiver_view i nd = receiver_view i nd'"
  shows "same_end i (m nd) (m nd')"
proof -
  have "map_option (\<lambda>(r, q). (r, receiver_view i q)) (m nd) = m (receiver_view i nd)" for nd
    using act_byD(1) [OF assms(1)] by (simp add: act_hom_def)
  then show ?thesis by (simp add: same_end_def assms(2))
qed

lemma same_end_trans: "same_end i x y \<Longrightarrow> same_end i y z \<Longrightarrow> same_end i x z"
  by (simp add: same_end_def)

lemma same_end_sym: "same_end i x y \<Longrightarrow> same_end i y x"
  by (simp add: same_end_def)

text \<open>
  A state of the threads against a state of the handlers. A receiver that is at nothing is the same
  in both, with its part of the node. A receiver at a datagram has not begun with it in the state of
  the handlers, and will end as the handler does there.
\<close>

definition thread_matches :: "receiver_id \<Rightarrow> handling option \<Rightarrow> 'addr system \<Rightarrow> 'addr system \<Rightarrow> bool" where
  "thread_matches i h s t \<longleftrightarrow>
     (case h of
        None \<Rightarrow> recs s i = recs t i \<and> receiver_view i (sys_node s) = receiver_view i (sys_node t)
      | Some ((mem, bs), c) \<Rightarrow> phase t i = Receiving \<and> code_by i c
          \<and> recs s i = (recs t i)\<lparr>recv_buffer := store_datagram bs (recv_buffer (recs t i))\<rparr>
          \<and> same_end i (run c (sys_node s)) (receiveImpl mem i (recv_buffer (recs s i)) (sys_node t)))"

fun pending :: "handling option \<Rightarrow> handed_event list" where
  "pending None = []"
| "pending (Some ((mem, bs), c)) = [(mem, Datagram bs)]"

definition matches :: "'addr threads \<Rightarrow> sys_label list \<Rightarrow> 'addr system \<Rightarrow> sys_label list \<Rightarrow> bool" where
  "matches st tr t tr' \<longleftrightarrow> (case st of (w, s) \<Rightarrow>
     up t = up s \<and> main t = main s \<and> outbox t = outbox s \<and> crashed t = crashed s
   \<and> parameters (sys_node t) = parameters (sys_node s)
   \<and> (\<forall>i. recv_type (recs t i) = i \<and> thread_matches i (w i) s t \<and> handed i tr = handed i tr' @ pending (w i)))"

lemma matches_same: "\<forall>i. recv_type (recs s i) = i \<Longrightarrow> matches (idle, s) [] s []"
  by (simp add: matches_def thread_matches_def)

lemma matchesD:
  assumes "matches (w, s) tr t tr'"
  shows "recv_type (recs t i) = i" "thread_matches i (w i) s t" "handed i tr = handed i tr' @ pending (w i)"
    "up t = up s" "main t = main s" "outbox t = outbox s" "crashed t = crashed s"
    "parameters (sys_node t) = parameters (sys_node s)"
  using assms by (simp_all add: matches_def)

lemma matches_phase: "matches (w, s) tr t tr' \<Longrightarrow> phase t = phase s"
proof
  fix i assume "matches (w, s) tr t tr'"
  from matchesD(2) [OF this, of i] show "phase t i = phase s i"
    by (auto simp: thread_matches_def phase_def split: option.splits)
qed

lemma matches_running: "matches (w, s) tr t tr' \<Longrightarrow> running t = running s"
  using matches_phase [of w s tr t tr'] by (simp add: running_def matches_def)

lemma matches_idle:
  assumes "matches (w, s) tr t tr'" and "phase s i \<noteq> Receiving"
  shows "w i = None"
proof (cases "w i")
  case (Some x)
  then have "phase t i = Receiving" using matchesD(2) [OF assms(1), of i]
    by (auto simp: thread_matches_def split: prod.splits)
  then show ?thesis using assms(2) matches_phase [OF assms(1)] by simp
qed

text \<open>What happens elsewhere does not matter to a receiver.\<close>

lemma thread_matches_cong:
  assumes M: "thread_matches i h s t"
    and s: "recs s' i = recs s i" "receiver_view i (sys_node s') = receiver_view i (sys_node s)"
    and t: "recs t' i = recs t i" "receiver_view i (sys_node t') = receiver_view i (sys_node t)"
  shows "thread_matches i h s' t'"
proof (cases h)
  case None
  then show ?thesis using assms by (simp add: thread_matches_def)
next
  case (Some x)
  obtain mem bs c where x: "x = ((mem, bs), c)" by (metis surj_pair)
  have c: "code_by i c" and e: "same_end i (run c (sys_node s)) (receiveImpl mem i (recv_buffer (recs s i)) (sys_node t))"
    using M unfolding thread_matches_def Some x option.case prod.case by blast+
  from same_end_act [OF run_in [OF c] s(2)] e same_end_act [OF receiveImpl_by t(2) [symmetric]]
  have "same_end i (run c (sys_node s')) (receiveImpl mem i (recv_buffer (recs s i)) (sys_node t'))"
    by (blast intro: same_end_trans)
  then show ?thesis using M unfolding thread_matches_def Some x by (simp add: s t phase_def)
qed

text \<open>A step of the threads at receiver \<open>i\<close>, matched by a step of the handlers at \<open>i\<close> or by none.\<close>

lemma matches_at:
  assumes M: "matches (w, s) tr t tr'"
    and s: "\<forall>j. j \<noteq> i \<longrightarrow> recs s' j = recs s j \<and> receiver_view j (sys_node s') = receiver_view j (sys_node s)"
    and t: "\<forall>j. j \<noteq> i \<longrightarrow> recs t' j = recs t j \<and> receiver_view j (sys_node t') = receiver_view j (sys_node t)"
    and rest: "up s' = up s" "main s' = main s" "outbox s' = outbox s" "crashed s' = crashed s"
      "up t' = up t" "main t' = main t" "outbox t' = outbox t" "crashed t' = crashed t"
    and P: "parameters (sys_node s') = parameters (sys_node s)" "parameters (sys_node t') = parameters (sys_node t)"
    and i: "recv_type (recs t' i) = i" "thread_matches i (w' i) s' t'"
    and w: "\<forall>j. j \<noteq> i \<longrightarrow> w' j = w j"
    and h: "\<forall>j. j \<noteq> i \<longrightarrow> handed j [l] = [] \<and> handed j ks = []" "handed i [l] @ pending (w i) = handed i ks @ pending (w' i)"
    and atomic: "pending (w i) = [] \<or> handed i [l] = []"
  shows "matches (w', s') (tr @ [l]) t' (tr' @ ks)"
proof -
  have M': "recv_type (recs t j) = j" "thread_matches j (w j) s t" "handed j tr = handed j tr' @ pending (w j)" for j
    by (rule matchesD [OF M])+
  have "recv_type (recs t' j) = j \<and> thread_matches j (w' j) s' t' \<and> handed j (tr @ [l]) = handed j (tr' @ ks) @ pending (w' j)" for j
  proof (cases "j = i")
    case True
    have "handed i (tr @ [l]) = handed i (tr' @ ks) @ pending (w' i)"
      using M'(3) [of i] h(2) atomic by auto
    with True i show ?thesis by simp
  next
    case False
    with s t have "thread_matches j (w j) s' t'"
      by (intro thread_matches_cong [OF M'(2)]) blast+
    with False M' t w h(1) show ?thesis by simp
  qed
  then show ?thesis using M rest P by (simp add: matches_def)
qed

section \<open>The handlers simulate the threads\<close>

text \<open>The common situation: a step of receiver \<open>i\<close> in a matched state.\<close>

lemma idle_thread:
  assumes "matches (w, s) tr t tr'" and "w i = None"
  shows "recs s i = recs t i" "receiver_view i (sys_node s) = receiver_view i (sys_node t)"
  using matchesD(2) [OF assms(1), of i] by (simp_all add: thread_matches_def assms(2))

lemma busy_thread:
  assumes "matches (w, s) tr t tr'" and "w i = Some ((mem, bs), c)"
  shows "phase t i = Receiving" "code_by i c"
    "recs s i = (recs t i)\<lparr>recv_buffer := store_datagram bs (recv_buffer (recs t i))\<rparr>"
    "same_end i (run c (sys_node s)) (receiveImpl mem i (recv_buffer (recs s i)) (sys_node t))"
  using matchesD(2) [OF assms(1), of i] unfolding thread_matches_def assms(2) option.case prod.case by blast+

lemma arrive_matches:
  assumes M: "matches (w, s) tr t tr'" and ph: "phase s i = Receiving" and w: "w i = None"
    and buf: "buf = store_datagram bs (recv_buffer (recs s i))"
  shows "matches (w(i := Some ((mem, bs), receive_code mem (recv_type (recs s i)) buf)),
     s\<lparr>recs := (recs s)(i := (recs s i)\<lparr>recv_buffer := buf\<rparr>)\<rparr>) (tr @ [Received i mem (Datagram bs)]) t (tr' @ [])"
proof (rule matches_at [OF M, where i = i])
  have ty: "recv_type (recs t i) = i" by (rule matchesD(1) [OF M])
  have "phase t i = Receiving" using ph matches_phase [OF M] by simp
  then show "thread_matches i ((w(i := Some ((mem, bs), receive_code mem (recv_type (recs s i)) buf))) i)
      (s\<lparr>recs := (recs s)(i := (recs s i)\<lparr>recv_buffer := buf\<rparr>)\<rparr>) t"
    using same_end_act [OF receiveImpl_by idle_thread(2) [OF M w]] idle_thread(1) [OF M w]
    by (simp add: thread_matches_def ty receive_code_by run_receive_code buf)
qed (simp_all add: w matchesD(1) [OF M])

lemma statement_matches:
  assumes M: "matches (w, s) tr t tr'" and w: "w i = Some (a, Do f)"
    and f: "f (sys_node s) = Some (Inr c, nd)"
  shows "matches (w(i := Some (a, c)), s\<lparr>sys_node := nd\<rparr>) (tr @ [Internal]) t (tr' @ [])"
proof -
  obtain mem bs where a: "a = (mem, bs)" by (cases a)
  note B = busy_thread [OF M w [unfolded a]]
  note own = in_DoE(1) [OF B(2)]
  have "run (Do f) (sys_node s) = run c nd" by (simp add: run_Do f del: run.simps)
  with B in_DoE(2) [OF B(2) f] have "thread_matches i (Some (a, c)) (s\<lparr>sys_node := nd\<rparr>) t"
    by (simp add: thread_matches_def a)
  then show ?thesis
    using w by (intro matches_at [OF M, where i = i]) (simp_all add: matchesD(1) [OF M] a act_byD(2) [OF own f] act_by_params [OF own f])
qed

text \<open>A handler that ends is run now.\<close>

lemma end_matches:
  assumes M: "matches (w, s) tr t tr'" and w: "w i = Some ((mem, bs), c)"
    and ends: "run c (sys_node s) = Some (r, nd)" and act: "act_by i m" "m (sys_node s) = Some (q, nd)"
    and s': "s' = s\<lparr>recs := (recs s)(i := (recs s i)\<lparr>recv_phase := (case r of Inl e \<Rightarrow> Terminated | Inr u \<Rightarrow> recv_phase (recs s i))\<rparr>),
      sys_node := nd\<rparr>" and running: "running s"
  shows "\<exists>t'. sys_step env pton (Received i mem (Datagram bs)) t t'
    \<and> matches (w(i := None), s') (tr @ [Internal]) t' (tr' @ [Received i mem (Datagram bs)])"
proof -
  note B = busy_thread [OF M w]
  from same_end_Some [OF B(4) [unfolded ends]] obtain nd' where
    nd': "receiveImpl mem i (recv_buffer (recs s i)) (sys_node t) = Some (r, nd')" "receiver_view i nd = receiver_view i nd'" .
  let ?t = "t\<lparr>recs := (recs t)(i := recs s' i), sys_node := nd'\<rparr>"
  have "receiveHandler mem (Datagram bs) (recs t i, sys_node t) = (recs s' i, nd')"
    using nd'(1) B(3) matchesD(1) [OF M, of i]
    by (cases r) (simp_all add: receiveHandler_def Let_def s')
  then have "sys_step env pton (Received i mem (Datagram bs)) t ?t"
    using matches_running [OF M] running B(1) by (intro sys_step.handle) simp_all
  moreover have "matches (w(i := None), s') (tr @ [Internal]) ?t (tr' @ [Received i mem (Datagram bs)])"
  proof (rule matches_at [OF M, where i = i])
    show "thread_matches i ((w(i := None)) i) s' ?t"
      using nd'(2) by (simp add: thread_matches_def s')
    show "recv_type (recs ?t i) = i"
      using matchesD(1) [OF M, of i] B(3) by (simp add: s')
  qed (simp_all add: w s' act_byD(2) [OF act] act_by_params [OF act] act_byD(2) [OF receiveImpl_by nd'(1)]
      act_by_params [OF receiveImpl_by nd'(1)])
  ultimately show ?thesis by blast
qed

lemma fail_matches:
  assumes M: "matches (w, s) tr t tr'" and w: "w i = None" and running: "running s" "phase s i = Receiving"
  shows "\<exists>t'. sys_step env pton (Received i mem ReceiveError) t t'
    \<and> matches (w, set_phase i Deaf s) (tr @ [Received i mem ReceiveError]) t' (tr' @ [Received i mem ReceiveError])"
proof -
  note I = idle_thread [OF M w]
  let ?t = "t\<lparr>recs := (recs t)(i := (recs t i)\<lparr>recv_phase := Deaf\<rparr>), sys_node := sys_node t\<rparr>"
  have "sys_step env pton (Received i mem ReceiveError) t ?t"
    using running matches_running [OF M] matches_phase [OF M]
    by (intro sys_step.handle) (simp_all add: receiveHandler_def)
  moreover have "matches (w, set_phase i Deaf s) (tr @ [Received i mem ReceiveError]) ?t (tr' @ [Received i mem ReceiveError])"
    by (rule matches_at [OF M, where i = i]) (use w I matchesD(1) [OF M, of i] in \<open>simp_all add: thread_matches_def\<close>)
  ultimately show ?thesis by blast
qed

text \<open>The executor and the phases of the receivers: the same step in both.\<close>

lemma matches_both:
  assumes M: "matches (w, s) tr t tr'"
    and recs: "\<forall>i. w i \<noteq> None \<longrightarrow> recs s' i = recs s i \<and> recs t' i = recs t i"
      "\<forall>i. w i = None \<longrightarrow> recs s' i = recs t' i" "\<forall>i. recv_type (recs t' i) = i"
    and view: "\<forall>i. receiver_view i (sys_node s') = receiver_view i (sys_node s) \<and> receiver_view i (sys_node t') = receiver_view i (sys_node t)"
    and rest: "up t' = up s'" "main t' = main s'" "outbox t' = outbox s'" "crashed t' = crashed s'"
      "parameters (sys_node t') = parameters (sys_node s')"
  shows "matches (w, s') (tr @ [Internal]) t' (tr' @ [Internal])"
proof -
  have "thread_matches i (w i) s' t'" for i
  proof (cases "w i")
    case None
    with recs view matchesD(2) [OF M, of i] show ?thesis by (simp add: thread_matches_def)
  next
    case (Some x)
    then have "w i \<noteq> None" by simp
    with recs(1) view show ?thesis by (intro thread_matches_cong [OF matchesD(2) [OF M]]) blast+
  qed
  with recs(3) rest show ?thesis by (simp add: matches_def matchesD(3) [OF M])
qed

lemma phase_matches:
  assumes M: "matches (w, s) tr t tr'" and w: "w i = None"
  shows "matches (w, set_phase i ph s) (tr @ [Internal]) (set_phase i ph t) (tr' @ [Internal])"
  by (rule matches_both [OF M]) (use w idle_thread(1) [OF M] matchesD [OF M] in auto)

lemma other_matches:
  assumes M: "matches (w, s) tr t tr'" and step: "sys_step env pton Internal s s'"
    and busy: "\<forall>i. w i \<noteq> None \<longrightarrow> phase s' i = phase s i"
  shows "\<exists>t'. sys_step env pton Internal t t' \<and> matches (w, s') (tr @ [Internal]) t' (tr' @ [Internal])"
  using step
proof (cases rule: sys_step.cases)
  case (bind i n bound)
  then have w: "w i = None" using matches_idle [OF M, of i] by auto
  have "sys_step env pton Internal t (set_phase i (receive_turn (up t) bound (phase t i)) t)"
    using bind(2,3) matches_running [OF M] matches_phase [OF M] by (intro sys_step.bind) auto
  then show ?thesis
    using phase_matches [OF M w] unfolding bind(1) matchesD(4) [OF M] matches_phase [OF M] by blast
next
  case (update what ps P)
  let ?t = "t\<lparr>sys_node := (sys_node t)\<lparr>parameters := P\<rparr>\<rparr>"
  have t: "snd (onParameterUpdate pton what ps (parameters (sys_node t))) = P"
    using update(4) matchesD(8) [OF M] by simp
  have "sys_step env pton Internal t ?t"
    using update(2,3) matches_running [OF M] matchesD(5) [OF M] t by (intro sys_step.update) simp_all
  moreover have "matches (w, s') (tr @ [Internal]) ?t (tr' @ [Internal])"
    by (rule matches_both [OF M])
      (use idle_thread(1) [OF M] matchesD [OF M] in \<open>simp_all add: update(1) update_unseen [OF update(4)] update_unseen [OF t]\<close>)
  ultimately show ?thesis by blast
next
  case (timer mem u out)
  let ?t = "t\<lparr>outbox := outbox t @ out\<rparr>"
  have "sys_step env pton Internal t ?t"
    using timer(2-4) matches_running [OF M] matchesD(5,8) [OF M] by (intro sys_step.timer) simp_all
  moreover have "matches (w, s') (tr @ [Internal]) ?t (tr' @ [Internal])"
    by (rule matches_both [OF M]) (use idle_thread(1) [OF M] matchesD [OF M] in \<open>simp_all add: timer(1)\<close>)
  ultimately show ?thesis by blast
next
  case (timer_throws mem e out)
  let ?t = "t\<lparr>outbox := outbox t @ out, crashed := True\<rparr>"
  have "sys_step env pton Internal t ?t"
    using timer_throws(2-4) matches_running [OF M] matchesD(5,8) [OF M] by (intro sys_step.timer_throws) simp_all
  moreover have "matches (w, s') (tr @ [Internal]) ?t (tr' @ [Internal])"
    by (rule matches_both [OF M]) (use idle_thread(1) [OF M] matchesD [OF M] in \<open>simp_all add: timer_throws(1)\<close>)
  ultimately show ?thesis by blast
next
  case signal
  have "sys_step env pton Internal t (t\<lparr>up := False\<rparr>)"
    using signal(2) matches_running [OF M] by (intro sys_step.signal) simp
  moreover have "matches (w, s') (tr @ [Internal]) (t\<lparr>up := False\<rparr>) (tr' @ [Internal])"
    by (rule matches_both [OF M]) (use idle_thread(1) [OF M] matchesD [OF M] in \<open>simp_all add: signal(1)\<close>)
  ultimately show ?thesis by blast
next
  case spin_returns
  have "sys_step env pton Internal t (t\<lparr>main := Joining\<rparr>)"
    using spin_returns(2-4) matches_running [OF M] matchesD(4,5) [OF M] by (intro sys_step.spin_returns) simp_all
  moreover have "matches (w, s') (tr @ [Internal]) (t\<lparr>main := Joining\<rparr>) (tr' @ [Internal])"
    by (rule matches_both [OF M]) (use idle_thread(1) [OF M] matchesD [OF M] in \<open>simp_all add: spin_returns(1)\<close>)
  ultimately show ?thesis by blast
next
  case (stop i)
  have "phase s' i \<noteq> phase s i" by (simp add: stop(1,4))
  with busy have w: "w i = None" by blast
  have "sys_step env pton Internal t (set_phase i Stopped t)"
    using stop(2-4) matches_running [OF M] matches_phase [OF M] matchesD(5) [OF M] by (intro sys_step.stop) simp_all
  then show ?thesis using phase_matches [OF M w] unfolding stop(1) by blast
next
  case join
  have "sys_step env pton Internal t (t\<lparr>main := Exited\<rparr>)"
    using join(2-4) matches_running [OF M] matches_phase [OF M] matchesD(5) [OF M] by (intro sys_step.join) simp_all
  moreover have "matches (w, s') (tr @ [Internal]) (t\<lparr>main := Exited\<rparr>) (tr' @ [Internal])"
    by (rule matches_both [OF M]) (use idle_thread(1) [OF M] matchesD [OF M] in \<open>simp_all add: join(1)\<close>)
  ultimately show ?thesis by blast
qed

lemma thread_step_simulated:
  assumes step: "thread_step env pton l st st'" and M: "matches st tr t tr'"
  shows "\<exists>t' ks. lts_run (sys_step env pton) t ks t' \<and> matches st' (tr @ [l]) t' (tr' @ ks)"
proof -
  obtain w s where st: "st = (w, s)" by (cases st)
  note M = M [unfolded st]
  have one: "\<exists>t' ks. lts_run (sys_step env pton) t ks t' \<and> matches st' (tr @ [l]) t' (tr' @ ks)"
    if "\<exists>t'. sys_step env pton k t t' \<and> matches st' (tr @ [l]) t' (tr' @ [k])" for k
  proof -
    from that obtain t' where "sys_step env pton k t t'" "matches st' (tr @ [l]) t' (tr' @ [k])" by blast
    from run_one [of "sys_step env pton", OF this(1)] this(2) show ?thesis by blast
  qed
  have none: "\<exists>t' ks. lts_run (sys_step env pton) t ks t' \<and> matches st' (tr @ [l]) t' (tr' @ ks)"
    if "matches st' (tr @ [l]) t (tr' @ [])"
    by (intro exI conjI) (rule run_start, rule that)
  from step [unfolded st] show ?thesis
  proof (cases rule: thread_stepE [consumes 1, case_names arrive fail statement returns throws other])
    case (arrive i bs mem)
    show ?thesis
      unfolding arrive(1,2) by (rule none [unfolded arrive(1,2)], rule arrive_matches [OF M arrive(4,5) refl])
  next
    case (fail i mem)
    from one [unfolded fail(1,2), OF fail_matches [OF M fail(5,3,4)]] show ?thesis unfolding fail(1,2) .
  next
    case (statement i a f c nd)
    show ?thesis
      unfolding statement(1,2) by (rule none [unfolded statement(1,2)], rule statement_matches [OF M statement(4,5)])
  next
    case (returns i a)
    obtain mem bs where a: "a = (mem, bs)" by (cases a)
    have "act_by i (act_return ())" by (intro act_byI act_rules)
    from end_matches [OF M returns(4) [unfolded a] _ this, of "Inr ()" "sys_node s" "Inr ()" s env pton] returns(3)
    have "\<exists>t'. sys_step env pton (Received i mem (Datagram bs)) t t'
        \<and> matches (w(i := None), s) (tr @ [Internal]) t' (tr' @ [Received i mem (Datagram bs)])"
      by (simp add: act_return_def)
    from one [unfolded returns(1,2), OF this] show ?thesis unfolding returns(1,2) .
  next
    case (throws i a f e nd)
    obtain mem bs where a: "a = (mem, bs)" by (cases a)
    have run: "run (Do f) (sys_node s) = Some (Inl e, nd)" using throws(5) by (simp add: run_Do del: run.simps)
    have own: "act_by i f" by (rule in_DoE(1) [OF busy_thread(2) [OF M throws(4) [unfolded a]]])
    have "set_phase i Terminated (s\<lparr>sys_node := nd\<rparr>) = s\<lparr>recs := (recs s)(i := (recs s i)\<lparr>recv_phase :=
        (case Inl e of Inl e \<Rightarrow> Terminated | Inr u \<Rightarrow> recv_phase (recs s i))\<rparr>), sys_node := nd\<rparr>"
      by (simp add: set_phase_def)
    from one [unfolded throws(1,2), OF end_matches [OF M throws(4) [unfolded a] run own throws(5) this throws(3)]]
    show ?thesis unfolding throws(1,2) .
  next
    case (other s')
    have "\<forall>i. w i \<noteq> None \<longrightarrow> phase s' i = phase s i" using other(4) by simp
    from one [unfolded other(1,2), OF other_matches [OF M other(3) this]] show ?thesis unfolding other(1,2) .
  qed
qed

interpretation handlers: simulation "thread_step env pton" "sys_step env pton" matches for env pton
  by unfold_locales (rule thread_step_simulated)

section \<open>The threads can do what the handlers do\<close>

text \<open>A handler in progress runs to its end when nothing comes in between.\<close>

definition thread_end :: "receiver_id \<Rightarrow> 'a res \<Rightarrow> node \<Rightarrow> 'addr system \<Rightarrow> 'addr system" where
  "thread_end i r nd s = (case r of Inl e \<Rightarrow> set_phase i Terminated (s\<lparr>sys_node := nd\<rparr>) | Inr u \<Rightarrow> s\<lparr>sys_node := nd\<rparr>)"

lemma running_node [simp]: "running (s\<lparr>sys_node := nd\<rparr>) = running s"
  by (simp add: running_def phase_def)

lemma code_runs:
  "running s \<Longrightarrow> w i = Some (a, c) \<Longrightarrow> run c (sys_node s) = Some (r, nd) \<Longrightarrow>
   \<exists>n. thread_run env pton (w, s) (replicate n Internal) (w(i := None), thread_end i r nd s)"
proof (induction c arbitrary: w s rule: code_induct)
  case (Ret u)
  then have "thread_step env pton Internal (w, s) (w(i := None), s)" by (intro returns) simp_all
  then have "thread_run env pton (w, s) (replicate 1 Internal) (w(i := None), s)" using run_one by simp
  moreover have "s = thread_end i r nd s" using Ret.prems(3) by (auto simp: thread_end_def act_return_def)
  ultimately show ?case by metis
next
  case (Do f)
  then obtain q nd1 where q: "f (sys_node s) = Some (q, nd1)" by (auto simp: run_Do simp del: run.simps split: option.splits)
  show ?case
  proof (cases q)
    case (Inl e)
    then have "r = Inl e" "nd = nd1" using Do.prems(3) q by (simp_all add: run_Do del: run.simps)
    moreover have "thread_step env pton Internal (w, s) (w(i := None), set_phase i Terminated (s\<lparr>sys_node := nd1\<rparr>))"
      using Do.prems(1,2) q [unfolded Inl] by (rule throws)
    then have "thread_run env pton (w, s) (replicate 1 Internal) (w(i := None), set_phase i Terminated (s\<lparr>sys_node := nd1\<rparr>))"
      using run_one by simp
    ultimately show ?thesis by (metis thread_end_def sum.case(1))
  next
    case (Inr c)
    let ?w = "w(i := Some (a, c))" and ?s = "s\<lparr>sys_node := nd1\<rparr>"
    have step: "thread_step env pton Internal (w, s) (?w, ?s)"
      using Do.prems(1,2) q [unfolded Inr] by (rule statement)
    have "run c nd1 = Some (r, nd)" using Do.prems(3) q Inr by (simp add: run_Do del: run.simps)
    with Do.prems(1) have "\<exists>n. thread_run env pton (?w, ?s) (replicate n Internal) (?w(i := None), thread_end i r nd ?s)"
      by (intro Do.IH [OF q [unfolded Inr]]) simp_all
    then obtain n where "thread_run env pton (?w, ?s) (replicate n Internal) (?w(i := None), thread_end i r nd ?s)" by blast
    from run_cons [of "thread_step env pton", OF step this] have
      "thread_run env pton (w, s) (replicate (Suc n) Internal) (w(i := None), thread_end i r nd s)"
      by (simp add: thread_end_def cong: sum.case_cong)
    then show ?thesis by blast
  qed
qed

lemma datagram_runs:
  assumes "running s" and "phase s i = Receiving" and "w i = None"
    and handler: "receiveHandler mem (Datagram bs) (recs s i, sys_node s) = (rc, nd)" "recv_phase rc \<noteq> Waiting"
  shows "\<exists>n. thread_run env pton (w, s) (Received i mem (Datagram bs) # replicate n Internal)
    (w, s\<lparr>recs := (recs s)(i := rc), sys_node := nd\<rparr>)"
proof -
  define buf where "buf = store_datagram bs (recv_buffer (recs s i))"
  let ?w = "w(i := Some ((mem, bs), receive_code mem (recv_type (recs s i)) buf))"
    and ?s = "s\<lparr>recs := (recs s)(i := (recs s i)\<lparr>recv_buffer := buf\<rparr>)\<rparr>"
  have step: "thread_step env pton (Received i mem (Datagram bs)) (w, s) (?w, ?s)"
    using assms(1-3) by (intro arrive) (simp_all add: buf_def)
  obtain r where r: "receiveImpl mem (recv_type (recs s i)) buf (sys_node s) = Some (r, nd)"
    and rc: "rc = (recs s i)\<lparr>recv_buffer := buf, recv_phase := (case r of Inl e \<Rightarrow> Terminated | Inr u \<Rightarrow> recv_phase (recs s i))\<rparr>"
    using handler assms(2)
    by (cases "receiveImpl mem (recv_type (recs s i)) buf (sys_node s)")
      (auto simp: receiveHandler_def Let_def phase_def simp flip: buf_def split: sum.splits)
  have "running ?s" using assms(1) by (simp add: running_def phase_def)
  from code_runs [OF this, of ?w i "(mem, bs)" "receive_code mem (recv_type (recs s i)) buf" r nd env pton] r obtain n where
    "thread_run env pton (?w, ?s) (replicate n Internal) (?w(i := None), thread_end i r nd ?s)"
    by (auto simp: run_receive_code)
  moreover have "thread_end i r nd ?s = s\<lparr>recs := (recs s)(i := rc), sys_node := nd\<rparr>"
    by (cases r; cases "recs s i") (simp_all add: thread_end_def rc set_phase_def)
  moreover have "?w(i := None) = w" using assms(3) by auto
  ultimately show ?thesis using run_cons [of "thread_step env pton", OF step] by metis
qed

text \<open>
  So a run of the handlers is a run of the threads, unless a handler has not returned in it: then the
  threads stop inside the handler, where the handler as one step shows no state.
\<close>

definition performs :: "'addr system \<Rightarrow> sys_label list \<Rightarrow> 'addr threads \<Rightarrow> sys_label list \<Rightarrow> bool" where
  "performs t tr st tr' \<longleftrightarrow> (\<exists>i. phase t i = Waiting) \<or> (st = (idle, t) \<and> (\<forall>i. handed i tr' = handed i tr))"

lemma handed_internal [simp]: "handed i (replicate n Internal) = []"
  by (induction n) simp_all

lemma handle_performed:
  assumes "running t" and "phase t i = Receiving" and "receiveHandler mem ev (recs t i, sys_node t) = (rc, nd)"
    and "recv_phase rc \<noteq> Waiting"
  shows "\<exists>n. thread_run env pton (idle, t) (Received i mem ev # replicate n Internal) (idle, t\<lparr>recs := (recs t)(i := rc), sys_node := nd\<rparr>)"
proof (cases ev)
  case (Datagram bs)
  then show ?thesis using datagram_runs [of t i idle mem bs rc nd env pton] assms by simp
next
  case ReceiveError
  have "thread_step env pton (Received i mem ev) (idle, t) (idle, set_phase i Deaf t)"
    unfolding ReceiveError using assms(1,2) by (intro fail) simp_all
  from run_one [of "thread_step env pton", OF this]
  have "thread_run env pton (idle, t) (Received i mem ev # replicate 0 Internal) (idle, set_phase i Deaf t)" by simp
  moreover have "set_phase i Deaf t = t\<lparr>recs := (recs t)(i := rc), sys_node := nd\<rparr>"
    using assms(3) by (auto simp: ReceiveError receiveHandler_def set_phase_def)
  ultimately show ?thesis by metis
qed

lemma sys_step_performed:
  assumes step: "sys_step env pton l t t'" and P: "performs t tr st tr'"
  shows "\<exists>st' ks. thread_run env pton st ks st' \<and> performs t' (tr @ [l]) st' (tr' @ ks)"
proof (cases "\<exists>i. phase t' i = Waiting")
  case True
  then have "performs t' (tr @ [l]) st (tr' @ [])" by (simp add: performs_def)
  then show ?thesis by (intro exI conjI) (rule run_start)
next
  case False
  then have "\<forall>i. phase t i \<noteq> Waiting" using waiting_step [OF sys_moveI [OF step]] by blast
  then have st: "st = (idle, t)" "\<And>i. handed i tr' = handed i tr" using P by (auto simp: performs_def)
  have other: ?thesis if "l = Internal"
  proof -
    have "thread_step env pton Internal (idle, t) (idle, t')" using step that by (intro other) simp_all
    from run_one [of "thread_step env pton", OF this] have "thread_run env pton st [Internal] (idle, t')" by (simp add: st)
    moreover have "performs t' (tr @ [l]) (idle, t') (tr' @ [Internal])" by (simp add: performs_def st that)
    ultimately show ?thesis by blast
  qed
  from step show ?thesis
  proof (cases rule: sys_step.cases)
    case (handle i mem ev rc nd)
    have "phase t' i \<noteq> Waiting" using False by blast
    then have "recv_phase rc \<noteq> Waiting" by (simp add: handle(2) phase_def)
    from handle_performed [OF handle(3-5) this, of env pton] obtain n where
      "thread_run env pton st (Received i mem ev # replicate n Internal) (idle, t')"
      unfolding st(1) handle(2) by blast
    moreover have "performs t' (tr @ [l]) (idle, t') (tr' @ Received i mem ev # replicate n Internal)"
      by (simp add: performs_def st handle(1))
    ultimately show ?thesis by blast
  qed (rule other, assumption)+
qed

interpretation statements: simulation "sys_step env pton" "thread_step env pton" performs for env pton
  by unfold_locales (rule sys_step_performed)

lemma threads_perform:
  assumes "sys_run env pton s tr t" and "\<forall>i. phase t i \<noteq> Waiting"
  obtains tr' where "thread_run env pton (idle, s) tr' (idle, t)" "\<And>i. handed i tr' = handed i tr"
proof -
  have "performs s [] (idle, s) []" by (simp add: performs_def)
  from statements.run_simulated [OF assms(1) this] assms(2) that show ?thesis
    by (auto simp: performs_def)
qed

section \<open>What the handlers say of the threads\<close>

lemma thread_takes:
  assumes "running s" and "phase s i = Receiving" and "w i = None"
  shows "\<exists>c s'. thread_step env pton (Received i mem (Datagram bs)) (w, s) (w(i := Some ((mem, bs), c)), s')
    \<and> running s' \<and> phase s' = phase s"
proof -
  let ?s = "s\<lparr>recs := (recs s)(i := (recs s i)\<lparr>recv_buffer := store_datagram bs (recv_buffer (recs s i))\<rparr>)\<rparr>"
  have ph: "phase ?s = phase s" by (auto simp: phase_def)
  then have "running ?s" using assms(1) by (simp add: running_def)
  moreover have "thread_step env pton (Received i mem (Datagram bs)) (w, s)
      (w(i := Some ((mem, bs), receive_code mem (recv_type (recs s i)) (store_datagram bs (recv_buffer (recs s i))))), ?s)"
    using assms by (rule thread_step.arrive) (rule refl)
  ultimately show ?thesis using ph by blast
qed

lemma thread_run_matched:
  assumes "thread_run env pton (idle, s) tr (w, s')" and "\<forall>i. recv_type (recs s i) = i"
  obtains t tr' where "sys_run env pton s tr' t" "matches (w, s') tr t tr'"
  using handlers.run_simulated [OF assms(1) matches_same [OF assms(2)]] by blast

text \<open>A receiver that is not inside its handler has done what its handler does with its events alone.\<close>

lemma thread_alone:
  assumes run: "thread_run env pton (idle, s) tr (w, s')" and types: "\<forall>i. recv_type (recs s i) = i"
    and idle: "w i = None"
  obtains t tr' where "sys_run env pton s tr' t" "handed i tr' = handed i tr" "recs t i = recs s' i"
    "receiver_view i (sys_node t) = receiver_view i (sys_node s')"
    "events_by i (published (sys_node t)) = events_by i (published (sys_node s'))"
proof -
  from thread_run_matched [OF run types] obtain t tr' where
    t: "sys_run env pton s tr' t" and M: "matches (w, s') tr t tr'" .
  have view: "receiver_view i (sys_node t) = receiver_view i (sys_node s')"
    by (rule idle_thread(2) [OF M idle, symmetric])
  have "events_by i (published (sys_node t)) = events_by i (published (sys_node s'))"
    using arg_cong [OF view, of published] by (simp only: view_published)
  with that [OF t] idle_thread(1) [OF M idle] matchesD(3) [OF M, of i] view
  show ?thesis by (simp add: idle)
qed

lemma thread_finishes:
  assumes M: "matches (w, s) tr t tr'" and busy: "w i = Some ((mem, bs), c)" and running: "running s"
    and returns: "receiveImpl mem i (recv_buffer (recs s i)) (sys_node t) \<noteq> None"
  shows "\<exists>n s'. thread_run env pton (w, s) (replicate n Internal) (w(i := None), s')"
proof -
  obtain r nd where "receiveImpl mem i (recv_buffer (recs s i)) (sys_node t) = Some (r, nd)" using returns by auto
  with same_end_sym [OF busy_thread(4) [OF M busy]] obtain nd' where "run c (sys_node s) = Some (r, nd')"
    by (metis same_end_Some)
  with running busy have "\<exists>n. thread_run env pton (w, s) (replicate n Internal) (w(i := None), thread_end i r nd' s)"
    by (intro code_runs)
  then show ?thesis by blast
qed

text \<open>
  C7: the handlers as whole steps are a correct abstraction of the threads, which interleave their
  statements with those of the other receivers and with the executor. For every run of the threads
  there is a run of the handlers in which each receiver is handed the same datagrams in the same
  order, but for the one its thread is still at; the executor and the phases are the same; and each
  receiver that is between two datagrams has the same buffer, the same part of the node and has
  published the same events in the same order. A thread inside its handler is not held up by the
  others: when the handler as one step would end, in the run of the handlers, its statements can be
  run to their end.
\<close>

theorem threads_refine_handlers:
  assumes run: "thread_run env pton (idle, s) tr (w, s')" and types: "\<forall>i. recv_type (recs s i) = i"
  shows "\<exists>t tr'. sys_run env pton s tr' t
    \<and> up t = up s' \<and> main t = main s' \<and> outbox t = outbox s' \<and> crashed t = crashed s'
    \<and> parameters (sys_node t) = parameters (sys_node s') \<and> phase t = phase s'
    \<and> (\<forall>i. handed i tr = handed i tr' @ pending (w i))
    \<and> (\<forall>i. w i = None \<longrightarrow> recv_buffer (recs t i) = recv_buffer (recs s' i)
         \<and> receiver_view i (sys_node t) = receiver_view i (sys_node s')
         \<and> events_by i (published (sys_node t)) = events_by i (published (sys_node s')))
    \<and> (\<forall>i mem bs c. w i = Some ((mem, bs), c) \<and> running s'
         \<and> receiveImpl mem i (recv_buffer (recs s' i)) (sys_node t) \<noteq> None
         \<longrightarrow> (\<exists>n s2. thread_run env pton (w, s') (replicate n Internal) (w(i := None), s2)))"
proof -
  from thread_run_matched [OF run types] obtain t tr' where
    t: "sys_run env pton s tr' t" and M: "matches (w, s') tr t tr'" .
  have "recv_buffer (recs t i) = recv_buffer (recs s' i) \<and> receiver_view i (sys_node t) = receiver_view i (sys_node s')
      \<and> events_by i (published (sys_node t)) = events_by i (published (sys_node s'))" if "w i = None" for i
    using idle_thread [OF M that] by (simp flip: view_published)
  with t matchesD [OF M] matches_phase [OF M] thread_finishes [OF M] show ?thesis
    by (intro exI [of _ t] exI [of _ tr'] conjI) (blast | simp)+
qed

text \<open>
  C8: the receivers do not disturb each other. In every run of the threads, and whenever a receiver
  is between two datagrams, its buffer, its part of the node (messages, assemblers, mutexes, the
  settings it reads) and the events it has published are those its handler leaves when it is given
  the receiver's events alone, one after the other, from the state at the beginning: whatever
  statements of the other receivers have come in between, whatever parameters were set, and whether
  the timer sends or the program is being shut down.
\<close>

theorem receivers_do_not_interfere:
  assumes run: "thread_run env pton (idle, s) tr (w, s')" and types: "\<forall>i. recv_type (recs s i) = i"
    and idle: "w i = None"
    and alone: "handle_all (handed i tr) (recs s i, sys_node s) = (rc, nd)"
  shows "recv_buffer (recs s' i) = recv_buffer rc \<and> receiver_view i (sys_node s') = receiver_view i nd
    \<and> events_by i (published (sys_node s')) = events_by i (published nd)"
proof -
  from thread_alone [OF run types idle] obtain t tr' where
    t: "sys_run env pton s tr' t" "handed i tr' = handed i tr" "recs t i = recs s' i"
      "receiver_view i (sys_node t) = receiver_view i (sys_node s')"
      "events_by i (published (sys_node t)) = events_by i (published (sys_node s'))" .
  have alone': "handle_all (handed i tr') (recs s i, sys_node s) = (rc, nd)" using alone t(2) by simp
  show ?thesis
    using run_alone [OF t(1) types alone'] run_published [OF t(1) types alone'] t(3-5) by simp
qed

end
