(* ===== verification/ThreadStates.thy ===== *)
theory ThreadStates
  imports Threads
begin

text \<open>
  What holds in every state the threads reach: the invariant of the program, the silence of a
  receiver after an error, and when a shutdown can be completed. All is stated of the statements, so
  that a handler may be anywhere inside its code when the state is looked at.
\<close>

section \<open>The invariant\<close>

text \<open>
  As \<open>sys_ok\<close>, but a mutex may be held, and the map of the assemblers be in the making, by the thread
  that is inside its handler.
\<close>

definition threads_ok :: "Parameters \<Rightarrow> 'addr threads \<Rightarrow> bool" where
  "threads_ok P0 st \<longleftrightarrow> (case st of (w, s) \<Rightarrow>
     (\<forall>i. recv_type (recs s i) = i \<and> length (recv_buffer (recs s i)) = RECV_BUFFER
        \<and> (w i \<noteq> None \<longrightarrow> phase s i = Receiving)
        \<and> (w i = None \<and> phase s i \<notin> {Waiting, Terminated} \<longrightarrow> handler_unlocked i (sys_node s)))
     \<and> (w (Some AID0) = None \<longrightarrow> map_sorted (assemblers (sys_node s)))
     \<and> network (parameters (sys_node s)) = network P0 \<and> sonar (parameters (sys_node s)) = sonar P0
     \<and> control_mode (parameters (sys_node s)) = control_mode P0
     \<and> all_commands (parameters (sys_node s)) = all_commands P0
     \<and> (main s = Spinning \<or> \<not> up s) \<and> (\<forall>i. phase s i = Stopped \<longrightarrow> \<not> up s))"

lemma view_unlocked: "receiver_view i nd = receiver_view i nd' \<Longrightarrow> handler_unlocked i nd = handler_unlocked i nd'"
proof -
  have "handler_unlocked i (receiver_view i nd) = handler_unlocked i nd" for nd
    by (auto simp: handler_unlocked_def receiver_view_def Let_def bth0_unlocked_def aid0_unlocked_def
        split: option.split packet_type.split)
  then show "receiver_view i nd = receiver_view i nd' \<Longrightarrow> handler_unlocked i nd = handler_unlocked i nd'" by metis
qed

lemma view_assemblers: "assemblers (receiver_view (Some AID0) nd) = assemblers nd"
  by (simp add: receiver_view_def Let_def)

lemma busy_receives:
  assumes "matches (w, s) tr t tr'" and "w i \<noteq> None"
  shows "phase s i = Receiving"
proof -
  obtain mem bs c where "w i = Some ((mem, bs), c)" using assms(2) by auto
  from busy_thread(1) [OF assms(1) this] show ?thesis using matches_phase [OF assms(1)] by simp
qed

lemma matches_ok:
  assumes M: "matches (w, s) tr t tr'" and ok: "sys_ok P0 t"
  shows "threads_ok P0 (w, s)"
proof -
  have recs: "recv_type (recs s i) = i \<and> length (recv_buffer (recs s i)) = RECV_BUFFER" for i
  proof (cases "w i")
    case None
    then show ?thesis using idle_thread(1) [OF M None] ok by (simp add: sys_ok_def)
  next
    case (Some x)
    then obtain mem bs c where "w i = Some ((mem, bs), c)" by (metis surj_pair)
    from busy_thread(3) [OF M this] show ?thesis using ok by (simp add: sys_ok_def length_store_datagram)
  qed
  have locks: "handler_unlocked i (sys_node s)" if "w i = None" "phase s i \<notin> {Waiting, Terminated}" for i
    using view_unlocked [OF idle_thread(2) [OF M that(1)]] that(2) ok matches_phase [OF M] by (simp add: sys_ok_def)
  have map: "map_sorted (assemblers (sys_node s))" if "w (Some AID0) = None"
    using arg_cong [OF idle_thread(2) [OF M that], of assemblers] ok by (simp add: view_assemblers sys_ok_def)
  show ?thesis
    using recs locks map busy_receives [OF M] ok matchesD(4,5,8) [OF M] matches_phase [OF M]
    by (simp add: threads_ok_def sys_ok_def)
qed

text \<open>
  C10: in every state the running program reaches, whatever it receives and whatever parameters are set
  while it runs, and wherever its threads are inside their handlers, the receive buffers have their
  size, a mutex is held only by a thread inside its handler, the assemblers are a proper map when the
  image handler is not at work, the network settings, the control mode and the command tables' keys
  and device commands are the ones the node started with, and a receiver thread returns for a
  shutdown only after the shutdown.
\<close>

theorem reachable_states_ok:
  assumes start: "new_R2SonicNode decl P = Inr nd" and tables: "tables_sorted (parameters nd)"
    and bufs: "\<forall>i. length (bufs i) = RECV_BUFFER"
    and run: "thread_run env pton (idle, start_system nd bufs) tr (w, s)"
  shows "threads_ok (parameters nd) (w, s)"
proof -
  have types: "\<forall>i. recv_type (recs (start_system nd bufs) i) = i" by simp
  from thread_run_matched [OF run types] obtain t ks where
    t: "sys_run env pton (start_system nd bufs) ks t" and M: "matches (w, s) tr t ks" .
  from matches_ok [OF M reachable_ok [OF start tables bufs run_moves [OF t]]] show ?thesis .
qed

section \<open>Steps elsewhere\<close>

definition codes_ok :: "(receiver_id \<Rightarrow> handling option) \<Rightarrow> bool" where
  "codes_ok w \<longleftrightarrow> (\<forall>i a c. w i = Some (a, c) \<longrightarrow> code_by i c)"

lemma codes_okD: "codes_ok w \<Longrightarrow> w i = Some (a, c) \<Longrightarrow> code_by i c"
  unfolding codes_ok_def by blast

lemma codes_ok_idle [simp]: "codes_ok idle"
  by (simp add: codes_ok_def)

lemma matches_codes:
  assumes "matches (w, s) tr t tr'"
  shows "codes_ok w"
  unfolding codes_ok_def
proof (intro allI impI)
  fix i a c assume w: "w i = Some (a, c)"
  obtain mem bs where "a = (mem, bs)" by (cases a)
  with w show "code_by i c" using busy_thread(2) [OF assms] by blast
qed

lemma reached_codes: "thread_run env pton (idle, s0) tr (w, s) \<Longrightarrow> \<forall>i. recv_type (recs s0 i) = i \<Longrightarrow> codes_ok w"
  by (metis matches_codes thread_run_matched)

lemma internal_view:
  assumes "sys_step env pton Internal s s'"
  shows "receiver_view i (sys_node s') = receiver_view i (sys_node s)"
  using assms
proof (cases rule: sys_step.cases)
  case (update what ps P)
  then show ?thesis by (simp add: update_unseen)
qed simp_all

lemma internal_phase:
  assumes "sys_step env pton Internal s s'"
  shows "phase s i \<notin> {Waiting, Terminated} \<Longrightarrow> phase s' i \<notin> {Waiting, Terminated}"
    and "phase s i = Deaf \<Longrightarrow> phase s' i = Deaf"
proof -
  show "phase s' i \<notin> {Waiting, Terminated}" if "phase s i \<notin> {Waiting, Terminated}"
    using assms
  proof (cases rule: sys_step.cases)
    case (bind j n bound)
    then show ?thesis using receive_turn_cases(1) [OF bind(3) refl, of "up s" bound] that by auto
  qed (use that in \<open>auto simp: phase_def\<close>)
  show "phase s' i = Deaf" if "phase s i = Deaf"
    using assms by (cases rule: sys_step.cases) (use that in \<open>auto simp: phase_def\<close>)
qed

text \<open>A receiver that is neither at a datagram nor handed an event.\<close>

lemma quiet_receiver:
  assumes step: "thread_step env pton l (w, s) (w', s')" and ok: "codes_ok w"
    and i: "w i = None" "phase s i = Deaf"
  shows "w' i = None \<and> phase s' i = Deaf \<and> receiver_view i (sys_node s') = receiver_view i (sys_node s)"
  using step
proof (cases rule: thread_stepE [consumes 1, case_names arrive fail statement returns throws other])
  case (arrive j bs mem)
  then have "j \<noteq> i" using i(2) by auto
  then show ?thesis using arrive(2) i by (auto simp: phase_def)
next
  case (fail j mem)
  then show ?thesis using i by auto
next
  case (statement j a f c nd)
  then have j: "j \<noteq> i" using i(1) by auto
  have "receiver_view i nd = receiver_view i (sys_node s)"
    using act_byD(2) [OF in_DoE(1) [OF codes_okD [OF ok statement(4)]] statement(5), of i] j by auto
  then show ?thesis using statement(2) i j by (auto simp: phase_def)
next
  case (returns j a)
  then show ?thesis using i by auto
next
  case (throws j a f e nd)
  then have j: "j \<noteq> i" using i(1) by auto
  have "receiver_view i nd = receiver_view i (sys_node s)"
    using act_byD(2) [OF in_DoE(1) [OF codes_okD [OF ok throws(4)]] throws(5), of i] j by auto
  then show ?thesis using throws(2) i j by (auto simp: phase_def set_phase_def)
next
  case (other s'')
  then show ?thesis using internal_view [OF other(3)] internal_phase(2) [OF other(3) i(2)] i(1) by auto
qed

lemma quiet_handed:
  assumes "thread_step env pton l (w, s) st'" and "phase s i = Deaf"
  shows "handed i [l] = []"
  using assms(1)
  by (cases rule: thread_stepE) (use assms(2) in auto)


section \<open>The shutdown\<close>

text \<open>A thread inside its handler comes back to \<open>wait\<close> if its statements, run alone, return.\<close>

definition comes_back :: "handling option \<Rightarrow> node \<Rightarrow> bool" where
  "comes_back h nd \<longleftrightarrow> (case h of None \<Rightarrow> True | Some (a, c) \<Rightarrow> (\<exists>u nd'. run c nd = Some (Inr u, nd')))"

lemma comes_back_cong:
  assumes "codes_ok w" and "receiver_view i nd = receiver_view i nd'"
  shows "comes_back (w i) nd = comes_back (w i) nd'"
proof (cases "w i")
  case (Some x)
  obtain a c where x: "x = (a, c)" by (cases x)
  have "same_end i (run c nd) (run c nd')"
    by (rule same_end_act [OF run_in [OF codes_okD [OF assms(1)]] assms(2)]) (simp add: Some x)
  then have "(\<exists>u q. run c nd = Some (Inr u, q)) \<longleftrightarrow> (\<exists>u q. run c nd' = Some (Inr u, q))"
    using same_end_Some same_end_sym by metis
  then show ?thesis by (simp add: comes_back_def Some x)
qed (simp add: comes_back_def)

text \<open>Each such thread can be run to its end, one after the other.\<close>

lemma others_finish:
  assumes "codes_ok w" and "running s" and "comes_back (w i) (sys_node s)"
  obtains n nd where "thread_run env pton (w, s) (replicate n Internal) (w(i := None), s\<lparr>sys_node := nd\<rparr>)"
    "\<And>j. j \<noteq> i \<Longrightarrow> receiver_view j nd = receiver_view j (sys_node s)"
proof (cases "w i")
  case None
  then have "w(i := None) = w" by auto
  moreover have "s\<lparr>sys_node := sys_node s\<rparr> = s" by simp
  ultimately show ?thesis using that [of 0 "sys_node s"] run_start [of "thread_step env pton" "(w, s)"] by simp
next
  case (Some x)
  obtain a c where x: "x = (a, c)" by (cases x)
  then obtain u nd where c: "run c (sys_node s) = Some (Inr u, nd)" using assms(3) by (auto simp: comes_back_def Some)
  have "\<exists>n. thread_run env pton (w, s) (replicate n Internal) (w(i := None), thread_end i (Inr u) nd s)"
    using assms(2) Some [unfolded x] c by (rule code_runs)
  moreover have "receiver_view j nd = receiver_view j (sys_node s)" if "j \<noteq> i" for j
    using act_byD(2) [OF run_in [OF codes_okD [OF assms(1) Some [unfolded x]]] c that] .
  ultimately show ?thesis using that by (auto simp: thread_end_def)
qed

lemma codes_ok_drop: "codes_ok w \<Longrightarrow> codes_ok (w(i := None))"
  by (simp add: codes_ok_def)

lemma all_finish:
  assumes "codes_ok w" and "running s" and "\<forall>i. comes_back (w i) (sys_node s)" and "\<forall>i. i \<notin> set is \<longrightarrow> w i = None"
  shows "\<exists>n nd. thread_run env pton (w, s) (replicate n Internal) (idle, s\<lparr>sys_node := nd\<rparr>)"
  using assms
proof (induction "is" arbitrary: w s)
  case Nil
  then have "w = idle" by auto
  moreover have "s\<lparr>sys_node := sys_node s\<rparr> = s" by simp
  ultimately show ?case using run_start [of "thread_step env pton" "(w, s)"] by (metis replicate_0)
next
  case (Cons i "is")
  have "comes_back (w i) (sys_node s)" using Cons.prems(3) by blast
  from others_finish [OF Cons.prems(1,2) this] obtain n nd where
    1: "thread_run env pton (w, s) (replicate n Internal) (w(i := None), s\<lparr>sys_node := nd\<rparr>)"
      "\<And>j. j \<noteq> i \<Longrightarrow> receiver_view j nd = receiver_view j (sys_node s)" by blast
  have "comes_back ((w(i := None)) j) nd" for j
    using comes_back_cong [OF Cons.prems(1) 1(2) [of j]] Cons.prems(3)
    by (cases "j = i") (simp_all add: comes_back_def)
  then have "\<exists>m nd'. thread_run env pton (w(i := None), s\<lparr>sys_node := nd\<rparr>) (replicate m Internal)
      (idle, s\<lparr>sys_node := nd, sys_node := nd'\<rparr>)"
    using Cons.prems(2,4) by (intro Cons.IH codes_ok_drop [OF Cons.prems(1)]) auto
  then obtain m nd' where "thread_run env pton (w(i := None), s\<lparr>sys_node := nd\<rparr>) (replicate m Internal)
      (idle, s\<lparr>sys_node := nd, sys_node := nd'\<rparr>)" by blast
  from run_append [OF this 1(1)] show ?case by (auto simp flip: replicate_add)
qed

text \<open>Nor does the program end in between while a thread cannot come back.\<close>

lemma held_step:
  assumes step: "thread_step env pton l (w, s) (w', s')" and ok: "codes_ok w"
    and held: "\<not> comes_back (w i) (sys_node s)" "phase s i = Receiving" "main s \<noteq> Exited"
  shows "main s' \<noteq> Exited \<and> (running s' \<longrightarrow> \<not> comes_back (w' i) (sys_node s') \<and> phase s' i = Receiving)"
  using step
proof (cases rule: thread_stepE [consumes 1, case_names arrive fail statement returns throws other])
  case (arrive j bs mem)
  then have "j \<noteq> i" using held(1) by (auto simp: comes_back_def)
  then show ?thesis using arrive(2) held by (simp add: phase_def)
next
  case (fail j mem)
  then have "j \<noteq> i" using held(1) by (auto simp: comes_back_def)
  then show ?thesis using fail(2) held by simp
next
  case (statement j a f c nd)
  show ?thesis
  proof (cases "j = i")
    case True
    then have "\<not> comes_back (w' i) nd"
      using held(1) statement(2,4,5) by (auto simp: comes_back_def run_Do simp del: run.simps)
    then show ?thesis using statement(2) held(2,3) by (simp add: phase_def)
  next
    case False
    have "receiver_view i nd = receiver_view i (sys_node s)"
      using act_byD(2) [OF in_DoE(1) [OF codes_okD [OF ok statement(4)]] statement(5), of i] False by auto
    from comes_back_cong [OF ok this] show ?thesis using statement(2) held False by (simp add: phase_def)
  qed
next
  case (returns j a)
  then have "j \<noteq> i" using held(1) by (auto simp: comes_back_def act_return_def)
  then show ?thesis using returns(2) held by simp
next
  case (throws j a f e nd)
  then have "phase s' j = Terminated" by simp
  then have "\<not> running s'" by (auto simp: running_def)
  then show ?thesis using throws(2) held(3) by simp
next
  case (other s'')
  have busy: "w i \<noteq> None" using held(1) by (cases "w i") (simp_all add: comes_back_def)
  then have ph: "phase s'' i = Receiving" using other(4) held(2) by simp
  have "main s'' \<noteq> Exited"
    using other(3)
  proof (cases rule: sys_step.cases)
    case join
    then show ?thesis using held(2) by (metis insert_iff empty_iff recv_phase.distinct)
  qed (use held(3) in auto)
  with ph comes_back_cong [OF ok internal_view [OF other(3), symmetric]] held(1) other(2) show ?thesis by auto
qed

lemma thread_step_runs: "thread_step env pton l (w, s) st' \<Longrightarrow> running s"
  by (erule thread_stepE) (auto elim: sys_step.cases)

lemma held_run:
  assumes run: "thread_run env pton (w, s) tr' st'" and reach: "thread_run env pton (idle, s0) tr (w, s)"
    and types: "\<forall>i. recv_type (recs s0 i) = i"
    and held: "\<not> comes_back (w i) (sys_node s)" "phase s i = Receiving" "running s"
  shows "main (snd st') \<noteq> Exited
    \<and> (running (snd st') \<longrightarrow> \<not> comes_back (fst st' i) (sys_node (snd st')) \<and> phase (snd st') i = Receiving)"
  using run
proof (induction rule: lts_run.induct)
  case run_start
  show ?case using held by (simp add: running_def)
next
  case (run_step tr' u l u')
  have "thread_run env pton (idle, s0) (tr @ tr') (fst u, snd u)"
    using run_append [OF run_step.hyps(1) reach] by simp
  note ok = reached_codes [OF this types]
  have step: "thread_step env pton l (fst u, snd u) (fst u', snd u')" using run_step.hyps(2) by simp
  from thread_step_runs [OF step] run_step.IH held_step [OF step ok, of i] show ?case by blast
qed

text \<open>Threads never have the phase \<open>Waiting\<close>, in which a handler that is one step does not return.\<close>

lemma thread_never_waits:
  assumes "thread_step env pton l (w, s) (w', s')" and "\<forall>i. phase s i \<noteq> Waiting"
  shows "\<forall>i. phase s' i \<noteq> Waiting"
  using assms(1)
proof (cases rule: thread_stepE [consumes 1, case_names arrive fail statement returns throws other])
  case (arrive j bs mem)
  then show ?thesis using assms(2) by (simp add: phase_def)
next
  case (statement j a f c nd)
  then show ?thesis using assms(2) by (simp add: phase_def)
next
  case (other s'')
  have "running s" by (rule thread_step_runs [OF assms(1)])
  then have "phase s i \<notin> {Waiting, Terminated}" for i using assms(2) by (auto simp: running_def)
  from internal_phase(1) [OF other(3) this] other(2) show ?thesis by auto
qed (use assms(2) in \<open>auto simp: phase_def\<close>)

lemma reached_never_waits:
  assumes "thread_run env pton st tr st'" and "\<forall>i. phase (snd st) i \<noteq> Waiting"
  shows "\<forall>i. phase (snd st') i \<noteq> Waiting"
  using assms
proof (induction rule: lts_run.induct)
  case (run_step tr u l u')
  then show ?case using thread_never_waits [of env pton l "fst u" "snd u" "fst u'" "snd u'"] by simp
qed simp

lemma exited_no_waiting:
  assumes "(sys_move env pton)\<^sup>*\<^sup>* s s'" and "main s \<noteq> Exited" and "main s' = Exited"
  shows "\<forall>i. phase s' i \<noteq> Waiting"
proof
  fix i show "phase s' i \<noteq> Waiting"
  proof
    assume W: "phase s' i = Waiting"
    have "main s' \<noteq> Exited \<or> (\<forall>i. phase s' i \<in> {Stopped, Deaf})"
      using assms(1)
    proof (induction rule: rtranclp_induct)
      case base
      show ?case using assms(2) by simp
    next
      case (step t t')
      from step(2) show ?case
      proof (cases rule: sys_move_cases)
        case join
        then show ?thesis by (simp add: phase_def)
      qed (auto simp: running_def)
    qed
    with W assms(3) show False by (metis insert_iff empty_iff recv_phase.distinct)
  qed
qed

lemma shutdown_threads:
  assumes ok: "codes_ok w" and run: "running s" and returns: "\<forall>i. comes_back (w i) (sys_node s)"
    and quiet: "\<forall>i. phase s i \<noteq> Waiting"
  shows "\<exists>tr' w' s'. thread_run env pton (w, s) tr' (w', s') \<and> main s' = Exited"
proof -
  have "\<forall>i. i \<notin> set [None, Some BTH0, Some AID0] \<longrightarrow> w i = None" using receiver_ids by auto
  from all_finish [OF ok run returns this] obtain n nd where
    1: "thread_run env pton (w, s) (replicate n Internal) (idle, s\<lparr>sys_node := nd\<rparr>)" by blast
  let ?s = "s\<lparr>sys_node := nd\<rparr>"
  have "running ?s" "\<forall>i. phase ?s i \<noteq> Waiting" using run quiet by (simp_all add: phase_def)
  from shutdown_run [OF this] obtain s' where
    s': "(sys_move env pton)\<^sup>*\<^sup>* ?s s'" "main s' = Exited" by blast
  have "main ?s \<noteq> Exited" using run by (simp add: running_def)
  from exited_no_waiting [OF s'(1) this s'(2)] have calm: "\<forall>i. phase s' i \<noteq> Waiting" .
  obtain ks where "sys_run env pton ?s ks s'" using moves_run [OF s'(1)] by blast
  from threads_perform [OF this calm] obtain tr' where "thread_run env pton (idle, ?s) tr' (idle, s')" by blast
  from run_append [OF this 1] s'(2) show ?thesis by blast
qed

text \<open>
  C17: from any state the running threads reach, a shutdown can bring \<open>main\<close> to its end, with the three
  receiver threads joined, exactly when every thread that is inside its handler comes back: when
  the statements it has left, run alone, return. Only an image handler, which may loop or wait for
  a mutex, can stay inside for ever; a ping or a command ends, at worst with an exception that ends
  the process. A receiver still in its bind loop leaves it, one that listens is stopped, one that
  has gone deaf has returned.
\<close>

theorem shutdown_joins_receivers:
  assumes start: "new_R2SonicNode decl P = Inr nd" and tables: "tables_sorted (parameters nd)"
    and bufs: "\<forall>i. length (bufs i) = RECV_BUFFER"
    and reach: "thread_run env pton (idle, start_system nd bufs) tr (w, s)" and running: "running s"
  shows "((\<exists>tr' w' s'. thread_run env pton (w, s) tr' (w', s') \<and> main s' = Exited)
        \<longleftrightarrow> (\<forall>i. comes_back (w i) (sys_node s)))
    \<and> (\<forall>i a c. w i = Some (a, c) \<and> i \<noteq> Some AID0 \<longrightarrow> run c (sys_node s) \<noteq> None)"
proof -
  have types: "\<forall>i. recv_type (recs (start_system nd bufs) i) = i" by simp
  from thread_run_matched [OF reach types] obtain t ks where
    t: "sys_run env pton (start_system nd bufs) ks t" and M: "matches (w, s) tr t ks" .
  have quiet: "\<forall>i. phase s i \<noteq> Waiting" using reached_never_waits [OF reach] by simp
  have "\<forall>i. comes_back (w i) (sys_node s)" if ends: "thread_run env pton (w, s) tr' (w', s')" "main s' = Exited" for tr' w' s'
  proof (rule ccontr)
    assume "\<not> (\<forall>i. comes_back (w i) (sys_node s))"
    then obtain i where i: "\<not> comes_back (w i) (sys_node s)" by blast
    then have "w i \<noteq> None" by (cases "w i") (simp_all add: comes_back_def)
    from held_run [OF ends(1) reach types i busy_receives [OF M this] running] ends(2) show False by simp
  qed
  moreover have "run c (sys_node s) \<noteq> None" if busy: "w i = Some (a, c)" "i \<noteq> Some AID0" for i a c
  proof -
    obtain mem bs where a: "a = (mem, bs)" by (cases a)
    note B = busy_thread [OF M busy(1) [unfolded a]]
    have "handler_unlocked i (sys_node t)"
      using reachable_ok [OF start tables bufs run_moves [OF t]] B(1) by (simp add: sys_ok_def)
    then have "receiveImpl mem i (recv_buffer (recs s i)) (sys_node t) \<noteq> None" by (rule receiveImpl_returns [OF busy(2)])
    with B(4) show ?thesis by (cases "run c (sys_node s)") (auto simp: same_end_def)
  qed
  ultimately show ?thesis
    using shutdown_threads [OF matches_codes [OF M] running _ quiet] by blast
qed

section \<open>From the start\<close>

theorem reachable_states_ok_witness:
  "\<exists>nd tr s. new_R2SonicNode (\<lambda>_ v. Inr v) sample_params = Inr nd
    \<and> thread_run sample_env dotted_quad (idle, start_system nd (\<lambda>_. replicate RECV_BUFFER 0)) tr (idle, s)
    \<and> phase s (Some BTH0) = Deaf \<and> threads_ok (parameters nd) (idle, s)"
proof -
  obtain nd where nd: "new_R2SonicNode (\<lambda>_ v. Inr v) sample_params = Inr nd" "tables_sorted (parameters nd)"
    using sample_start by blast
  let ?s = "start_system nd (\<lambda>_. replicate RECV_BUFFER 0) :: string system"
  let ?t = "set_phase (Some BTH0) Deaf ?s"
  have bufs: "\<forall>i::receiver_id. length (replicate RECV_BUFFER (0::u8)) = RECV_BUFFER" by simp
  have "(sys_move sample_env dotted_quad)\<^sup>*\<^sup>* ?s ?t" by (rule error_run) simp_all
  then obtain ks where "sys_run sample_env dotted_quad ?s ks ?t" using moves_run by blast
  moreover have "\<forall>i. phase ?t i \<noteq> Waiting" by simp
  ultimately obtain tr where run: "thread_run sample_env dotted_quad (idle, ?s) tr (idle, ?t)"
    using threads_perform by blast
  from reachable_states_ok [OF nd bufs run] run nd(1) show ?thesis
    by (intro exI [of _ nd] exI [of _ tr] exI [of _ ?t] conjI) simp_all
qed

theorem shutdown_joins_receivers_witness:
  "\<exists>nd tr w (s' :: string system). new_R2SonicNode (\<lambda>_ v. Inr v) sample_params = Inr nd
     \<and> thread_run sample_env dotted_quad (idle, start_system nd (\<lambda>_. replicate RECV_BUFFER 0)) tr (w, s') \<and> main s' = Exited"
proof -
  obtain nd where nd: "new_R2SonicNode (\<lambda>_ v. Inr v) sample_params = Inr nd" "tables_sorted (parameters nd)"
    using sample_start by blast
  let ?s = "start_system nd (\<lambda>_. replicate RECV_BUFFER 0) :: string system"
  have run: "running ?s" and bufs: "\<forall>i::receiver_id. length (replicate RECV_BUFFER (0::u8)) = RECV_BUFFER" by simp_all
  have "\<exists>tr' w' s'. thread_run sample_env dotted_quad (idle, ?s) tr' (w', s') \<and> main s' = Exited"
    using shutdown_joins_receivers [OF nd bufs run_start run] by (simp add: comes_back_def)
  with nd(1) show ?thesis by blast
qed


end
