(* ===== verification/ImagePing.thy ===== *)
theory ImagePing
  imports NodePublish
begin

text \<open>
  An acoustic image from its first packet to its publication: the handler is run on the header
  packet of a ping and then on its sections, and publishes the image that was sent. Then
  comes what happens when the section with the last bin is not the last one to arrive, and to a
  header packet whose sections stand in another order.
\<close>

section \<open>One packet\<close>

fun image_of :: "ros_event \<Rightarrow> RawSonarImage list" where
  "image_of (PubImage i) = [i]"
| "image_of _ = []"

definition images_of :: "ros_event list \<Rightarrow> RawSonarImage list" where
  "images_of es = concat (map image_of es)"

lemma images_of_simps [simp]:
  "images_of [] = []" "images_of (e # es) = image_of e @ images_of es"
  "images_of (es @ es') = images_of es @ images_of es'"
  by (simp_all add: images_of_def)

text \<open>The raw copy of the packet, when it is published, stays inside the buffer.\<close>

definition raw_fits :: "node \<Rightarrow> buffer \<times> packet \<Rightarrow> bool" where
  "raw_fits nd p \<longleftrightarrow> pub_aid0 nd \<longrightarrow> length (fst p) = 262144 \<and> pkt_start (snd p) = 0"

lemma raw_fits_copied:
  assumes "raw_fits nd (buf, pkt)" and "pub_aid0 nd"
  obtains m' where "packet2RawPacket buf pkt m = Inr m'"
  using assms raw_packet_built [of buf pkt m] by (simp add: raw_fits_def)

text \<open>What a node keeps while images arrive: its settings, and the mutexes free.\<close>

definition same_setup :: "node \<Rightarrow> node \<Rightarrow> bool" where
  "same_setup nd nd' \<longleftrightarrow> parameters nd' = parameters nd \<and> pub_image nd' = pub_image nd
     \<and> pub_aid0 nd' = pub_aid0 nd \<and> aid0_unlocked nd'"

lemma raw_published:
  assumes "raw_fits nd (buf, pkt)"
  shows "\<exists>nd'. publish_raw_aid0 buf pkt nd = Some (Inr (), nd')
    \<and> images_of (published nd') = images_of (published nd)
    \<and> nd' = nd\<lparr>msg_aid0 := msg_aid0 nd', published := published nd'\<rparr>"
proof (cases "pub_aid0 nd")
  case True
  with assms obtain m' where "packet2RawPacket buf pkt (msg_aid0 nd) = Inr m'"
    by (rule raw_fits_copied)
  then show ?thesis
    using True by (simp add: publish_raw_aid0_def act_simps shouldPublish_def)
next
  case False
  then show ?thesis by (simp add: publish_raw_aid0_def act_simps shouldPublish_def)
qed

text \<open>The handler on a packet whose \<open>addPacket\<close> returns.\<close>

lemma image_handled:
  assumes isT: "packet_isType buf pkt = Inr True" and no: "AID0_getPingNo buf pkt = Inr ping"
    and add: "addPacket buf pkt (assembler_at mem ping (assemblers nd)) = Some (Inr (cpl, a'))"
    and raw: "raw_fits nd (buf, pkt)" and pub: "pub_image nd" and free: "aid0_unlocked nd"
    and sorted: "map_sorted (assemblers nd)"
  shows "\<exists>nd'. publish_aid0 mem buf pkt nd = Some (Inr (), nd') \<and> same_setup nd nd'
    \<and> images_of (published nd') = images_of (published nd)
        @ (if cpl then [set_image_frame (act_frame nd) (sonar_image a')] else [])
    \<and> map_sorted (assemblers nd')
    \<and> map_find ping (assemblers nd') = (if cpl then None else Some a')"
proof -
  let ?nd = "nd\<lparr>mtx_aid0 := True, mtx_image := True\<rparr>"
  have "raw_fits ?nd (buf, pkt)" using raw by (simp add: raw_fits_def)
  from raw_published [OF this] obtain nd1 where
    nd1: "publish_raw_aid0 buf pkt ?nd = Some (Inr (), nd1)" "images_of (published nd1) = images_of (published nd)"
      "nd1 = ?nd\<lparr>msg_aid0 := msg_aid0 nd1, published := published nd1\<rparr>"
    by auto
  have same: "pub_image nd1 = pub_image nd" "pub_aid0 nd1 = pub_aid0 nd" "parameters nd1 = parameters nd"
    "assemblers nd1 = assemblers nd"
    by (subst nd1(3), simp)+
  have keep: "map_sorted (map_put ping x (assemblers nd))" "map_sorted (map_put ping y (map_put ping x (assemblers nd)))" for x y
    using sorted by (simp_all add: map_sorted_put)
  show ?thesis
    using free pub nd1(1,2) map_sorted_erase [OF keep(2)] keep
    by (auto simp: publish_aid0_def act_simps isT aid0_unlocked_def no publish_image_def shouldPublish_def same
        act_addPacket_def add same_setup_def act_frame_def map_find_put map_find_erase
        cleanMsgMap_erase_if std.erase_if_invar std.erase_if_find)
qed

section \<open>A ping\<close>

text \<open>The handler on a sequence of packets, one after the other, each with the memory it finds.\<close>

fun publish_all :: "(bool \<times> H0_Body) list \<Rightarrow> (buffer \<times> packet) list \<Rightarrow> unit act" where
  "publish_all (mem # ms) ((buf, pkt) # ps) = act_bind (publish_aid0 mem buf pkt) (\<lambda>_. publish_all ms ps)"
| "publish_all _ _ = act_return ()"

lemma publish_all_append:
  "length ms = length ps \<Longrightarrow>
   publish_all (ms @ ms') (ps @ ps') = act_bind (publish_all ms ps) (\<lambda>_. publish_all ms' ps')"
proof (induction ms ps rule: list_induct2)
  case (Cons mem ms p ps)
  obtain buf pkt where p: "p = (buf, pkt)" by (cases p)
  show ?case
    by (rule ext) (simp add: p Cons act_bind_def split: option.split sum.split prod.split)
qed (rule ext, simp add: act_bind_def act_return_def)

text \<open>What the header of a ping leaves in the image, besides the samples.\<close>

type_synonym image_frame = "u32 list \<times> u32 list \<times> u32 list \<times> u32 \<times> image_dtype \<times> u32 \<times> u32 \<times> PingInfo"

definition image_frame_of :: "RawSonarImage \<Rightarrow> image_frame" where
  "image_frame_of img = (img_rx_angles img, img_tx_angles img, img_tx_delays img, beam_count img, image_dtype img,
     stamp_sec (img_header img), stamp_nanosec (img_header img), img_ping_info img)"

lemma section_keeps_frame:
  assumes add: "addPacket buf pkt a = Some (Inr (f, a'))" and V: "aid0_view buf pkt secs pos"
    and no_h: "H0 \<notin> fst ` set secs" and m0: "M0 \<in> fst ` set secs"
  shows "image_frame_of (sonar_image a') = image_frame_of (sonar_image a)"
  using add unfolding addPacket_section_eq [OF V no_h m0]
  by (auto simp: add_section_def finish_section_def size_image_def image_frame_of_def Let_def res_simps
      split: sum.splits if_splits)

definition reaches_last :: "M0_Body \<Rightarrow> bool" where
  "reaches_last b \<longleftrightarrow> get (M0_TotalBins b) \<le> get (M0_FirstBin b) + ucast (get (M0_Bins b))"

text \<open>A carried section in an assembler of its ping.\<close>

lemma carried_section:
  assumes c: "carries I ping nb nc (buf, pkt) b" and h: "get (H0_PingNumber (h0_data a)) = ping"
  shows "\<exists>a'. addPacket buf pkt a = Some (Inr (reaches_last b, a')) \<and> h0_data a' = h0_data a
    \<and> image_frame_of (sonar_image a') = image_frame_of (sonar_image a)
    \<and> (\<forall>k < unat nb. \<forall>j < unat nc.
         pixel (unat nc) (image_data (sonar_image a')) k j = (if in_tile b k j then I k j else prior_image b a k j))
    \<and> length (image_data (sonar_image a')) = unat nb * unat nc"
proof -
  obtain secs pos d where V: "aid0_view buf pkt secs pos" and no_h: "H0 \<notin> fst ` set secs"
    and d: "(M0, d) \<in> set secs" and b: "b = M0_Body_of (take 32 d)" and fits: "section_fits b d"
    and geo: "get (M0_PingNumber b) = ping" "get (M0_TotalBins b) = nb" "get (M0_TotalBeams b) = nc"
    and I: "\<forall>k j. in_tile b k j \<longrightarrow> tile_value b d k j = I k j"
    using c by (auto simp: carries_def)
  have "M0 \<in> fst ` set secs" using d by force
  with section_added [OF V no_h d b fits, of a] h geo(1) section_keeps_frame [OF _ V no_h] show ?thesis
    using I by (fastforce simp: shows_image_def overlay_def geo reaches_last_def)
qed

lemma carried_packet:
  assumes c: "carries I ping nb nc (buf, pkt) b"
  shows "packet_isType buf pkt = Inr True" "AID0_getPingNo buf pkt = Inr ping"
proof -
  obtain secs pos d where V: "aid0_view buf pkt secs pos" and no_h: "H0 \<notin> fst ` set secs"
    and d: "(M0, d) \<in> set secs" and b: "b = M0_Body_of (take 32 d)" and fits: "section_fits b d"
    and geo: "get (M0_PingNumber b) = ping"
    using c by (auto simp: carries_def)
  show "packet_isType buf pkt = Inr True" by (rule typed_view [OF V])
  have "32 \<le> length d" using fits by (simp add: section_fits_def)
  with ping_no_of_section [OF V no_h d] geo show "AID0_getPingNo buf pkt = Inr ping" by (simp add: b)
qed

lemma prior_is:
  assumes "carries I ping nb nc p b" and "sample_is I nb nc a k j"
  shows "prior_image b a k j = I k j"
  using assms by (auto simp: carries_def prior_image_def sample_is_def)

lemma section_handled:
  assumes c: "carries I ping nb nc (buf, pkt) b" and raw: "raw_fits nd (buf, pkt)"
    and at: "map_find ping (assemblers nd) = Some a" "get (H0_PingNumber (h0_data a)) = ping"
    and nd: "pub_image nd" "aid0_unlocked nd" "map_sorted (assemblers nd)"
  shows "\<exists>nd' a'. publish_aid0 mem buf pkt nd = Some (Inr (), nd') \<and> same_setup nd nd'
    \<and> map_sorted (assemblers nd') \<and> map_find ping (assemblers nd') = (if reaches_last b then None else Some a')
    \<and> images_of (published nd') = images_of (published nd)
        @ (if reaches_last b then [set_image_frame (act_frame nd) (sonar_image a')] else [])
    \<and> h0_data a' = h0_data a \<and> image_frame_of (sonar_image a') = image_frame_of (sonar_image a)
    \<and> length (image_data (sonar_image a')) = unat nb * unat nc
    \<and> (\<forall>k < unat nb. \<forall>j < unat nc.
         pixel (unat nc) (image_data (sonar_image a')) k j = (if in_tile b k j then I k j else prior_image b a k j))"
proof -
  have a: "assembler_at mem ping (assemblers nd) = a" using at(1) by (simp add: assembler_at_def)
  from carried_section [OF c at(2)] obtain a' where
    a': "addPacket buf pkt a = Some (Inr (reaches_last b, a'))" "h0_data a' = h0_data a"
      "image_frame_of (sonar_image a') = image_frame_of (sonar_image a)"
      "length (image_data (sonar_image a')) = unat nb * unat nc"
      "\<forall>k < unat nb. \<forall>j < unat nc.
         pixel (unat nc) (image_data (sonar_image a')) k j = (if in_tile b k j then I k j else prior_image b a k j)"
    by blast
  from image_handled [OF carried_packet [OF c] a'(1) [folded a] raw nd] a'(2-5) show ?thesis by blast
qed

lemma same_setup_trans: "same_setup nd1 nd2 \<Longrightarrow> same_setup nd2 nd3 \<Longrightarrow> same_setup nd1 nd3"
  by (simp add: same_setup_def)

lemma same_setup_keeps:
  "same_setup nd nd' \<Longrightarrow> raw_fits nd' p = raw_fits nd p" "same_setup nd nd' \<Longrightarrow> act_frame nd' = act_frame nd"
  "same_setup nd nd' \<Longrightarrow> pub_image nd' = pub_image nd" "same_setup nd nd' \<Longrightarrow> aid0_unlocked nd'"
  by (simp_all add: same_setup_def raw_fits_def act_frame_def)

lemma sections_published:
  assumes "list_all2 (carries I ping nb nc) ps bs" and "ps \<noteq> []" and "length ms = length ps"
    and "\<forall>b \<in> set (butlast bs). \<not> reaches_last b" and "reaches_last (last bs)"
    and "\<forall>p \<in> set ps. raw_fits nd p"
    and "map_find ping (assemblers nd) = Some a" and "get (H0_PingNumber (h0_data a)) = ping"
    and "pub_image nd" and "aid0_unlocked nd" and "map_sorted (assemblers nd)"
  shows "\<exists>nd' a'. publish_all ms ps nd = Some (Inr (), nd') \<and> same_setup nd nd'
    \<and> map_find ping (assemblers nd') = None \<and> map_sorted (assemblers nd')
    \<and> images_of (published nd') = images_of (published nd) @ [set_image_frame (act_frame nd) (sonar_image a')]
    \<and> image_frame_of (sonar_image a') = image_frame_of (sonar_image a)
    \<and> (\<forall>k < unat nb. \<forall>j < unat nc. sample_is I nb nc a k j \<or> (\<exists>b \<in> set bs. in_tile b k j)
         \<longrightarrow> sample_is I nb nc a' k j)"
  using assms
proof (induction arbitrary: nd a ms rule: list_all2_induct)
  case Nil
  then show ?case by simp
next
  case (Cons p ps b bs)
  obtain buf pkt where p: "p = (buf, pkt)" by (cases p)
  obtain mem ms' where ms: "ms = mem # ms'" "length ms' = length ps" using Cons.prems(2) by (cases ms) auto
  have c: "carries I ping nb nc (buf, pkt) b" using Cons.hyps(1) p by simp
  have raw: "raw_fits nd (buf, pkt)" using Cons.prems(5) p by simp
  from section_handled [OF c raw Cons.prems(6-10), of mem] obtain nd1 a1 where
    nd1: "publish_aid0 mem buf pkt nd = Some (Inr (), nd1)" "same_setup nd nd1" "map_sorted (assemblers nd1)"
      "map_find ping (assemblers nd1) = (if reaches_last b then None else Some a1)"
      "images_of (published nd1) = images_of (published nd)
        @ (if reaches_last b then [set_image_frame (act_frame nd) (sonar_image a1)] else [])"
    and a1: "h0_data a1 = h0_data a" "image_frame_of (sonar_image a1) = image_frame_of (sonar_image a)"
      "length (image_data (sonar_image a1)) = unat nb * unat nc"
      "\<forall>k < unat nb. \<forall>j < unat nc.
         pixel (unat nc) (image_data (sonar_image a1)) k j = (if in_tile b k j then I k j else prior_image b a k j)"
    by blast
  have laid: "\<forall>k < unat nb. \<forall>j < unat nc. sample_is I nb nc a k j \<or> in_tile b k j \<longrightarrow> sample_is I nb nc a1 k j"
    using a1(3,4) prior_is [OF c] by (simp add: sample_is_def [of I nb nc a1])
  show ?case
  proof (cases "ps = []")
    case True
    then have "bs = []" using Cons.hyps(2) by simp
    then have "reaches_last b" using Cons.prems(4) by simp
    then show ?thesis
      using nd1 a1(2) laid by (simp add: p ms True \<open>bs = []\<close> act_bind_def act_return_def) blast
  next
    case False
    then have bs: "bs \<noteq> []" using Cons.hyps(2) by auto
    then have "\<not> reaches_last b" "\<forall>b \<in> set (butlast bs). \<not> reaches_last b" "reaches_last (last bs)"
      using Cons.prems(3,4) by auto
    with Cons.IH [of ms' nd1 a1] False ms(2) nd1 a1(1) Cons.prems(5,7,8) same_setup_keeps [OF nd1(2)] obtain nd' a' where
      nd': "publish_all ms' ps nd1 = Some (Inr (), nd')" "same_setup nd1 nd'"
        "map_find ping (assemblers nd') = None" "map_sorted (assemblers nd')"
        "images_of (published nd') = images_of (published nd1) @ [set_image_frame (act_frame nd1) (sonar_image a')]"
        "image_frame_of (sonar_image a') = image_frame_of (sonar_image a1)"
        "\<forall>k < unat nb. \<forall>j < unat nc. sample_is I nb nc a1 k j \<or> (\<exists>b \<in> set bs. in_tile b k j)
           \<longrightarrow> sample_is I nb nc a' k j"
      by auto
    moreover have "\<forall>k < unat nb. \<forall>j < unat nc. sample_is I nb nc a k j \<or> (\<exists>b \<in> set (b # bs). in_tile b k j)
           \<longrightarrow> sample_is I nb nc a' k j"
      using laid nd'(7) by auto
    ultimately show ?thesis
      using nd1(1,2,5) a1(2) \<open>\<not> reaches_last b\<close> same_setup_keeps(2) [OF nd1(2)]
      by (intro exI [of _ nd'] exI [of _ a']) (auto simp: p ms act_bind_def intro: same_setup_trans)
  qed
qed

text \<open>The header packet of a ping.\<close>

definition ping_header :: "buffer \<times> packet \<Rightarrow> u32 \<Rightarrow> u8 list \<Rightarrow> u8 list \<Rightarrow> bool" where
  "ping_header p ping h d \<longleftrightarrow> (\<exists>secs pos. aid0_view (fst p) (snd p) secs pos
     \<and> (H0, h) \<in> set secs \<and> sizeof_H0_Body \<le> length h \<and> (A1, d) \<in> set secs
     \<and> 24 + 4 * announced_beams h \<le> length d \<and> M0 \<notin> fst ` set secs
     \<and> get (H0_PingNumber (H0_Body_of (take sizeof_H0_Body h))) = ping)"

definition header_frame :: "u8 list \<Rightarrow> u8 list \<Rightarrow> image_frame" where
  "header_frame h d = (let b = H0_Body_of (take sizeof_H0_Body h); n = announced_beams h
     in (map (\<lambda>i. get (field_be d (24 + 4 * i) :: BE_f32)) [0..<n], replicate n (get (TxSteeringVert b)), replicate n 0,
         word_of_nat n, DTYPE_UINT8, get (TimeSeconds b), get (TimeNanoseconds b),
         \<lparr>frequency = get (Frequency b), sound_speed = get (SoundSpeed b),
          tx_beamwidths = replicate n (get (TxBeamwidthVert b)), rx_beamwidths = replicate n (get (TxBeamwidthHoriz b))\<rparr>))"

lemma header_handled:
  assumes head: "ping_header (buf, pkt) ping h d" and raw: "raw_fits nd (buf, pkt)"
    and nd: "pub_image nd" "aid0_unlocked nd" "map_sorted (assemblers nd)"
  shows "\<exists>nd' a'. publish_aid0 mem buf pkt nd = Some (Inr (), nd') \<and> same_setup nd nd'
    \<and> map_sorted (assemblers nd') \<and> map_find ping (assemblers nd') = Some a'
    \<and> images_of (published nd') = images_of (published nd)
    \<and> get (H0_PingNumber (h0_data a')) = ping \<and> image_frame_of (sonar_image a') = header_frame h d
    \<and> image_data (sonar_image a') = image_data (sonar_image (assembler_at mem ping (assemblers nd)))"
proof -
  obtain secs pos where V: "aid0_view buf pkt secs pos" and h: "(H0, h) \<in> set secs" "sizeof_H0_Body \<le> length h"
    and d: "(A1, d) \<in> set secs" "24 + 4 * announced_beams h \<le> length d" and m0: "M0 \<notin> fst ` set secs"
    and ping: "get (H0_PingNumber (H0_Body_of (take sizeof_H0_Body h))) = ping"
    using head by (auto simp: ping_header_def)
  note no = ping_no_of_header [OF V h m0, unfolded ping]
  from header_packet_accepted [OF V h d, of "assembler_at mem ping (assemblers nd)"] obtain a' where
    a': "addPacket buf pkt (assembler_at mem ping (assemblers nd)) = Some (Inr (False, a'))"
      "get (H0_PingNumber (h0_data a')) = ping" "image_frame_of (sonar_image a') = header_frame h d"
      "image_data (sonar_image a') = image_data (sonar_image (assembler_at mem ping (assemblers nd)))"
    using ping by (auto simp: image_frame_of_def header_frame_def Let_def)
  from image_handled [OF typed_view [OF V] no a'(1) raw nd] a'(2-4) show ?thesis by auto
qed

text \<open>
  An acoustic image as it is sent: its size and samples, and the contents of the H0 and A1 sections
  of its header.
\<close>

record sent_image =
  sent_ping :: u32
  sent_bins :: u32
  sent_beams :: u16
  sent_samples :: "nat \<Rightarrow> nat \<Rightarrow> u8"
  sent_header :: "u8 list"
  sent_angles :: "u8 list"

text \<open>
  Packets that transmit it: the header packet of the ping, then its sections, cut in any way and in
  any order but with the section of the last bin at the end.
\<close>

definition transmits :: "sent_image \<Rightarrow> (buffer \<times> packet) list \<Rightarrow> bool" where
  "transmits im qs \<longleftrightarrow> (\<exists>p ps bs. qs = p # ps \<and> ps \<noteq> []
     \<and> ping_header p (sent_ping im) (sent_header im) (sent_angles im)
     \<and> list_all2 (carries (sent_samples im) (sent_ping im) (sent_bins im) (sent_beams im)) ps bs
     \<and> (\<forall>b \<in> set (butlast bs). \<not> reaches_last b) \<and> reaches_last (last bs)
     \<and> (\<forall>k < unat (sent_bins im). \<forall>j < unat (sent_beams im). \<exists>b \<in> set bs. in_tile b k j))"

text \<open>A message that shows it: all its samples, the angles, delays, time and ping information of its header,
  the frame.\<close>

definition shows_sent :: "string \<Rightarrow> sent_image \<Rightarrow> RawSonarImage \<Rightarrow> bool" where
  "shows_sent frame im img \<longleftrightarrow>
     (\<forall>k < unat (sent_bins im). \<forall>j < unat (sent_beams im).
        length (image_data img) = unat (sent_bins im) * unat (sent_beams im)
        \<and> pixel (unat (sent_beams im)) (image_data img) k j = sent_samples im k j)
     \<and> image_frame_of img = header_frame (sent_header im) (sent_angles im) \<and> frame_id (img_header img) = frame"

definition receives_images :: "node \<Rightarrow> bool" where
  "receives_images nd \<longleftrightarrow> pub_image nd \<and> aid0_unlocked nd \<and> map_sorted (assemblers nd)"

lemma transmitted_published:
  assumes sent: "transmits im qs" and ms: "length ms = length qs" and raw: "\<forall>q \<in> set qs. raw_fits nd q"
    and nd: "receives_images nd"
  shows "\<exists>nd' img. publish_all ms qs nd = Some (Inr (), nd') \<and> same_setup nd nd' \<and> receives_images nd'
    \<and> images_of (published nd') = images_of (published nd) @ [img] \<and> shows_sent (act_frame nd) im img"
proof -
  let ?nb = "sent_bins im" and ?nc = "sent_beams im" and ?I = "sent_samples im"
  obtain p ps bs where qs: "qs = p # ps" "ps \<noteq> []"
    and head: "ping_header p (sent_ping im) (sent_header im) (sent_angles im)"
    and parts: "list_all2 (carries ?I (sent_ping im) ?nb ?nc) ps bs"
    and order: "\<forall>b \<in> set (butlast bs). \<not> reaches_last b" "reaches_last (last bs)"
    and cover: "\<forall>k < unat ?nb. \<forall>j < unat ?nc. \<exists>b \<in> set bs. in_tile b k j"
    using sent by (auto simp: transmits_def)
  obtain buf pkt where p: "p = (buf, pkt)" by (cases p)
  obtain mem ms' where m: "ms = mem # ms'" "length ms' = length ps" using ms qs(1) by (cases ms) auto
  have nd0: "pub_image nd" "aid0_unlocked nd" "map_sorted (assemblers nd)" using nd by (simp_all add: receives_images_def)
  have raw0: "raw_fits nd (buf, pkt)" using raw by (simp add: p qs)
  from header_handled [OF head [unfolded p] raw0 nd0, of mem] obtain nd1 a where
    nd1: "publish_aid0 mem buf pkt nd = Some (Inr (), nd1)" "same_setup nd nd1" "map_sorted (assemblers nd1)"
      "map_find (sent_ping im) (assemblers nd1) = Some a" "images_of (published nd1) = images_of (published nd)"
    and a: "get (H0_PingNumber (h0_data a)) = sent_ping im"
      "image_frame_of (sonar_image a) = header_frame (sent_header im) (sent_angles im)"
    by blast
  have raw1: "\<forall>q \<in> set ps. raw_fits nd1 q" and pub1: "pub_image nd1" and free1: "aid0_unlocked nd1"
    using raw nd0(1) same_setup_keeps [OF nd1(2)] by (simp_all add: qs)
  from sections_published [OF parts qs(2) m(2) order raw1 nd1(4) a(1) pub1 free1 nd1(3)] obtain nd' a' where
    nd': "publish_all ms' ps nd1 = Some (Inr (), nd')" "same_setup nd1 nd'" "map_sorted (assemblers nd')"
      "images_of (published nd') = images_of (published nd1) @ [set_image_frame (act_frame nd1) (sonar_image a')]"
      "image_frame_of (sonar_image a') = image_frame_of (sonar_image a)"
      "\<forall>k < unat ?nb. \<forall>j < unat ?nc. sample_is ?I ?nb ?nc a k j \<or> (\<exists>b \<in> set bs. in_tile b k j)
         \<longrightarrow> sample_is ?I ?nb ?nc a' k j"
    by blast
  have "\<forall>k < unat ?nb. \<forall>j < unat ?nc. sample_is ?I ?nb ?nc a' k j" using nd'(6) cover by blast
  then have "shows_sent (act_frame nd) im (set_image_frame (act_frame nd1) (sonar_image a'))"
    using nd'(5) a(2) same_setup_keeps(2) [OF nd1(2)]
    by (simp add: shows_sent_def sample_is_def set_image_frame_def image_frame_of_def)
  moreover have "receives_images nd'"
    using nd0(1) nd'(3) same_setup_keeps(3) [OF nd1(2)] same_setup_keeps(3,4) [OF nd'(2)]
    by (simp add: receives_images_def)
  ultimately show ?thesis
    using nd1(1,5) nd'(1,4) same_setup_trans [OF nd1(2) nd'(2)]
    by (intro exI [of _ nd'] exI [of _ "set_image_frame (act_frame nd1) (sonar_image a')"])
      (simp add: p qs m act_bind_def)
qed

text \<open>One image after the other.\<close>

lemma images_published:
  assumes "list_all2 transmits ims qss" and "length ms = length (concat qss)"
    and "\<forall>q \<in> set (concat qss). raw_fits nd q" and "receives_images nd"
  shows "\<exists>nd' imgs. publish_all ms (concat qss) nd = Some (Inr (), nd') \<and> receives_images nd'
    \<and> images_of (published nd') = images_of (published nd) @ imgs \<and> list_all2 (shows_sent (act_frame nd)) ims imgs"
  using assms
proof (induction arbitrary: nd ms rule: list_all2_induct)
  case Nil
  then show ?case by (simp add: act_return_def)
next
  case (Cons im ims qs qss)
  define ms1 ms2 where "ms1 = take (length qs) ms" and "ms2 = drop (length qs) ms"
  have ms: "ms = ms1 @ ms2" "length ms1 = length qs" "length ms2 = length (concat qss)"
    using Cons.prems(1) by (simp_all add: ms1_def ms2_def)
  have "\<forall>q \<in> set qs. raw_fits nd q" using Cons.prems(2) by simp
  from transmitted_published [OF Cons.hyps(1) ms(2) this Cons.prems(3)] obtain nd1 img where
    nd1: "publish_all ms1 qs nd = Some (Inr (), nd1)" "same_setup nd nd1" "receives_images nd1"
      "images_of (published nd1) = images_of (published nd) @ [img]" "shows_sent (act_frame nd) im img"
    by blast
  have "\<forall>q \<in> set (concat qss). raw_fits nd1 q"
    using Cons.prems(2) same_setup_keeps(1) [OF nd1(2)] by simp
  from Cons.IH [OF ms(3) this nd1(3)] obtain nd' imgs where
    nd': "publish_all ms2 (concat qss) nd1 = Some (Inr (), nd')" "receives_images nd'"
      "images_of (published nd') = images_of (published nd1) @ imgs" "list_all2 (shows_sent (act_frame nd1)) ims imgs"
    by blast
  have "publish_all ms (concat (qs # qss)) nd = Some (Inr (), nd')"
    unfolding ms(1) concat.simps publish_all_append [OF ms(2)] using nd1(1) nd'(1) by (simp add: act_bind_def)
  moreover have "list_all2 (shows_sent (act_frame nd)) (im # ims) (img # imgs)"
    using nd1(5) nd'(4) same_setup_keeps(2) [OF nd1(2)] by simp
  ultimately show ?case
    using nd'(2,3) nd1(4) by (intro exI [of _ nd'] exI [of _ "img # imgs"]) simp
qed

section \<open>Sections after the last bin\<close>

lemma carried_ignored:
  assumes c: "carries I ping nb nc (buf, pkt) b" and other: "get (H0_PingNumber (h0_data a)) \<noteq> ping"
  shows "addPacket buf pkt a = Some (Inr (False, a))"
proof -
  obtain secs pos d where V: "aid0_view buf pkt secs pos" and no_h: "H0 \<notin> fst ` set secs"
    and d: "(M0, d) \<in> set secs" and b: "b = M0_Body_of (take 32 d)" and fits: "section_fits b d"
    and geo: "get (M0_PingNumber b) = ping"
    using c by (auto simp: carries_def)
  have "32 \<le> length d" using fits by (simp add: section_fits_def)
  from other_ping_ignored [OF V no_h d this] other geo show ?thesis by (simp add: b)
qed


section \<open>Two small images\<close>

text \<open>A section of one sample at bin \<open>fb\<close> of \<open>tb\<close> and beam \<open>fm\<close> of \<open>tm\<close>.\<close>

definition one_sample :: "u8 \<Rightarrow> u8 \<Rightarrow> u8 \<Rightarrow> u8 \<Rightarrow> u8 \<Rightarrow> u8 list" where
  "one_sample tb fb tm fm v = [0, 0, 0, 0, 0, 0, 0, 0, 0, 0, 0, 1, 0, 0, 0, tb, 0, 0, 0, fb,
     0, 1, 0, tm, 0, fm, 0, 1, 0, 0, 0, 0, v]"

definition one_sample_packet :: "u8 list \<Rightarrow> buffer \<times> packet" where
  "one_sample_packet d = (packet_bytes AID0 0 [(M0, d)] @ [0, 0], mk_packet AID0 0)"

lemma one_sample_body:
  "get (M0_PingNumber (M0_Body_of (take 32 (one_sample tb fb tm fm v)))) = 0"
  "get (M0_TotalBins (M0_Body_of (take 32 (one_sample tb fb tm fm v)))) = ucast tb"
  "get (M0_FirstBin (M0_Body_of (take 32 (one_sample tb fb tm fm v)))) = ucast fb"
  "get (M0_Bins (M0_Body_of (take 32 (one_sample tb fb tm fm v)))) = 1"
  "get (M0_TotalBeams (M0_Body_of (take 32 (one_sample tb fb tm fm v)))) = ucast tm"
  "get (M0_FirstBeam (M0_Body_of (take 32 (one_sample tb fb tm fm v)))) = ucast fm"
  "get (M0_Beams (M0_Body_of (take 32 (one_sample tb fb tm fm v)))) = 1"
  by (simp_all add: one_sample_def M0_Body_of_def field_be_def mem_eval)

lemma one_sample_tile:
  "in_tile (M0_Body_of (take 32 (one_sample tb fb tm fm v))) k j \<longleftrightarrow> k = unat fb \<and> j = unat fm"
  "tile_value (M0_Body_of (take 32 (one_sample tb fb tm fm v))) (one_sample tb fb tm fm v) (unat fb) (unat fm) = v"
  by (auto simp: in_tile_def tile_value_def one_sample_body) (simp_all add: one_sample_def)

text \<open>M0 is the last section of its packet type: the packet may be followed by anything.\<close>

lemma one_sample_carries_any:
  assumes "fb < tb" and "fm < tm" and "I (unat fb) (unat fm) = v"
  shows "carries I 0 (ucast tb) (ucast tm)
    (packet_bytes AID0 0 [(M0, one_sample tb fb tm fm v)] @ zs, mk_packet AID0 0)
    (M0_Body_of (take 32 (one_sample tb fb tm fm v)))"
proof -
  let ?d = "one_sample tb fb tm fm v"
  have len: "length ?d = 33" by (simp add: one_sample_def)
  have "section_list_ok aid0_layout [(M0, ?d)]" "tail_ok aid0_layout [(M0, ?d)] zs"
    by (simp_all add: section_list_ok_def tail_ok_def aid0_layout_def section_order len)
  from aid0_packet_view [OF this, of "[]" 0] have V: "aid0_view (packet_bytes AID0 0 [(M0, ?d)] @ zs) (mk_packet AID0 0)
      [(M0, ?d)] (\<lambda>t. section_pos 0 t [(M0, ?d)])"
    by simp
  have small: "unat fb < unat tb" "unat fm < unat tm" "unat tb < 256" "unat tm < 256"
    using assms(1,2) unat_bound [of tb] unat_bound [of tm] by (simp_all add: word_less_nat_alt)
  then have "unat tb * unat tm \<le> 255 * 255" by (intro mult_le_mono) simp_all
  then have "section_fits (M0_Body_of (take 32 ?d)) ?d"
    using small by (simp add: section_fits_def one_sample_body len)
  moreover have "unat (ucast fb :: u32) = unat fb" "unat (ucast fm :: u16) = unat fm" by simp_all
  ultimately show ?thesis
    using V assms(3) unfolding carries_def
    by (intro exI [of _ "[(M0, ?d)]"] exI [of _ ?d] exI [of _ "\<lambda>t. section_pos 0 t [(M0, ?d)]"])
      (simp add: one_sample_body one_sample_tile)
qed

lemma one_sample_carries:
  assumes "fb < tb" and "fm < tm" and "I (unat fb) (unat fm) = v"
  shows "carries I 0 (ucast tb) (ucast tm) (one_sample_packet (one_sample tb fb tm fm v))
    (M0_Body_of (take 32 (one_sample tb fb tm fm v)))"
  unfolding one_sample_packet_def using assms by (rule one_sample_carries_any)

lemma sample_ping_header:
  "ping_header (packet_bytes AID0 0 [(H0, sample_header), (A1, replicate 28 0)] @ 0 # 0 # zs, mk_packet AID0 0)
     0 sample_header (replicate 28 0)"
proof -
  let ?secs = "[(H0, sample_header), (A1, replicate 28 0)]"
  have "section_list_ok aid0_layout ?secs" "tail_ok aid0_layout ?secs (0 # 0 # zs)"
    by (simp_all add: section_list_ok_def tail_ok_def aid0_layout_def section_order sample_header_def)
  from aid0_packet_view [OF this, of "[]" 0] show ?thesis
    unfolding ping_header_def fst_conv snd_conv
    by (intro exI [of _ ?secs] exI conjI, simp)
      (simp_all add: sample_header_facts(1), simp_all add: sample_header_def sizeof_H0_Body_def H0_Body_of_def
        field_be_def mem_eval replicate_4)
qed

text \<open>Two bins of one beam, sent in order.\<close>

definition two_bins :: sent_image where
  "two_bins = \<lparr>sent_ping = 0, sent_bins = 2, sent_beams = 1, sent_samples = (\<lambda>k j. if k = 0 then 7 else 9),
     sent_header = sample_header, sent_angles = replicate 28 0\<rparr>"

lemma two_bins_sent:
  assumes p: "ping_header p 0 sample_header (replicate 28 0)"
    and c: "list_all2 (carries (sent_samples two_bins) 0 2 1) ps
      (map (\<lambda>d. M0_Body_of (take 32 d)) [one_sample 2 0 1 0 7, one_sample 2 1 1 0 9])"
  shows "transmits two_bins (p # ps)"
proof -
  let ?bs = "map (\<lambda>d. M0_Body_of (take 32 d)) [one_sample 2 0 1 0 7, one_sample 2 1 1 0 9]"
  have "\<forall>b \<in> set (butlast ?bs). \<not> reaches_last b" "reaches_last (last ?bs)"
    by (simp_all add: reaches_last_def one_sample_body word_le_nat_alt)
  moreover have "\<exists>b \<in> set ?bs. in_tile b k j" if "k < unat (2 :: u32)" "j < unat (1 :: u16)" for k j
    using that by (auto simp: one_sample_tile)
  moreover have "ps \<noteq> []" using c by auto
  ultimately show ?thesis
    using p c unfolding transmits_def
    by (intro exI [of _ p] exI [of _ ps] exI [of _ ?bs]) (simp add: two_bins_def del: list.map)
qed


section \<open>Sections in another order\<close>

lemma reordered_accessors:
  assumes "4 + length d < 65536" and buf: "buf = packet_bytes AID0 st [(A1, d), (H0, h)] @ zs"
  shows "AID0_h0 buf (mk_packet AID0 0) = Inr (mk_section H0 12)" "section_exists buf (mk_section H0 12) = Inr False"
    "AID0_m0 buf (mk_packet AID0 0) = Inr (mk_section M0 (12 + length (section_bytes A1 d)))"
    "section_exists buf (mk_section M0 (12 + length (section_bytes A1 d))) = Inr False"
proof -
  let ?hdr = "header_bytes AID0 st [(A1, d), (H0, h)]"
  have b: "buf = ?hdr @ section_bytes A1 d @ section_bytes H0 h @ zs"
    using packet_bytes_header [of "[]" AID0 st "[(A1, d), (H0, h)]" zs] by (simp add: buf)
  have len: "length ?hdr = 12" by simp
  have acc: "(H0, AID0_h0) \<in> set AID0_accessors" "(M0, AID0_m0) \<in> set AID0_accessors"
    by (simp_all add: AID0_accessors_def)
  have absent: "chain_end buf 12 (H0 # ts) = chain_end buf 12 ts" for ts
    unfolding b by (intro chain_end_absent) (simp_all add: section_bytes_def)
  have "chain_end buf 12 [A1] = chain_end buf (length (?hdr @ section_bytes A1 d)) []"
    unfolding b using assms(1) by (subst chain_end_present) simp_all
  then have walk: "chain_end buf 12 [H0, A1] = Inr (12 + length (section_bytes A1 d))"
    unfolding absent by simp
  have typed: "typeErrorCheck buf (mk_packet AID0 0) = Inr ()"
    using typed_packet_check [of "[]" AID0 st "[(A1, d), (H0, h)]" zs] by (simp add: buf)
  show "AID0_h0 buf (mk_packet AID0 0) = Inr (mk_section H0 12)"
    using AID0_accessor_walk [OF acc(1), of buf "mk_packet AID0 0"] typed by (simp add: aid0_layout_def)
  show "AID0_m0 buf (mk_packet AID0 0) = Inr (mk_section M0 (12 + length (section_bytes A1 d)))"
    using AID0_accessor_walk [OF acc(2), of buf "mk_packet AID0 0"] typed walk by (simp add: aid0_layout_def del: chain_end.simps)
  show "section_exists buf (mk_section H0 12) = Inr False"
    by (simp add: section_exists_iff mk_section_def b section_bytes_def)
  have "drop (12 + length (section_bytes A1 d)) buf = section_bytes H0 h @ zs" unfolding b by simp
  moreover have "length buf = 12 + length (section_bytes A1 d) + length (section_bytes H0 h @ zs)" unfolding b by simp
  moreover have "take 2 (section_bytes H0 h @ zs) \<noteq> name_bytes M0" "2 \<le> length (section_bytes H0 h @ zs)"
    by (simp_all add: section_bytes_def)
  ultimately show "section_exists buf (mk_section M0 (12 + length (section_bytes A1 d))) = Inr False"
    by (simp add: section_exists_iff mk_section_def)
qed



end
