(* ===== verification/Received.thy ===== *)
theory Received
  imports ThreadStates ImagePing
begin

text \<open>
  From the network to the subscribers: in a run of the threads of the program the pings and the images that
  arrive are the pings and the images that are published, one message each, in order, whatever the
  other receivers, the operator and the timer do meanwhile.
\<close>

section \<open>Pings\<close>

text \<open>Without the type check of \<open>receiveImpl\<close> the handlers make the same one.\<close>

lemma receiveImpl_handler:
  "receiveImpl mem (Some BTH0) buf = publish_bth0 buf (mk_packet BTH0 0)"
  "receiveImpl mem (Some AID0) buf = publish_aid0 mem buf (mk_packet AID0 0)"
proof -
  have twice: "act_bind (act_res r) (\<lambda>ok. if ok then act_bind (act_res r) (\<lambda>ok. if \<not> ok then act_return () else m)
      else act_return ()) = act_bind (act_res r) (\<lambda>ok. if \<not> ok then act_return () else m)" for r and m :: "unit act"
    by (cases r) (auto simp: act_bind_def act_res_def fun_eq_iff)
  show "receiveImpl mem (Some BTH0) buf = publish_bth0 buf (mk_packet BTH0 0)"
    unfolding receiveImpl_def publish_bth0_def option.case packet_type.case by (rule twice)
  show "receiveImpl mem (Some AID0) buf = publish_aid0 mem buf (mk_packet AID0 0)"
    unfolding receiveImpl_def publish_aid0_def option.case packet_type.case by (rule twice)
qed

text \<open>
  A ping that is understood whatever an earlier datagram has left in the buffer: it has the
  mandatory sections, each section is long enough, and the last one is Q0.
\<close>

definition clean_ping :: "section_data list \<Rightarrow> bool" where
  "clean_ping secs \<longleftrightarrow> section_list_ok bth0_layout secs \<and> Q0 \<in> fst ` set secs
     \<and> bth0_complete secs (section_body H0 secs) (section_body R0 secs)
     \<and> length (packet_bytes BTH0 0 secs) \<le> RECV_BUFFER"

text \<open>What the handler of the pings neither reads from elsewhere nor changes.\<close>

definition ping_setup :: "node \<Rightarrow> string \<times> bool \<times> bool" where
  "ping_setup nd = (act_frame nd, pub_detections nd, pub_bth0 nd)"

lemma bth0_setup_kept: "act_keeps ping_setup (publish_bth0 buf pkt)"
  unfolding publish_bth0_def publish_detections_def publish_raw_bth0_def
  by (intro act_rules) (simp_all add: ping_setup_def act_frame_def)

lemma ping_events_setup: "ping_setup nd = ping_setup nd' \<Longrightarrow> ping_events nd st secs = ping_events nd' st secs"
  by (simp add: ping_setup_def ping_events_def)

lemma store_in_front:
  "length bs \<le> RECV_BUFFER \<Longrightarrow> store_datagram bs buf = bs @ drop (length bs) buf"
  by (simp add: store_datagram_def)

lemma clean_ping_published:
  assumes clean: "clean_ping secs" and free: "bth0_unlocked nd"
  obtains nd' where "publish_bth0 (store_datagram (packet_bytes BTH0 st secs) buf) (mk_packet BTH0 0) nd = Some (Inr (), nd')"
    "published nd' = published nd @ ping_events nd st secs" "bth0_unlocked nd'" "ping_setup nd' = ping_setup nd"
proof -
  let ?bs = "packet_bytes BTH0 st secs"
  have secs: "section_list_ok bth0_layout secs" "Q0 \<in> fst ` set secs"
      "bth0_complete secs (section_body H0 secs) (section_body R0 secs)" "length ?bs \<le> RECV_BUFFER"
    using clean by (simp_all add: clean_ping_def)
  have tail: "tail_ok bth0_layout secs zs" for zs
    by (rule tail_ok_last [OF _ secs(2)]) (simp add: bth0_layout_def section_order less_imp_le)
  have buf: "store_datagram ?bs buf = [] @ ?bs @ drop (length ?bs) buf"
    using store_in_front [OF secs(4)] by simp
  from ping_published [OF secs(1) tail secs(3) free buf, of "mk_packet BTH0 0"] obtain nd' where
    nd': "publish_bth0 (store_datagram ?bs buf) (mk_packet BTH0 0) nd = Some (Inr (), nd')"
      "published nd' = published nd @ ping_events nd st secs" "bth0_unlocked nd'" by auto
  with that show ?thesis using bth0_setup_kept by (auto simp: act_keeps_def)
qed

text \<open>The BTH0 receiver on a sequence of such pings.\<close>

type_synonym ping = "u32 \<times> section_data list"

definition ping_datagram :: "ping \<Rightarrow> recv_event" where
  "ping_datagram p = Datagram (packet_bytes BTH0 (fst p) (snd p))"

lemma pings_handled:
  assumes "\<forall>p \<in> set ps. clean_ping (snd p)" and "map snd evs = map ping_datagram ps"
    and "bth0_unlocked nd" and "recv_type rc = Some BTH0"
  shows "\<exists>rc' nd'. handle_all evs (rc, nd) = (rc', nd') \<and> bth0_unlocked nd' \<and> recv_phase rc' = recv_phase rc
    \<and> published nd' = published nd @ concat (map (\<lambda>p. ping_events nd (fst p) (snd p)) ps)"
  using assms
proof (induction ps arbitrary: evs rc nd)
  case Nil
  then show ?case by simp
next
  case (Cons p ps)
  obtain mem evs' where evs: "evs = (mem, ping_datagram p) # evs'" "map snd evs' = map ping_datagram ps"
    using Cons.prems(2) by (cases evs) auto
  define buf where "buf = store_datagram (packet_bytes BTH0 (fst p) (snd p)) (recv_buffer rc)"
  have "clean_ping (snd p)" using Cons.prems(1) by simp
  from clean_ping_published [OF this Cons.prems(3)] obtain nd1 where
    nd1: "publish_bth0 buf (mk_packet BTH0 0) nd = Some (Inr (), nd1)"
      "published nd1 = published nd @ ping_events nd (fst p) (snd p)" "bth0_unlocked nd1" "ping_setup nd1 = ping_setup nd"
    unfolding buf_def by metis
  let ?rc = "rc\<lparr>recv_buffer := buf\<rparr>"
  have step: "receiveHandler mem (ping_datagram p) (rc, nd) = (?rc, nd1)"
    using Cons.prems(4) nd1(1)
    by (simp add: receiveHandler_def ping_datagram_def Let_def receiveImpl_handler flip: buf_def)
  have "\<forall>p \<in> set ps. clean_ping (snd p)" "recv_type ?rc = Some BTH0" using Cons.prems(1,4) by simp_all
  from Cons.IH [OF this(1) evs(2) nd1(3) this(2)] obtain rc' nd' where
    nd': "handle_all evs' (?rc, nd1) = (rc', nd')" "bth0_unlocked nd'" "recv_phase rc' = recv_phase rc"
      "published nd' = published nd1 @ concat (map (\<lambda>p. ping_events nd1 (fst p) (snd p)) ps)" by auto
  with evs(1) step nd1(2) ping_events_setup [OF nd1(4)] show ?case by simp
qed

lemma events_by_ping [simp]: "events_by (Some BTH0) (ping_events nd st secs) = ping_events nd st secs"
  by (simp add: ping_events_def)

lemma run_pings:
  assumes run: "sys_run env pton s tr s'" and types: "\<forall>i. recv_type (recs s i) = i"
    and free: "bth0_unlocked (sys_node s)" and clean: "\<forall>p \<in> set ps. clean_ping (snd p)"
    and arrive: "map snd (handed (Some BTH0) tr) = map ping_datagram ps"
  shows "events_by (Some BTH0) (published (sys_node s')) = events_by (Some BTH0) (published (sys_node s))
    @ concat (map (\<lambda>p. ping_events (sys_node s) (fst p) (snd p)) ps)"
proof -
  have "recv_type (recs s (Some BTH0)) = Some BTH0" using types by blast
  from pings_handled [OF clean arrive free this] obtain rc nd where
    nd: "handle_all (handed (Some BTH0) tr) (recs s (Some BTH0), sys_node s) = (rc, nd)"
      "published nd = published (sys_node s) @ concat (map (\<lambda>p. ping_events (sys_node s) (fst p) (snd p)) ps)"
    by blast
  have "events_by (Some BTH0) (concat (map (\<lambda>p. ping_events n (fst p) (snd p)) qs))
      = concat (map (\<lambda>p. ping_events n (fst p) (snd p)) qs)" for n and qs :: "ping list"
    by (induction qs) simp_all
  then show ?thesis using run_published [OF run types nd(1)] nd(2) by simp
qed

text \<open>
  C3: every ping is published. In any run of the threads in which the datagrams of the BTH0 receiver
  are clean pings and its handler has returned from the last of them, the messages published from
  them are, in the order of arrival, the detections each ping means and its raw bytes, and nothing
  else: whatever the buffer held before, whatever statements of the other receivers come between
  its own and whatever updates, timer rounds and signals occur.
\<close>

theorem pings_received:
  assumes run: "thread_run env pton (idle, s) tr (w, s')" and types: "\<forall>i. recv_type (recs s i) = i"
    and returned: "w (Some BTH0) = None"
    and free: "bth0_unlocked (sys_node s)" and clean: "\<forall>p \<in> set ps. clean_ping (snd p)"
    and arrive: "map snd (handed (Some BTH0) tr) = map ping_datagram ps"
  shows "events_by (Some BTH0) (published (sys_node s')) = events_by (Some BTH0) (published (sys_node s))
    @ concat (map (\<lambda>p. ping_events (sys_node s) (fst p) (snd p)) ps)"
proof -
  from thread_alone [OF run types returned] obtain t tr' where
    t: "sys_run env pton s tr' t" "handed (Some BTH0) tr' = handed (Some BTH0) tr"
      "events_by (Some BTH0) (published (sys_node t)) = events_by (Some BTH0) (published (sys_node s'))" .
  show ?thesis using run_pings [OF t(1) types free clean] arrive t(2,3) by simp
qed

section \<open>Images\<close>

text \<open>The contents of a receive buffer after each of a sequence of datagrams.\<close>

fun buffers :: "buffer \<Rightarrow> u8 list list \<Rightarrow> buffer list" where
  "buffers buf [] = []"
| "buffers buf (bs # bss) = store_datagram bs buf # buffers (store_datagram bs buf) bss"

lemma buffers_length: "length (buffers b bss) = length bss"
  by (induction bss arbitrary: b) simp_all

lemma buffers_sized: "b \<in> set (buffers c bss) \<Longrightarrow> length c = RECV_BUFFER \<Longrightarrow> length b = RECV_BUFFER"
  by (induction bss arbitrary: c) (auto simp: length_store_datagram)

lemma images_of_events_by: "images_of (events_by (Some AID0) es) = images_of es"
proof (induction es)
  case (Cons e es)
  then show ?case by (cases e) (simp_all add: events_by_def)
qed simp

lemma images_handled:
  assumes "map snd evs = map Datagram bss" and "recv_type rc = Some AID0"
    and "publish_all (map fst evs) (map (\<lambda>b. (b, mk_packet AID0 0)) (buffers (recv_buffer rc) bss)) nd = Some (Inr (), nd')"
  shows "\<exists>rc'. handle_all evs (rc, nd) = (rc', nd') \<and> recv_phase rc' = recv_phase rc"
  using assms
proof (induction bss arbitrary: evs rc nd)
  case Nil
  then show ?case by (simp add: act_return_def)
next
  case (Cons bs bss)
  obtain mem evs' where evs: "evs = (mem, Datagram bs) # evs'" "map snd evs' = map Datagram bss"
    using Cons.prems(1) by (cases evs) auto
  define buf where "buf = store_datagram bs (recv_buffer rc)"
  obtain nd1 where nd1: "publish_aid0 mem buf (mk_packet AID0 0) nd = Some (Inr (), nd1)"
      "publish_all (map fst evs') (map (\<lambda>b. (b, mk_packet AID0 0)) (buffers buf bss)) nd1 = Some (Inr (), nd')"
    using Cons.prems(3) by (auto simp: evs(1) act_bind_returns buf_def)
  let ?rc = "rc\<lparr>recv_buffer := buf\<rparr>"
  have "receiveHandler mem (Datagram bs) (rc, nd) = (?rc, nd1)"
    using Cons.prems(2) nd1(1) by (simp add: receiveHandler_def Let_def receiveImpl_handler flip: buf_def)
  moreover have "\<exists>rc'. handle_all evs' (?rc, nd1) = (rc', nd') \<and> recv_phase rc' = recv_phase ?rc"
    by (rule Cons.IH [OF evs(2)]) (use Cons.prems(2) nd1(2) in simp_all)
  ultimately show ?case by (simp add: evs(1))
qed

lemma run_images:
  assumes run: "sys_run env pton s tr s'" and types: "\<forall>i. recv_type (recs s i) = i"
    and size: "length (recv_buffer (recs s (Some AID0))) = RECV_BUFFER" and ready: "receives_images (sys_node s)"
    and arrive: "map snd (handed (Some AID0) tr) = map Datagram bss"
    and sent: "map (\<lambda>b. (b, mk_packet AID0 0)) (buffers (recv_buffer (recs s (Some AID0))) bss) = concat qss"
    and images: "list_all2 transmits ims qss"
  shows "\<exists>imgs. images_of (published (sys_node s')) = images_of (published (sys_node s)) @ imgs
    \<and> list_all2 (shows_sent (act_frame (sys_node s))) ims imgs"
proof -
  let ?evs = "handed (Some AID0) tr" and ?rc = "recs s (Some AID0)"
  have "length (map fst ?evs) = length (concat qss)"
    using arg_cong [OF arrive, of length] arg_cong [OF sent, of length] by (simp add: buffers_length)
  moreover have "\<forall>q \<in> set (concat qss). raw_fits (sys_node s) q"
    unfolding sent [symmetric] using buffers_sized size by (force simp: raw_fits_def RECV_BUFFER_def mk_packet_def)
  ultimately obtain nd imgs where
    nd: "publish_all (map fst ?evs) (concat qss) (sys_node s) = Some (Inr (), nd)"
      "images_of (published nd) = images_of (published (sys_node s)) @ imgs"
      "list_all2 (shows_sent (act_frame (sys_node s))) ims imgs"
    using images_published [OF images _ _ ready] by blast
  have "recv_type ?rc = Some AID0" using types by blast
  from images_handled [OF arrive this] nd(1) obtain rc where
    "handle_all ?evs (?rc, sys_node s) = (rc, nd)" unfolding sent by blast
  from run_published [OF run types this] have
    "images_of (events_by (Some AID0) (published (sys_node s'))) = images_of (events_by (Some AID0) (published nd))" by simp
  then show ?thesis unfolding images_of_events_by using nd(2,3) by (intro exI [of _ imgs]) simp
qed

text \<open>
  C4: every acoustic image is published. In any run of the threads in which the datagrams of the
  AID0 receiver, as they lie in its buffer, transmit a sequence of images, one after the other, and
  its handler has returned from the last of them, exactly these images are published, in order:
  each with all the samples that were sent, however it was cut into sections, with the angles,
  delays, time and ping information of its header and the configured frame.
\<close>

theorem images_received:
  assumes run: "thread_run env pton (idle, s) tr (w, s')" and types: "\<forall>i. recv_type (recs s i) = i"
    and returned: "w (Some AID0) = None"
    and size: "length (recv_buffer (recs s (Some AID0))) = RECV_BUFFER" and ready: "receives_images (sys_node s)"
    and arrive: "map snd (handed (Some AID0) tr) = map Datagram bss"
    and sent: "map (\<lambda>b. (b, mk_packet AID0 0)) (buffers (recv_buffer (recs s (Some AID0))) bss) = concat qss"
    and images: "list_all2 transmits ims qss"
  shows "\<exists>imgs. images_of (published (sys_node s')) = images_of (published (sys_node s)) @ imgs
    \<and> list_all2 (shows_sent (act_frame (sys_node s))) ims imgs"
proof -
  from thread_alone [OF run types returned] obtain t tr' where
    t: "sys_run env pton s tr' t" "handed (Some AID0) tr' = handed (Some AID0) tr"
      "events_by (Some AID0) (published (sys_node t)) = events_by (Some AID0) (published (sys_node s'))" .
  from arg_cong [OF t(3), of images_of] have "images_of (published (sys_node t)) = images_of (published (sys_node s'))"
    by (simp only: images_of_events_by)
  with run_images [OF t(1) types size ready _ sent images] arrive t(2) show ?thesis by simp
qed

section \<open>Two runs from the start\<close>

lemma sample_publisher:
  obtains nd where "new_R2SonicNode (\<lambda>_ v. Inr v) sample_params = Inr nd"
    and "bth0_unlocked nd" "pub_detections nd" "pub_bth0 nd" "published nd = []" "receives_images nd"
  using sample_init
  by (auto simp: new_R2SonicNode_def bth0_unlocked_def aid0_unlocked_def receives_images_def shouldAdvertise_def map_sorted_def)

text \<open>The program is started, one receiver binds and is handed datagrams.\<close>

abbreviation started :: "node \<Rightarrow> string system" where
  "started nd \<equiv> start_system nd (\<lambda>_. replicate RECV_BUFFER 0)"

lemma started_run:
  assumes "handle_all evs (recs (set_phase i Receiving (started nd)) i, nd) = (rc, nd')" and "recv_phase rc = Receiving"
  shows "\<exists>s'. sys_run sample_env dotted_quad (started nd) ([Internal, Internal] @ map (\<lambda>(mem, ev). Received i mem ev) evs) s'
    \<and> sys_node s' = nd' \<and> (\<forall>j. phase s' j \<noteq> Waiting)"
proof -
  let ?r = "set_phase i Receiving (started nd)"
  have node: "sys_node ?r = nd" by (simp add: start_system_def)
  have "running ?r" "phase ?r i = Receiving" by (simp_all add: running_set_phase)
  from handed_run [OF this, of evs rc nd' sample_env dotted_quad] assms node
  have "sys_run sample_env dotted_quad ?r (map (\<lambda>(mem, ev). Received i mem ev) evs) (?r\<lparr>recs := (recs ?r)(i := rc), sys_node := nd'\<rparr>)"
    by simp
  moreover have "phase (?r\<lparr>recs := (recs ?r)(i := rc), sys_node := nd'\<rparr>) j \<noteq> Waiting" for j
    using assms(2) by (simp add: phase_def start_system_def new_receiver_def set_phase_def)
  ultimately show ?thesis
    by (intro exI [of _ "?r\<lparr>recs := (recs ?r)(i := rc), sys_node := nd'\<rparr>"] conjI run_append [OF _ bound_run]) simp_all
qed

text \<open>And its threads do the same.\<close>

lemma started_threads:
  assumes "handle_all evs (recs (set_phase i Receiving (started nd)) i, nd) = (rc, nd')" and "recv_phase rc = Receiving"
  shows "\<exists>tr s'. thread_run sample_env dotted_quad (idle, started nd) tr (idle, s')
    \<and> (\<forall>j. handed j tr = (if j = i then evs else []))"
proof -
  from started_run [OF assms] obtain s' where
    run: "sys_run sample_env dotted_quad (started nd) ([Internal, Internal] @ map (\<lambda>(mem, ev). Received i mem ev) evs) s'"
      "\<forall>j. phase s' j \<noteq> Waiting" by blast
  from threads_perform [OF this] obtain tr where
    "thread_run sample_env dotted_quad (idle, started nd) tr (idle, s')"
    "\<And>j. handed j tr = handed j ([Internal, Internal] @ map (\<lambda>(mem, ev). Received i mem ev) evs)" by blast
  then show ?thesis by auto
qed

lemma started_facts:
  "recv_type (recs (set_phase i Receiving (started nd)) i) = i"
  "recv_buffer (recs (set_phase i Receiving (started nd)) i) = replicate RECV_BUFFER 0"
  "recv_phase (recs (set_phase i Receiving (started nd)) i) = Receiving" "sys_node (started nd) = nd"
  by (simp_all add: start_system_def new_receiver_def)

lemma sample_clean: "clean_ping sample_a2"
proof -
  have "section_body H0 sample_a2 = replicate 110 0 @ [0, 1]" "section_body R0 sample_a2 = [0x3F, 0x80, 0, 0, 0, 7]"
    by (simp_all add: section_body_def sample_a2_def)
  then show ?thesis
    using sample_ok(1,5) by (simp add: clean_ping_def) (simp add: sample_a2_def RECV_BUFFER_def)
qed

text \<open>The same ping twice.\<close>

lemma sample_pings_handled:
  assumes "bth0_unlocked nd"
  shows "\<exists>rc nd'. handle_all [(no_memory, ping_datagram (0, sample_a2)), (no_memory, ping_datagram (1, sample_a2))]
      (recs (set_phase (Some BTH0) Receiving (started nd)) (Some BTH0), nd) = (rc, nd') \<and> recv_phase rc = Receiving"
proof -
  let ?ps = "[(0, sample_a2), (1, sample_a2)] :: ping list"
  let ?evs = "[(no_memory, ping_datagram (0, sample_a2)), (no_memory, ping_datagram (1, sample_a2))]"
  have clean: "\<forall>p \<in> set ?ps. clean_ping (snd p)" and evs: "map snd ?evs = map ping_datagram ?ps"
    by (simp_all add: sample_clean)
  from pings_handled [OF clean evs assms started_facts(1), of nd] started_facts(3) [of "Some BTH0" nd]
  show ?thesis by metis
qed

lemma sample_ping_threads:
  assumes "bth0_unlocked nd"
  obtains tr s' where "thread_run sample_env dotted_quad (idle, started nd) tr (idle, s')"
    "\<And>j. handed j tr = (if j = Some BTH0
       then [(no_memory, ping_datagram (0, sample_a2)), (no_memory, ping_datagram (1, sample_a2))] else [])"
  using sample_pings_handled [OF assms] started_threads by blast

lemma sample_ping_published:
  assumes "bth0_unlocked nd" and "published nd = []"
  shows "\<exists>tr s'. thread_run sample_env dotted_quad (idle, started nd) tr (idle, s')
    \<and> events_by (Some BTH0) (published (sys_node s')) = ping_events nd 0 sample_a2 @ ping_events nd 1 sample_a2"
proof -
  from sample_ping_threads [OF assms(1)] obtain tr s' where
    run: "thread_run sample_env dotted_quad (idle, started nd) tr (idle, s')"
    and tr: "\<And>j. handed j tr = (if j = Some BTH0
       then [(no_memory, ping_datagram (0, sample_a2)), (no_memory, ping_datagram (1, sample_a2))] else [])" by blast
  have types: "\<forall>i. recv_type (recs (started nd) i) = i" by simp
  from thread_alone [OF run types refl] obtain t ks where
    t: "sys_run sample_env dotted_quad (started nd) ks t" "handed (Some BTH0) ks = handed (Some BTH0) tr"
      "events_by (Some BTH0) (published (sys_node t)) = events_by (Some BTH0) (published (sys_node s'))" .
  from run_pings [OF t(1) types, of "[(0, sample_a2), (1, sample_a2)]"] assms sample_clean
  have "events_by (Some BTH0) (published (sys_node s')) = ping_events nd 0 sample_a2 @ ping_events nd 1 sample_a2"
    by (simp add: started_facts(4) t(2) tr flip: t(3))
  with run show ?thesis by blast
qed

theorem pings_received_witness:
  "\<exists>nd tr s'. new_R2SonicNode (\<lambda>_ v. Inr v) sample_params = Inr nd \<and> thread_run sample_env dotted_quad (idle, started nd) tr (idle, s')
    \<and> events_by (Some BTH0) (published (sys_node s')) = ping_events nd 0 sample_a2 @ ping_events nd 1 sample_a2
    \<and> length (events_by (Some BTH0) (published (sys_node s'))) = 4"
proof -
  obtain nd where nd: "new_R2SonicNode (\<lambda>_ v. Inr v) sample_params = Inr nd"
    and idle: "bth0_unlocked nd" "pub_detections nd" "pub_bth0 nd" "published nd = []"
    by (rule sample_publisher)
  from sample_ping_threads [OF idle(1)] obtain tr s' where
    run: "thread_run sample_env dotted_quad (idle, started nd) tr (idle, s')"
    and tr: "\<And>j. handed j tr = (if j = Some BTH0
       then [(no_memory, ping_datagram (0, sample_a2)), (no_memory, ping_datagram (1, sample_a2))] else [])" by blast
  have "events_by (Some BTH0) (published (sys_node s')) = ping_events nd 0 sample_a2 @ ping_events nd 1 sample_a2"
    using pings_received [OF run _ refl, of "[(0, sample_a2), (1, sample_a2)]"] idle(1,4) sample_clean
    by (simp add: started_facts(4) tr start_system_def new_receiver_def)
  moreover from this idle(2,3) have "length (events_by (Some BTH0) (published (sys_node s'))) = 4"
    by (simp add: ping_events_def)
  ultimately show ?thesis using nd run by blast
qed

text \<open>An image of two bins.\<close>

definition two_bins_datagrams :: "u8 list list" where
  "two_bins_datagrams = [packet_bytes AID0 0 [(H0, sample_header), (A1, replicate 28 0)],
     packet_bytes AID0 0 [(M0, one_sample 2 0 1 0 7)], packet_bytes AID0 0 [(M0, one_sample 2 1 1 0 9)]]"

lemma two_bins_buffers:
  "transmits two_bins (map (\<lambda>b. (b, mk_packet AID0 0)) (buffers (replicate RECV_BUFFER 0) two_bins_datagrams))"
proof -
  let ?h = "packet_bytes AID0 0 [(H0, sample_header), (A1, replicate 28 0)]"
  let ?p1 = "packet_bytes AID0 0 [(M0, one_sample 2 0 1 0 7)]" and ?p2 = "packet_bytes AID0 0 [(M0, one_sample 2 1 1 0 9)]"
  have len: "length ?h + 2 \<le> RECV_BUFFER" "length ?p1 \<le> RECV_BUFFER" "length ?p2 \<le> RECV_BUFFER"
    by (simp_all add: RECV_BUFFER_def sample_header_def one_sample_def)
  then obtain n where n: "RECV_BUFFER = length ?h + 2 + n" by (metis le_Suc_ex)
  then have "replicate RECV_BUFFER (0 :: u8) = replicate (length ?h) 0 @ 0 # 0 # replicate n 0"
    unfolding n by (simp only: replicate_add numeral_2_eq_2 replicate_Suc replicate_0 append_Cons append_Nil append_assoc)
  then have b0: "store_datagram ?h (replicate RECV_BUFFER 0) = ?h @ 0 # 0 # replicate n 0"
    using store_in_front [of ?h "replicate RECV_BUFFER 0"] len(1) by (simp del: length_packet_bytes)
  obtain z1 z2 where b: "store_datagram ?p1 (?h @ 0 # 0 # replicate n 0) = ?p1 @ z1"
      "store_datagram ?p2 (?p1 @ z1) = ?p2 @ z2"
    using store_in_front [OF len(2)] store_in_front [OF len(3)] by blast
  have "list_all2 (carries (sent_samples two_bins) 0 2 1) [(?p1 @ z1, mk_packet AID0 0), (?p2 @ z2, mk_packet AID0 0)]
      (map (\<lambda>d. M0_Body_of (take 32 d)) [one_sample 2 0 1 0 7, one_sample 2 1 1 0 9])"
    using one_sample_carries_any [of 0 2 0 1 "sent_samples two_bins" 7 z1]
      one_sample_carries_any [of 1 2 0 1 "sent_samples two_bins" 9 z2]
    by (simp add: two_bins_def)
  from two_bins_sent [OF sample_ping_header this] show ?thesis
    by (simp add: two_bins_datagrams_def b0 b del: length_packet_bytes)
qed

lemma sample_image_threads:
  assumes "receives_images nd"
  obtains tr s' where "thread_run sample_env dotted_quad (idle, started nd) tr (idle, s')"
    "handed (Some AID0) tr = map (\<lambda>bs. (no_memory, Datagram bs)) two_bins_datagrams"
proof -
  let ?evs = "map (\<lambda>bs. (no_memory, Datagram bs)) two_bins_datagrams"
  let ?qs = "map (\<lambda>b. (b, mk_packet AID0 0)) (buffers (replicate RECV_BUFFER 0) two_bins_datagrams)"
  have raw: "\<forall>q \<in> set ?qs. raw_fits nd q"
    using buffers_sized [of _ "replicate RECV_BUFFER 0" two_bins_datagrams] by (auto simp: raw_fits_def RECV_BUFFER_def mk_packet_def)
  have "length (map fst ?evs) = length ?qs" by (simp add: buffers_length)
  from transmitted_published [OF two_bins_buffers this raw assms] obtain nd' where
    "publish_all (map fst ?evs) ?qs nd = Some (Inr (), nd')" by blast
  moreover have evs: "map snd ?evs = map Datagram two_bins_datagrams" by simp
  ultimately have "\<exists>rc'. handle_all ?evs (recs (set_phase (Some AID0) Receiving (started nd)) (Some AID0), nd) = (rc', nd')
      \<and> recv_phase rc' = Receiving"
    using images_handled [OF evs started_facts(1) [of "Some AID0" nd]] started_facts(2,3) [of "Some AID0" nd]
    by (simp only:)
  then obtain rc' where "handle_all ?evs (recs (set_phase (Some AID0) Receiving (started nd)) (Some AID0), nd) = (rc', nd')"
      "recv_phase rc' = Receiving" by blast
  from started_threads [OF this] that show ?thesis by auto
qed

theorem images_received_witness:
  "\<exists>nd tr s' img. new_R2SonicNode (\<lambda>_ v. Inr v) sample_params = Inr nd \<and> thread_run sample_env dotted_quad (idle, started nd) tr (idle, s')
    \<and> images_of (published (sys_node s')) = [img]
    \<and> pixel 1 (image_data img) 0 0 = 7 \<and> pixel 1 (image_data img) 1 0 = 9"
proof -
  obtain nd where nd: "new_R2SonicNode (\<lambda>_ v. Inr v) sample_params = Inr nd"
    and idle: "published nd = []" "receives_images nd"
    by (rule sample_publisher)
  let ?qs = "map (\<lambda>b. (b, mk_packet AID0 0)) (buffers (replicate RECV_BUFFER 0) two_bins_datagrams)"
  from sample_image_threads [OF idle(2)] obtain tr s' where
    run: "thread_run sample_env dotted_quad (idle, started nd) tr (idle, s')"
      "handed (Some AID0) tr = map (\<lambda>bs. (no_memory, Datagram bs)) two_bins_datagrams" .
  have start: "recv_buffer (recs (started nd) (Some AID0)) = replicate RECV_BUFFER 0" "\<forall>i. recv_type (recs (started nd) i) = i"
    by (simp_all add: start_system_def new_receiver_def)
  have "\<exists>imgs. images_of (published (sys_node s')) = images_of (published (sys_node (started nd))) @ imgs
      \<and> list_all2 (shows_sent (act_frame (sys_node (started nd)))) [two_bins] imgs"
  proof (rule images_received [OF run(1) start(2) refl, where bss = two_bins_datagrams])
    show "list_all2 transmits [two_bins] [?qs]" using two_bins_buffers by simp
    show "map snd (handed (Some AID0) tr) = map Datagram two_bins_datagrams"
      by (simp add: run(2) comp_def)
  qed (simp_all add: start(1) started_facts(4) idle(2))
  then obtain img where img: "images_of (published (sys_node s')) = [img]" "shows_sent (act_frame nd) two_bins img"
    by (auto simp: started_facts(4) idle(1) list_all2_Cons1)
  have "pixel 1 (image_data img) k 0 = (if k = 0 then 7 else 9)" if "k < 2" for k
    using img(2) that by (simp add: shows_sent_def two_bins_def)
  from this [of 0] this [of 1] nd run(1) img(1) show ?thesis by auto
qed

text \<open>The non-interference, on the run of the pings.\<close>

theorem receivers_do_not_interfere_witness:
  "\<exists>nd tr s'. new_R2SonicNode (\<lambda>_ v. Inr v) sample_params = Inr nd \<and> thread_run sample_env dotted_quad (idle, started nd) tr (idle, s')
    \<and> length (handed (Some BTH0) tr) = 2 \<and> recv_buffer (recs s' (Some AID0)) = replicate RECV_BUFFER 0"
proof -
  obtain nd where nd: "new_R2SonicNode (\<lambda>_ v. Inr v) sample_params = Inr nd" "bth0_unlocked nd"
    by (rule sample_publisher)
  from sample_ping_threads [OF nd(2)] obtain tr s' where
    run: "thread_run sample_env dotted_quad (idle, started nd) tr (idle, s')"
    and tr: "\<And>j. handed j tr = (if j = Some BTH0
       then [(no_memory, ping_datagram (0, sample_a2)), (no_memory, ping_datagram (1, sample_a2))] else [])" by blast
  have "handle_all (handed (Some AID0) tr) (recs (started nd) (Some AID0), sys_node (started nd))
      = (recs (started nd) (Some AID0), sys_node (started nd))" by (simp add: tr)
  from receivers_do_not_interfere [OF run _ refl this]
  have "recv_buffer (recs s' (Some AID0)) = replicate RECV_BUFFER 0"
    by (simp add: start_system_def new_receiver_def)
  moreover have "length (handed (Some BTH0) tr) = 2" by (simp add: tr)
  ultimately show ?thesis using nd(1) run by blast
qed

text \<open>Two threads inside their handlers at once: a ping and the header packet of an image have arrived.\<close>

lemma two_at_once:
  fixes nd :: node
  defines "s \<equiv> set_phase (Some AID0) Receiving (set_phase (Some BTH0) Receiving (started nd))"
  obtains tr w s' where "thread_run sample_env dotted_quad (idle, started nd) tr (w, s')"
    "w (Some BTH0) \<noteq> None" "w (Some AID0) \<noteq> None"
proof -
  let ?s1 = "set_phase (Some BTH0) Receiving (started nd)"
  have "running ?s1" "up ?s1" "phase ?s1 (Some AID0) = Binding 0" "running (started nd)" "up (started nd)"
      "phase (started nd) (Some BTH0) = Binding 0"
    by (simp_all add: running_set_phase start_system_def phase_def new_receiver_def running_def)
  then have "sys_run sample_env dotted_quad (started nd) ([Internal, Internal] @ [Internal, Internal]) s"
    unfolding s_def by (intro run_append [OF bound_run bound_run]) simp_all
  moreover have "\<forall>i. phase s i \<noteq> Waiting" by (simp add: s_def start_system_def phase_def new_receiver_def set_phase_def)
  ultimately obtain tr where tr: "thread_run sample_env dotted_quad (idle, started nd) tr (idle, s)"
    using threads_perform by blast
  have s: "running s" "phase s (Some BTH0) = Receiving" "phase s (Some AID0) = Receiving"
    by (simp_all add: s_def running_set_phase)
  let ?bs = "packet_bytes BTH0 0 sample_a2" and ?cs = "packet_bytes AID0 0 [(H0, sample_header), (A1, replicate 28 0)]"
  from thread_takes [OF s(1,2), of idle sample_env dotted_quad no_memory ?bs] obtain c1 s1 where
    1: "thread_step sample_env dotted_quad (Received (Some BTH0) no_memory (Datagram ?bs)) (idle, s)
        (idle(Some BTH0 := Some ((no_memory, ?bs), c1)), s1)" "running s1" "phase s1 = phase s" by auto
  from thread_takes [of s1 "Some AID0" "idle(Some BTH0 := Some ((no_memory, ?bs), c1))" sample_env dotted_quad no_memory ?cs]
    1(2,3) s(3) obtain c2 s2 where
    2: "thread_step sample_env dotted_quad (Received (Some AID0) no_memory (Datagram ?cs)) (idle(Some BTH0 := Some ((no_memory, ?bs), c1)), s1)
        (idle(Some BTH0 := Some ((no_memory, ?bs), c1), Some AID0 := Some ((no_memory, ?cs), c2)), s2)" by auto
  from run_step [of "thread_step sample_env dotted_quad", OF run_step [of "thread_step sample_env dotted_quad", OF tr 1(1)] 2] that
  show ?thesis by force
qed

theorem threads_refine_handlers_witness:
  "\<exists>nd tr w s' t tr'. new_R2SonicNode (\<lambda>_ v. Inr v) sample_params = Inr nd
    \<and> thread_run sample_env dotted_quad (idle, started nd) tr (w, s') \<and> w (Some BTH0) \<noteq> None \<and> w (Some AID0) \<noteq> None
    \<and> sys_run sample_env dotted_quad (started nd) tr' t \<and> phase t = phase s'
    \<and> handed (Some BTH0) tr = handed (Some BTH0) tr' @ pending (w (Some BTH0))"
proof -
  obtain nd where nd: "new_R2SonicNode (\<lambda>_ v. Inr v) sample_params = Inr nd"
    by (rule sample_publisher)
  obtain tr w s' where run: "thread_run sample_env dotted_quad (idle, started nd) tr (w, s')"
    and busy: "w (Some BTH0) \<noteq> None" "w (Some AID0) \<noteq> None"
    by (rule two_at_once)
  have "\<forall>i. recv_type (recs (started nd) i) = i" by (simp add: start_system_def new_receiver_def)
  from threads_refine_handlers [OF run this] obtain t tr' where
    "sys_run sample_env dotted_quad (started nd) tr' t" "phase t = phase s'"
    "handed (Some BTH0) tr = handed (Some BTH0) tr' @ pending (w (Some BTH0))" by blast
  with nd run busy show ?thesis by blast
qed

end
