(* ===== verification/Published.thy ===== *)
theory Published
  imports Received
begin

text \<open>
  What a subscriber can rely on: a type discipline for the published messages, kept by every step of
  the handlers, and what it says of the messages the threads publish. The image assemblers carry
  their part of it from packet to packet.
\<close>

section \<open>Well-formed messages\<close>

definition info_sized :: "nat \<Rightarrow> PingInfo \<Rightarrow> bool" where
  "info_sized n info \<longleftrightarrow> length (tx_beamwidths info) = n \<and> length (rx_beamwidths info) = n"

definition image_sized :: "RawSonarImage \<Rightarrow> bool" where
  "image_sized img \<longleftrightarrow> (\<exists>n < 65536. unat (beam_count img) = n \<and> info_sized n (img_ping_info img)
     \<and> length (img_tx_delays img) = n \<and> length (img_tx_angles img) = n \<and> length (img_rx_angles img) = n)"

text \<open>An event of a node with the parameters \<open>P\<close>.\<close>

fun event_ok :: "Parameters \<Rightarrow> ros_event \<Rightarrow> bool" where
  "event_ok P (PubDetections m) \<longleftrightarrow> topic_detections (topics P) \<noteq> []
     \<and> frame_id (det_header m) = tx_frame_id (sonar P)
     \<and> (\<exists>n < 65536. arrays_sized n m \<and> info_sized n (det_ping_info m))"
| "event_ok P (PubBTH0 m) \<longleftrightarrow> topic_bth0 (topics P) \<noteq> []
     \<and> raw_frame_id m = tx_frame_id (sonar P) \<and> length (raw_data m) < 65536"
| "event_ok P (PubAID0 m) \<longleftrightarrow> topic_aid0 (topics P) \<noteq> []
     \<and> raw_frame_id m = tx_frame_id (sonar P) \<and> length (raw_data m) < 65536"
| "event_ok P (PubImage img) \<longleftrightarrow> topic_acoustic_image (topics P) \<noteq> []
     \<and> frame_id (img_header img) = tx_frame_id (sonar P) \<and> image_sized img"

section \<open>The conversions\<close>

lemma info_sized_h02PingInfo:
  assumes "h02PingInfo buf s m = Inr info" and "load_H0_Body buf (H0_body s) = Inr b"
  shows "info_sized (unat (get (H0_Beams b))) info"
  using assms by (auto simp: h02PingInfo_eq info_sized_def)

lemma detections_sized:
  assumes "bth02SonarDetections buf pkt m = Inr m'"
  shows "\<exists>n < 65536. arrays_sized n m' \<and> info_sized n (det_ping_info m')"
proof -
  obtain h0 b su vs s where vs: "m' = detections_of b (frame_id (det_header m)) vs"
      "length vs = unat (get (H0_Beams b))"
    using assms by (rule detections_cases)
  have "length vs < 65536" using unat_bound [of "get (H0_Beams b)"] vs(2) by simp
  then show ?thesis
    by (intro exI [of _ "length vs"]) (simp add: vs(1) detections_of_def arrays_sized_def info_sized_def)
qed

lemma raw_sized: "packet2RawPacket buf pkt m = Inr m' \<Longrightarrow> length (raw_data m') < 65536"
  using unat_bound [where ?'a = 16] by (auto simp: packet2RawPacket_def packet_end_def res_simps Let_def min.strict_coboundedI2)

section \<open>The assemblers\<close>

lemma header_beam_sizes:
  assumes "header_beam buf pkt i img = Inr img'"
  shows "img_ping_info img' = img_ping_info img \<and> beam_count img' = beam_count img
    \<and> length (img_tx_delays img') = length (img_tx_delays img)
    \<and> length (img_tx_angles img') = length (img_tx_angles img)
    \<and> length (img_rx_angles img') = length (img_rx_angles img)"
  using assms by (auto simp: header_beam_def res_simps Let_def)

lemma header_sized:
  assumes "add_header buf pkt a = Inr (c, a')"
  shows "image_sized (sonar_image a')"
proof -
  obtain h0 header info b img where b: "load_H0_Body buf (H0_body h0) = Inr b"
    and info: "h02PingInfo buf h0 (img_ping_info (sonar_image a)) = Inr info"
    and img: "efold (header_beam buf pkt) [0..<unat (get (H0_Beams b))] ((sonar_image a)\<lparr>img_header := header,
        img_ping_info := info, image_dtype := DTYPE_UINT8, sample0 := 0, beam_count := ucast (get (H0_Beams b)),
        img_tx_delays := vec_resize (unat (get (H0_Beams b))) 0 (img_tx_delays (sonar_image a)),
        img_tx_angles := vec_resize (unat (get (H0_Beams b))) 0 (img_tx_angles (sonar_image a)),
        img_rx_angles := vec_resize (unat (get (H0_Beams b))) 0 (img_rx_angles (sonar_image a))\<rparr>) = Inr img"
    and a': "sonar_image a' = img"
    using assms by (auto simp: add_header_def res_simps Let_def)
  define n where "n = unat (get (H0_Beams b))"
  have n: "n < 65536" using unat_bound [of "get (H0_Beams b)"] by (simp add: n_def)
  let ?ok = "\<lambda>img. unat (beam_count img) = n \<and> info_sized n (img_ping_info img) \<and> length (img_tx_delays img) = n
    \<and> length (img_tx_angles img) = n \<and> length (img_rx_angles img) = n"
  have "?ok img"
    by (rule efold_upt_invariant [OF img, where P = "\<lambda>_. ?ok"])
      (use info_sized_h02PingInfo [OF info b] header_beam_sizes in \<open>auto simp: n_def\<close>)
  then show ?thesis using n by (auto simp: image_sized_def a')
qed

lemma section_sized:
  assumes "add_section buf m0 a = Some (Inr (c, a'))" and "image_sized (sonar_image a)"
  shows "image_sized (sonar_image a')"
  using assms by (auto simp: add_section_def finish_section_def size_image_def image_sized_def Let_def res_simps
      split: sum.splits if_splits)

lemma addPacket_sized:
  assumes "addPacket buf pkt a = Some (Inr (c, a'))" and "image_sized (sonar_image a)"
  shows "image_sized (sonar_image a')"
  using assms header_sized section_sized
  by (auto simp: addPacket_def split: sum.splits bool.splits if_splits)

lemma new_assembler_sized: "image_sized (sonar_image (new_assembler r h))"
  by (simp add: image_sized_def info_sized_def new_assembler_def RawSonarImage0_def PingInfo0_def)

section \<open>The handlers\<close>

definition node_typed :: "Parameters \<Rightarrow> node \<Rightarrow> bool" where
  "node_typed P nd \<longleftrightarrow> sonar (parameters nd) = sonar P
     \<and> pub_detections nd = shouldAdvertise (topic_detections (topics P))
     \<and> pub_bth0 nd = shouldAdvertise (topic_bth0 (topics P))
     \<and> pub_image nd = shouldAdvertise (topic_acoustic_image (topics P))
     \<and> pub_aid0 nd = shouldAdvertise (topic_aid0 (topics P))
     \<and> map_sorted (assemblers nd)
     \<and> (\<forall>k a. map_find k (assemblers nd) = Some a \<longrightarrow> image_sized (sonar_image a))
     \<and> (\<forall>e \<in> set (published nd). event_ok P e)"

text \<open>An action keeps \<open>I\<close>, and the value it returns satisfies \<open>Q\<close>.\<close>

definition act_post :: "(node \<Rightarrow> bool) \<Rightarrow> 'a act \<Rightarrow> ('a \<Rightarrow> bool) \<Rightarrow> bool" where
  "act_post I m Q \<longleftrightarrow> (\<forall>nd r nd'. m nd = Some (r, nd') \<longrightarrow> I nd \<longrightarrow> I nd' \<and> (\<forall>x. r = Inr x \<longrightarrow> Q x))"

lemma act_post_pres: "act_post I m Q \<Longrightarrow> act_pres I m"
  by (simp add: act_post_def act_pres_def)

lemma act_pres_post_bind:
  assumes "act_post I m Q" and "\<And>x. Q x \<Longrightarrow> act_pres I (k x)"
  shows "act_pres I (act_bind m k)"
  unfolding act_pres_def
proof (intro allI impI)
  fix nd r nd' assume run: "act_bind m k nd = Some (r, nd')" and nd: "I nd"
  then obtain q nd1 where q: "m nd = Some (q, nd1)"
    by (auto simp: act_bind_def split: option.splits)
  then have "I nd1" "\<And>x. q = Inr x \<Longrightarrow> Q x" using assms(1) nd by (simp_all add: act_post_def)
  then show "I nd'"
    using run q assms(2) by (cases q) (auto simp: act_bind_def act_pres_def)
qed

lemma act_post_get: "(\<And>nd. I nd \<Longrightarrow> Q (f nd)) \<Longrightarrow> act_post I (act_get f) Q"
  by (simp add: act_post_def act_get_def)

lemma act_post_res: "(\<And>x. r = Inr x \<Longrightarrow> Q x) \<Longrightarrow> act_post I (act_res r) Q"
  by (simp add: act_post_def act_res_def)

lemma act_post_add:
  "image_sized (sonar_image a) \<Longrightarrow> act_post I (act_addPacket buf pkt a) (\<lambda>(c, a'). image_sized (sonar_image a'))"
  using addPacket_sized by (auto simp: act_post_def act_addPacket_def)

lemma typed_get:
  "act_post (node_typed P) (act_get act_frame) (\<lambda>f. f = tx_frame_id (sonar P))"
  "act_post (node_typed P) (act_get (\<lambda>nd. shouldPublish (pub_detections nd))) (\<lambda>b. b \<longleftrightarrow> topic_detections (topics P) \<noteq> [])"
  "act_post (node_typed P) (act_get (\<lambda>nd. shouldPublish (pub_bth0 nd))) (\<lambda>b. b \<longleftrightarrow> topic_bth0 (topics P) \<noteq> [])"
  "act_post (node_typed P) (act_get (\<lambda>nd. shouldPublish (pub_aid0 nd))) (\<lambda>b. b \<longleftrightarrow> topic_aid0 (topics P) \<noteq> [])"
  "act_post (node_typed P) (act_get (\<lambda>nd. shouldPublish (pub_image nd))) (\<lambda>b. b \<longleftrightarrow> topic_acoustic_image (topics P) \<noteq> [])"
  "act_post (node_typed P) (act_get (\<lambda>nd. assembler_at mem ping (assemblers nd))) (\<lambda>a. image_sized (sonar_image a))"
  by (auto intro!: act_post_get simp: node_typed_def act_frame_def shouldPublish_def shouldAdvertise_def
      assembler_at_def new_assembler_sized split: option.splits)

lemma typed_event: "event_ok P e \<Longrightarrow> act_pres (node_typed P) (publish_event e)"
  by (rule act_pres_event) (simp add: node_typed_def)

text \<open>The steps of the proofs: a read with what it returns, or a step that keeps the types by itself.\<close>

lemmas typed_read = act_pres_post_bind [OF typed_get(1)] act_pres_post_bind [OF typed_get(2)]
  act_pres_post_bind [OF typed_get(3)] act_pres_post_bind [OF typed_get(4)] act_pres_post_bind [OF typed_get(5)]
  act_pres_post_bind [OF typed_get(6)]

lemma detections_typed: "act_pres (node_typed P) (publish_detections buf pkt)"
proof -
  have conv: "act_post (node_typed P) (act_res (bth02SonarDetections buf pkt m))
      (\<lambda>m'. \<exists>n < 65536. arrays_sized n m' \<and> info_sized n (det_ping_info m'))" for m
    by (rule act_post_res) (rule detections_sized)
  show ?thesis
    unfolding publish_detections_def
  proof (rule typed_read(2), split if_split, intro conjI impI)
    fix should assume "should \<longleftrightarrow> topic_detections (topics P) \<noteq> []" and "\<not> \<not> should"
    then show "act_pres (node_typed P) (act_bind (act_get msg_detections) (\<lambda>m.
        act_bind (act_res (bth02SonarDetections buf pkt m)) (\<lambda>m.
        act_bind (act_get act_frame) (\<lambda>f.
        act_bind (act_mod (\<lambda>nd. nd\<lparr>msg_detections := set_detections_frame f m\<rparr>)) (\<lambda>_.
        publish_event (PubDetections (set_detections_frame f m)))))))"
      by (intro act_pres_bind [OF act_pres_basic(3)] act_pres_post_bind [OF conv] typed_read(1)
          act_pres_bind [OF act_pres_write(1)] typed_event)
        (auto simp: node_typed_def set_detections_frame_def arrays_sized_def)
  qed (rule act_pres_basic)
qed

lemma raw_post: "act_post I (act_res (packet2RawPacket buf pkt m)) (\<lambda>m'. length (raw_data m') < 65536)"
  by (rule act_post_res) (rule raw_sized)

lemma raw_bth0_typed: "act_pres (node_typed P) (publish_raw_bth0 buf pkt)"
  unfolding publish_raw_bth0_def
  by (rule typed_read(3), split if_split)
    (auto simp: node_typed_def intro!: act_pres_basic act_pres_bind [OF act_pres_basic(3)]
      act_pres_post_bind [OF raw_post] typed_read(1) act_pres_bind [OF act_pres_write(1)] typed_event)

lemma raw_aid0_typed: "act_pres (node_typed P) (publish_raw_aid0 buf pkt)"
  unfolding publish_raw_aid0_def
  by (rule typed_read(4), split if_split)
    (auto simp: node_typed_def intro!: act_pres_basic act_pres_bind [OF act_pres_basic(3)]
      act_pres_post_bind [OF raw_post] typed_read(1) act_pres_bind [OF act_pres_write(1)] typed_event)

lemma typed_put:
  assumes "image_sized (sonar_image a)"
  shows "act_pres (node_typed P) (act_mod (\<lambda>nd. nd\<lparr>assemblers := map_put k a (assemblers nd)\<rparr>))"
  using assms by (intro act_pres_write(1)) (simp add: node_typed_def map_sorted_put map_find_put)

lemma typed_clean:
  "act_pres (node_typed P) (act_mod (\<lambda>nd. nd\<lparr>assemblers := cleanMsgMap k (map_erase k (assemblers nd))\<rparr>))"
  by (intro act_pres_write(1))
    (simp add: node_typed_def map_sorted_erase map_sorted_clean cleanMsgMap_find map_find_erase)

lemma image_typed: "act_pres (node_typed P) (publish_image mem buf pkt ping)"
  unfolding publish_image_def
proof (rule typed_read(5), split if_split, intro conjI impI typed_read(6))
  fix should :: bool and a :: assembler
  assume should: "should \<longleftrightarrow> topic_acoustic_image (topics P) \<noteq> []" "\<not> \<not> should" and a: "image_sized (sonar_image a)"
  have last: "act_pres (node_typed P) (case p of (cpl, a) \<Rightarrow>
      act_bind (act_mod (\<lambda>nd. nd\<lparr>assemblers := map_put ping a (assemblers nd)\<rparr>)) (\<lambda>_.
      if cpl then
        act_bind (act_get act_frame) (\<lambda>f. act_bind (publish_event (PubImage (set_image_frame f (sonar_image a)))) (\<lambda>_.
        act_mod (\<lambda>nd. nd\<lparr>assemblers := cleanMsgMap ping (map_erase ping (assemblers nd))\<rparr>)))
      else act_return ()))" if "case p of (c, a') \<Rightarrow> image_sized (sonar_image a')" for p
    using that should
    by (auto simp: set_image_frame_def image_sized_def intro!: act_pres_bind [OF typed_put] typed_read(1)
        act_pres_bind [OF typed_event] typed_clean act_pres_basic)
  show "act_pres (node_typed P) (act_bind (act_mod (\<lambda>nd. nd\<lparr>assemblers := map_put ping a (assemblers nd)\<rparr>)) (\<lambda>_.
      act_bind (act_addPacket buf pkt a) (\<lambda>(cpl, a).
      act_bind (act_mod (\<lambda>nd. nd\<lparr>assemblers := map_put ping a (assemblers nd)\<rparr>)) (\<lambda>_.
      if cpl then
        act_bind (act_get act_frame) (\<lambda>f. act_bind (publish_event (PubImage (set_image_frame f (sonar_image a)))) (\<lambda>_.
        act_mod (\<lambda>nd. nd\<lparr>assemblers := cleanMsgMap ping (map_erase ping (assemblers nd))\<rparr>)))
      else act_return ()))))"
    by (intro act_pres_bind [OF typed_put [OF a]] act_pres_post_bind [OF act_post_add [OF a]] last)
qed (rule act_pres_basic)

lemma bth0_typed: "act_pres (node_typed P) (publish_bth0 buf pkt)"
  unfolding publish_bth0_def
  by (intro act_rules detections_typed raw_bth0_typed) (simp_all add: node_typed_def)

lemma aid0_typed: "act_pres (node_typed P) (publish_aid0 mem buf pkt)"
  unfolding publish_aid0_def
  by (intro act_rules raw_aid0_typed image_typed) (simp_all add: node_typed_def)

lemma receiveImpl_typed: "act_pres (node_typed P) (receiveImpl mem i buf)"
  by (auto simp: receiveImpl_def split: option.split packet_type.split intro!: act_rules bth0_typed aid0_typed)

section \<open>The system\<close>

lemma typed_step:
  assumes "sys_move env pton s s'" and typed: "node_typed P (sys_node s)"
  shows "node_typed P (sys_node s')"
  using assms(1)
proof (cases rule: sys_move_cases)
  case (handle i mem ev rc nd)
  from handle(4) have "node_typed P nd"
    by (cases rule: handler_cases) (use typed receiveImpl_typed in \<open>auto simp: act_pres_def\<close>)
  then show ?thesis by (simp add: handle(1))
next
  case (update what ps P')
  from batch_frame [OF update(4) [symmetric]] typed show ?thesis
    by (simp add: update(1) node_typed_def)
qed (use typed in simp_all)

lemma typed_start:
  "new_R2SonicNode decl P0 = Inr nd \<Longrightarrow> node_typed (parameters nd) (sys_node (start_system nd bufs))"
  by (auto simp: new_R2SonicNode_def start_system_def node_typed_def res_simps map_sorted_def map_find_def)

lemma run_typed:
  assumes start: "new_R2SonicNode decl P = Inr nd" and run: "(sys_move env pton)\<^sup>*\<^sup>* (start_system nd bufs) s"
  shows "node_typed (parameters nd) (sys_node s)"
  using run by (induction rule: rtranclp_induct) (auto intro: typed_start [OF start] typed_step)

text \<open>
  C11: whatever the program receives and whatever its parameters are set to, every message that a
  receiver has published from the datagrams it is through with is well formed, however the
  statements of the threads have interleaved: it is on a topic that is advertised and has the
  configured frame; the arrays of a detections message and of its ping information have one length;
  a raw packet is shorter than 64 KiB; the delays, angles and beam widths of an image are as many as
  its beam count.
\<close>

theorem published_well_formed:
  assumes start: "new_R2SonicNode decl P = Inr nd"
    and run: "thread_run env pton (idle, start_system nd bufs) tr (w, s)"
    and e: "e \<in> set (published (sys_node s))" and through: "w (event_source e) = None"
  shows "event_ok (parameters nd) e"
proof -
  have "\<forall>i. recv_type (recs (start_system nd bufs) i) = i" by simp
  from thread_alone [OF run this through] obtain t ks where
    t: "sys_run env pton (start_system nd bufs) ks t"
      "events_by (event_source e) (published (sys_node t)) = events_by (event_source e) (published (sys_node s))" .
  have "e \<in> set (events_by (event_source e) (published (sys_node s)))" using e by (simp add: events_by_def)
  then have "e \<in> set (published (sys_node t))" unfolding t(2) [symmetric] by (simp add: events_by_def)
  with run_typed [OF start run_moves [OF t(1)]] show ?thesis by (simp add: node_typed_def)
qed

theorem published_well_formed_witness:
  "\<exists>nd tr s m. new_R2SonicNode (\<lambda>_ v. Inr v) sample_params = Inr nd
    \<and> thread_run sample_env dotted_quad (idle, started nd) tr (idle, s)
    \<and> PubDetections m \<in> set (published (sys_node s)) \<and> event_ok (parameters nd) (PubDetections m)"
proof -
  obtain nd where nd: "new_R2SonicNode (\<lambda>_ v. Inr v) sample_params = Inr nd"
    and idle: "bth0_unlocked nd" "pub_detections nd" "published nd = []"
    by (rule sample_publisher)
  from sample_ping_published [OF idle(1,3)] obtain tr s where
    s: "thread_run sample_env dotted_quad (idle, started nd) tr (idle, s)"
      "events_by (Some BTH0) (published (sys_node s)) = ping_events nd 0 sample_a2 @ ping_events nd 1 sample_a2"
    by blast
  let ?m = "ping_detections (act_frame nd) sample_a2"
  have "PubDetections ?m \<in> set (ping_events nd 0 sample_a2 @ ping_events nd 1 sample_a2)"
    using idle(2) by (simp add: ping_events_def)
  then have m: "PubDetections ?m \<in> set (published (sys_node s))"
    unfolding s(2) [symmetric] by (simp add: events_by_def)
  from published_well_formed [OF nd s(1) m refl] have "event_ok (parameters nd) (PubDetections ?m)" .
  with nd s(1) m show ?thesis by blast
qed

end
