(* ===== verification/PingErrors.thy ===== *)
theory PingErrors
  imports Detections
begin

text \<open>
  How the conversion of a BTH0 packet can fail: every optional section is asked for before it is
  read, so no packet of the type makes it throw; what remains is a section or array that reaches
  past the receive buffer.
\<close>

section \<open>Computations that do not throw\<close>

definition only_undefined :: "'a res \<Rightarrow> bool" where
  "only_undefined r \<longleftrightarrow> (\<forall>e. r = Inl e \<longrightarrow> (\<exists>u. e = Undefined u))"

named_theorems no_throw \<open>computations that do not throw\<close>

lemma only_undefined_Inr [no_throw]: "only_undefined (Inr x)"
  by (simp add: only_undefined_def)

lemma only_undefined_bind [no_throw]:
  "only_undefined m \<Longrightarrow> (\<And>x. m = Inr x \<Longrightarrow> only_undefined (f x)) \<Longrightarrow> only_undefined (ebind m f)"
  by (cases m) (auto simp: only_undefined_def)

lemma only_undefined_if [no_throw]:
  "(c \<Longrightarrow> only_undefined r) \<Longrightarrow> (\<not> c \<Longrightarrow> only_undefined s) \<Longrightarrow> only_undefined (if c then r else s)"
  by simp

lemma only_undefined_prod [no_throw]:
  "(\<And>x y. p = (x, y) \<Longrightarrow> only_undefined (f x y)) \<Longrightarrow> only_undefined (case p of (x, y) \<Rightarrow> f x y)"
  by (cases p) simp

lemma only_undefined_rd [no_throw]: "only_undefined (rd buf p n)"
  by (simp add: only_undefined_def rd_def)

lemma only_undefined_load_be [no_throw]: "only_undefined (load_be buf p)"
  unfolding load_be_def by (intro no_throw)

lemma only_undefined_section [no_throw]:
  "only_undefined (section_exists buf s)" "only_undefined (section_end buf s)"
  unfolding section_end_def section_getSize_def section_exists_def section_isType_def
  by (intro no_throw)+

lemma checked_section [no_throw]: "section_exists buf s = Inr True \<Longrightarrow> only_undefined (existanceErrorCheck buf s)"
  by (simp add: existanceErrorCheck_def only_undefined_Inr)

lemma only_undefined_load [no_throw]:
  "only_undefined (load_H0_Body buf p)" "only_undefined (load_A0_Body buf p)" "only_undefined (load_A2_Body buf p)"
  unfolding load_H0_Body_def load_A0_Body_def load_A2_Body_def by (intro no_throw)+

section \<open>A packet of the type\<close>

lemma typed_accessors:
  assumes "packet_isType buf pkt = Inr True"
  shows "only_undefined (BTH0_h0 buf pkt)" "only_undefined (BTH0_r0 buf pkt)" "only_undefined (BTH0_a0 buf pkt)"
    "only_undefined (BTH0_a2 buf pkt)" "only_undefined (BTH0_i1 buf pkt)" "only_undefined (BTH0_q0 buf pkt)"
proof -
  have "typeErrorCheck buf pkt = Inr ()" using assms by (simp add: typeErrorCheck_iff)
  then show "only_undefined (BTH0_h0 buf pkt)" "only_undefined (BTH0_r0 buf pkt)" "only_undefined (BTH0_a0 buf pkt)"
    "only_undefined (BTH0_a2 buf pkt)" "only_undefined (BTH0_i1 buf pkt)" "only_undefined (BTH0_q0 buf pkt)"
    by (simp_all add: BTH0_h0_def BTH0_r0_def BTH0_a0_def BTH0_a2_def BTH0_i1_def BTH0_g0_def BTH0_g1_def
        BTH0_q0_def ebind_assoc) (intro no_throw)+
qed

lemma range_no_throw:
  "packet_isType buf pkt = Inr True \<Longrightarrow> only_undefined (beam_range buf pkt i)"
  unfolding beam_range_def R0_getScaledRange_def R0_getRange_def
  by (intro no_throw typed_accessors)

lemma intensity_no_throw:
  assumes "packet_isType buf pkt = Inr True"
  shows "only_undefined (beam_intensity buf pkt i)"
proof (cases "ebind (BTH0_i1 buf pkt) (section_exists buf)")
  case (Inl e)
  have "only_undefined (ebind (BTH0_i1 buf pkt) (section_exists buf))"
    by (intro no_throw typed_accessors assms)
  with Inl show ?thesis by (simp add: beam_intensity_def only_undefined_def)
next
  case (Inr ex)
  show ?thesis
  proof (cases ex)
    case True
    with Inr obtain s where "BTH0_i1 buf pkt = Inr s" "section_exists buf s = Inr True"
      by (auto simp: res_simps)
    then show ?thesis
      unfolding beam_intensity_def by (simp add: I1_getScaledIntensity_def I1_Intensity_def I1_ScalingFactor_def)
        (intro no_throw)
  qed (simp add: beam_intensity_def Inr no_throw)
qed

lemma tx_angle_no_throw:
  "packet_isType buf pkt = Inr True \<Longrightarrow> only_undefined (beam_tx_angle buf pkt)"
  unfolding beam_tx_angle_def by (intro no_throw typed_accessors)

lemma flag_no_throw:
  "packet_isType buf pkt = Inr True \<Longrightarrow> only_undefined (beam_flag buf pkt i)"
  unfolding beam_flag_def phaseDetect_def magnitudeDetect_def getQualityFlag_def Let_def read_be_u32_def
  by (intro no_throw typed_accessors)

lemma setup_no_throw:
  assumes typed: "packet_isType buf pkt = Inr True"
  shows "only_undefined (bth0_setup buf pkt n)"
    and "bth0_setup buf pkt n = Inr su \<Longrightarrow> has_a2 su \<Longrightarrow>
      \<exists>s. BTH0_a2 buf pkt = Inr s \<and> section_exists buf s = Inr True"
proof -
  show "only_undefined (bth0_setup buf pkt n)"
    unfolding bth0_setup_def A2_body_def A0_body_def Let_def
    by (intro no_throw typed_accessors typed) (auto simp: res_simps existanceErrorCheck_def no_throw)
  show "\<exists>s. BTH0_a2 buf pkt = Inr s \<and> section_exists buf s = Inr True"
    if "bth0_setup buf pkt n = Inr su" "has_a2 su"
    using that by (auto simp: bth0_setup_def res_simps)
qed

lemma rx_angle_no_throw:
  assumes typed: "packet_isType buf pkt = Inr True" and su: "bth0_setup buf pkt n = Inr su"
  shows "only_undefined (beam_rx_angle buf pkt su i s)"
proof (cases "has_a2 su")
  case True
  with setup_no_throw(2) [OF typed su] obtain a where "BTH0_a2 buf pkt = Inr a" "section_exists buf a = Inr True"
    by blast
  then show ?thesis
    by (simp add: beam_rx_angle_def True Let_def beam_angle_step_def A2_AngleStep_def) (intro no_throw)
next
  case False
  then show ?thesis by (simp add: beam_rx_angle_def no_throw)
qed

lemma read_beams_no_throw:
  assumes typed: "packet_isType buf pkt = Inr True" and su: "bth0_setup buf pkt n = Inr su"
  shows "only_undefined (read_beams buf pkt su m)"
proof (induction m)
  case 0
  then show ?case by (simp add: no_throw)
next
  case (Suc m)
  show ?case
    unfolding read_beams.simps read_beam_def
    by (intro no_throw Suc range_no_throw intensity_no_throw tx_angle_no_throw flag_no_throw
        rx_angle_no_throw [OF _ su] typed)
qed

text \<open>
  C15: converting a packet of the type BTH0 never throws: for whatever bytes, it returns or it
  reads past the buffer.
\<close>

theorem bth0_conversion_never_throws:
  assumes typed: "packet_isType buf pkt = Inr True"
  shows "(\<exists>m'. bth02SonarDetections buf pkt m = Inr m')
    \<or> (\<exists>u. bth02SonarDetections buf pkt m = Inl (Undefined u))"
proof -
  have "only_undefined (bth02SonarDetections buf pkt m)"
    unfolding bth02SonarDetections_eq
    by (intro no_throw typed_accessors typed setup_no_throw(1) read_beams_no_throw) assumption+
  then show ?thesis
    by (cases "bth02SonarDetections buf pkt m") (auto simp: only_undefined_def)
qed

theorem bth0_conversion_never_throws_witness:
  "(\<exists>m'. bth02SonarDetections (packet_bytes BTH0 0 [] @ [0, 0]) (mk_packet BTH0 0) SonarDetections0 = Inr m')
    \<or> (\<exists>u. bth02SonarDetections (packet_bytes BTH0 0 [] @ [0, 0]) (mk_packet BTH0 0) SonarDetections0 = Inl (Undefined u))"
  using bth0_conversion_never_throws [of "packet_bytes BTH0 0 [] @ [0, 0]" "mk_packet BTH0 0" SonarDetections0]
    packet_type_found [of "[]" BTH0 0 "[]" "[0, 0]" BTH0] by simp

end
