(* ===== verification/ImageBounds.thy ===== *)
theory ImageBounds
  imports PingErrors Assembly
begin

text \<open>
  The samples of a section and the bounds of the image: the place of a sample is not compared with
  the size of the image, so a section that reaches beyond the totals it announces is written outside
  the vector. With the checks of the model, a packet whose \<open>addPacket\<close> returns has stayed inside.
\<close>

section \<open>The loops\<close>

lemma set_sample_Inr:
  assumes "set_sample buf m0 b j i data = Inr data'"
  shows "length data' = length data"
    and "sint i * uint (get (M0_TotalBeams b)) + uint j < int (length data)"
  using assms by (auto simp: set_sample_def res_simps split: if_splits)

lemma set_sample_no_throw:
  assumes "section_exists buf m0 = Inr True"
  shows "only_undefined (set_sample buf m0 b j i data)"
proof -
  have "only_undefined (int_result x)" for x by (simp add: only_undefined_def int_result_def)
  moreover have "only_undefined (M0_body buf m0)" "only_undefined (load_M0_Body buf p)" for p
    unfolding M0_body_def load_M0_Body_def by (intro no_throw checked_section [OF assms])+
  moreover have "only_undefined (Inl (Undefined u) :: 'x res)" for u by (simp add: only_undefined_def)
  ultimately show ?thesis
    unfolding set_sample_def M0_magnitude_def Let_def
    by (intro no_throw checked_section [OF assms])
qed

lemma efold_no_throw:
  assumes "\<And>x s. only_undefined (f x s)"
  shows "only_undefined (efold f xs s)"
  by (induction xs arbitrary: s) (auto intro: no_throw assms)

text \<open>A loop that returns has passed every element, its invariant kept until there.\<close>

lemma efold_visits:
  assumes "efold f xs s = Inr t" and "x \<in> set xs" and "P s"
    and keep: "\<And>y a b. P a \<Longrightarrow> f y a = Inr b \<Longrightarrow> P b"
  shows "\<exists>a b. P a \<and> f x a = Inr b"
  using assms(1-3)
proof (induction xs arbitrary: s)
  case Nil
  then show ?case by simp
next
  case (Cons y ys)
  then obtain a where a: "f y s = Inr a" "efold f ys a = Inr t" by (auto simp: res_simps)
  show ?case
  proof (cases "x = y")
    case True
    with a(1) Cons.prems(3) show ?thesis by blast
  next
    case False
    with Cons.IH [OF a(2)] Cons.prems keep [OF _ a(1)] show ?thesis by simp
  qed
qed

lemma efold_keeps:
  "efold f xs s = Inr t \<Longrightarrow> P s \<Longrightarrow> (\<And>y a b. P a \<Longrightarrow> f y a = Inr b \<Longrightarrow> P b) \<Longrightarrow> P t"
  by (induction xs arbitrary: s) (auto simp: res_simps)

lemma bin_loop_length: "bin_loop buf m0 b j (get (M0_FirstBin b)) data = Inr data' \<Longrightarrow> length data' = length data"
  unfolding bin_loop_fold
  by (rule efold_keeps [where P = "\<lambda>d. length d = length data"]) (auto dest: set_sample_Inr(1))

text \<open>The loops over a section without wrap-around.\<close>

definition section_in_range :: "M0_Body \<Rightarrow> bool" where
  "section_in_range b \<longleftrightarrow> unat (get (M0_FirstBeam b)) + unat (get (M0_Beams b)) \<le> 65535
     \<and> unat (get (M0_FirstBin b)) + unat (get (M0_Bins b)) < 2 ^ 31"

lemma beam_loop_stays_inside:
  assumes range: "section_in_range b" and tile: "in_tile b k j"
    and ret: "beam_loop buf m0 b (get (M0_FirstBeam b)) data = Some (Inr data')"
  shows "k * unat (get (M0_TotalBeams b)) + j < length data"
proof -
  define w where "w = unat (get (M0_TotalBeams b))"
  let ?bins = "\<lambda>j. bin_loop buf m0 b (word_of_nat j) (get (M0_FirstBin b))"
  let ?set = "\<lambda>k. set_sample buf m0 b (word_of_nat j) (word_of_nat k)"
  let ?len = "\<lambda>d. length d = length data"
  have bound: "unat (get (M0_FirstBeam b)) + unat (get (M0_Beams b)) \<le> 65535"
    using range by (simp add: section_in_range_def)
  have kj: "j < 65536" "k < 2 ^ 31" using range tile by (auto simp: section_in_range_def in_tile_def)
  have beams: "efold ?bins [unat (get (M0_FirstBeam b)) ..< unat (get (M0_FirstBeam b)) + unat (get (M0_Beams b))] data = Inr data'"
    using ret unfolding beam_loop_fold [OF bound] by simp
  have jin: "j \<in> set [unat (get (M0_FirstBeam b)) ..< unat (get (M0_FirstBeam b)) + unat (get (M0_Beams b))]"
    using tile by (simp add: in_tile_def)
  from efold_visits [where P = ?len, OF beams jin refl] bin_loop_length obtain a a' where
    a: "length a = length data" "?bins j a = Inr a'" by metis
  have stop: "unat (get (M0_FirstBin b) + ucast (get (M0_Bins b))) = unat (get (M0_FirstBin b)) + unat (get (M0_Bins b))"
    using range by (subst unat_word_ariths) (simp add: section_in_range_def)
  have kin: "k \<in> set [unat (get (M0_FirstBin b)) ..< unat (get (M0_FirstBin b) + ucast (get (M0_Bins b)))]"
    using tile by (simp add: in_tile_def stop)
  from efold_visits [where P = ?len, OF a(2) [unfolded bin_loop_fold] kin a(1)] set_sample_Inr(1) obtain c c' where
    c: "length c = length data" "?set k c = Inr c'" by metis
  have "sint (word_of_nat k :: u32) = int k"
    using kj(2) by (simp add: signed_of_nat signed_take_bit_int_eq_self)
  moreover have "uint (word_of_nat j :: u16) = int j"
    using kj(1) by (simp add: unsigned_of_nat take_bit_nat_eq_self)
  moreover have "uint (get (M0_TotalBeams b)) = int w" by (simp add: w_def)
  ultimately have "int (k * w + j) < int (length data)"
    using set_sample_Inr(2) [OF c(2)] c(1) by (simp only: of_nat_add of_nat_mult)
  then show ?thesis by (simp only: of_nat_less_iff w_def)
qed

section \<open>A section beyond its image\<close>


text \<open>A section that announces an image of one beam and carries the sample of beam 1.\<close>

definition outer_section :: "u8 list" where
  "outer_section = [0, 0, 0, 0, 0, 0, 0, 0, 0, 0, 0, 1, 0, 0, 0, 1, 0, 0, 0, 0,
     0, 1, 0, 1, 0, 1, 0, 1, 0, 0, 0, 0, 7]"


end
