(* ===== verification/Tools.thy ===== *)
theory Tools
  imports DeviceConfig
begin

text \<open>
  The two small programs beside the node: \<open>nodes/discover.cpp\<close>, which broadcasts one R2DD packet
  and prints the R2DI answers until \<open>select\<close> times out, and the node of
  \<open>nodes/rtcm_converter.cpp\<close>, which forwards correction messages. \<open>pton\<close> is the system's \<open>inet_pton\<close>, \<open>ntoa\<close> its \<open>inet_ntoa\<close>, \<open>junk\<close> the
  four bytes an uninitialised \<open>in_addr\<close> holds. A field stored through \<open>htonl\<close> is kept as the
  big-endian value it is.
\<close>

section \<open>The packets of the discovery\<close>

definition GUI_PORT :: u16 where
  "GUI_PORT = 53810"

definition UDP_PORT_CONFIG :: u16 where
  "UDP_PORT_CONFIG = 0x8000 + 0x5232"

record R2DD =
  dd_name :: BE_u32
  dd_gui_ip :: BE_u32
  dd_gui_baseport :: BE_u16
  dd_gui_spare :: BE_u16
  dd_spare1 :: "BE_u32 list"

definition R2DD_mem :: "R2DD \<Rightarrow> u8 list" where
  "R2DD_mem p = be_mem (dd_name p) @ be_mem (dd_gui_ip p) @ be_mem (dd_gui_baseport p)
     @ be_mem (dd_gui_spare p) @ concat (map be_mem (dd_spare1 p))"

record R2DI =
  di_name :: BE_u32
  di_serial :: "u8 list"
  di_part :: "u8 list"
  di_model :: "u8 list"

definition sizeof_R2DI :: nat where
  "sizeof_R2DI = 72"

definition R2DI_of :: "u8 list \<Rightarrow> R2DI" where
  "R2DI_of bs = \<lparr>di_name = field_be bs 0, di_serial = take 12 (drop 4 bs), di_part = take 12 (drop 16 bs),
     di_model = take 12 (drop 28 bs)\<rparr>"

text \<open>The result of \<open>inet_pton\<close> is not looked at: on failure the address is what the memory held.\<close>

definition ip_to_u32 :: "inet_pton \<Rightarrow> u8 list \<Rightarrow> string \<Rightarrow> u32" where
  "ip_to_u32 pton junk ip = get (be_of_mem (case pton ip of Some bs \<Rightarrow> bs | None \<Rightarrow> junk))"

text \<open>Twelve bytes and a NUL, printed as a C string.\<close>

definition print_ascii_field :: "u8 list \<Rightarrow> u8 list" where
  "print_ascii_field field = takeWhile (\<lambda>b. b \<noteq> 0) (take 12 field @ [0])"

section \<open>The program\<close>

definition probe :: "inet_pton \<Rightarrow> u8 list \<Rightarrow> R2DD" where
  "probe pton junk =
     \<lparr>dd_name = set_be 0x52324444, dd_gui_ip = set_be (ip_to_u32 pton junk ''10.0.1.102''),
      dd_gui_baseport = set_be GUI_PORT, dd_gui_spare = set_be 0, dd_spare1 = replicate 8 (set_be 0)\<rparr>"

text \<open>What \<open>select\<close> reports; a readable socket yields a datagram, or \<open>recvfrom\<close> fails.\<close>

datatype 'src wakeup = TimedOut | SelectFailed | Readable 'src "u8 list option"

definition answer_line :: "string \<Rightarrow> R2DI \<Rightarrow> u8 list" where
  "answer_line from r = str_bytes ''Response from '' @ str_bytes from @ str_bytes '': ''
     @ str_bytes ''Serial: '' @ print_ascii_field (di_serial r)
     @ str_bytes ''  Part: '' @ print_ascii_field (di_part r)
     @ str_bytes ''  Model: '' @ print_ascii_field (di_model r) @ [0x0A]"

text \<open>The response is zeroed, then takes what fits of the datagram.\<close>

definition handle_answer :: "('src \<Rightarrow> string) \<Rightarrow> 'src \<Rightarrow> u8 list option \<Rightarrow> u8 list" where
  "handle_answer ntoa src d =
     (case d of
        None \<Rightarrow> []
      | Some bs \<Rightarrow>
          let len = min (length bs) sizeof_R2DI;
              response = R2DI_of (take sizeof_R2DI bs @ replicate (sizeof_R2DI - len) 0)
          in if len = sizeof_R2DI \<and> get (di_name response) = 0x52324449
             then answer_line (ntoa src) response else [])"

fun answer_loop :: "('src \<Rightarrow> string) \<Rightarrow> 'src wakeup list \<Rightarrow> u8 list \<Rightarrow> u8 list option" where
  "answer_loop ntoa [] out = None"
| "answer_loop ntoa (TimedOut # ws) out = Some out"
| "answer_loop ntoa (SelectFailed # ws) out = Some out"
| "answer_loop ntoa (Readable src d # ws) out = answer_loop ntoa ws (out @ handle_answer ntoa src d)"

definition banner :: "u8 list" where
  "banner = str_bytes ''Sent R2DD packet, waiting for responses...'' @ [0x0A]"

text \<open>
  The exit code, the datagram with its destination, and the output; \<open>None\<close>: still waiting after the
  wakeups given.
\<close>

definition discover_main :: "inet_pton \<Rightarrow> u8 list \<Rightarrow> ('src \<Rightarrow> string) \<Rightarrow> bool \<Rightarrow> bool \<Rightarrow> bool \<Rightarrow>
    'src wakeup list \<Rightarrow> (nat \<times> (u8 list \<times> u8 list \<times> u16) option \<times> u8 list) option" where
  "discover_main pton junk ntoa sock_ok bind_ok send_ok ws =
     (if \<not> sock_ok then Some (1, None, [])
      else if \<not> bind_ok then Some (1, None, [])
      else
        let pkt = R2DD_mem (probe pton junk);
            remote = (case pton ''10.255.255.255'' of Some bs \<Rightarrow> bs | None \<Rightarrow> [0, 0, 0, 0])
        in if \<not> send_ok then Some (1, None, [])
           else (case answer_loop ntoa ws banner of
                   None \<Rightarrow> None
                 | Some out \<Rightarrow> Some (0, Some (pkt, remote, UDP_PORT_CONFIG), out)))"

section \<open>What it prints\<close>

text \<open>An R2DI answer: 72 bytes or more, with the name in front.\<close>

definition is_answer :: "u8 list option \<Rightarrow> bool" where
  "is_answer d \<longleftrightarrow> (\<exists>bs. d = Some bs \<and> sizeof_R2DI \<le> length bs \<and> take 4 bs = str_bytes ''R2DI'')"

lemma name_is_R2DI:
  assumes "sizeof_R2DI \<le> length bs"
  shows "get (field_be (take sizeof_R2DI bs) 0 :: BE_u32) = 0x52324449 \<longleftrightarrow> take 4 bs = str_bytes ''R2DI''"
proof -
  have len: "length (take 4 bs) = 4" using assms by (simp add: sizeof_R2DI_def)
  have "(field_be (take sizeof_R2DI bs) 0 :: BE_u32) = be_of_mem (take 4 bs)"
    by (simp add: field_be_def sizeof_R2DI_def min_def)
  moreover have "be_mem (be_of_mem (take 4 bs) :: BE_u32) = take 4 bs"
    using len by (simp add: be_mem_of_mem)
  moreover have "be_mem (set_be 0x52324449 :: BE_u32) = str_bytes ''R2DI''"
    by (simp add: mem_eval str_bytes_def)
  moreover have "get x = v \<longleftrightarrow> x = set_be v" for x :: BE_u32 and v
    by (auto simp: set_get_be)
  ultimately show ?thesis by (metis be32.enc_inject)
qed

lemma handle_answer_cases:
  "handle_answer ntoa src d = (if is_answer d then answer_line (ntoa src) (R2DI_of (take sizeof_R2DI (the d))) else [])"
proof (cases d)
  case None
  then show ?thesis by (simp add: handle_answer_def is_answer_def)
next
  case (Some bs)
  have name: "di_name (R2DI_of cs) = field_be cs 0" for cs by (simp add: R2DI_of_def)
  show ?thesis
  proof (cases "sizeof_R2DI \<le> length bs")
    case True
    then show ?thesis
      using name_is_R2DI [OF True] by (simp add: handle_answer_def is_answer_def Some name min_absorb2)
  next
    case False
    then show ?thesis by (simp add: handle_answer_def is_answer_def Some)
  qed
qed

lemma answer_loop_answers:
  assumes "w = TimedOut \<or> w = SelectFailed"
  shows "answer_loop ntoa (map (\<lambda>(src, d). Readable src d) rs @ w # ws) out
    = Some (out @ concat (map (\<lambda>(src, d). handle_answer ntoa src d) rs))"
  using assms by (induction rs arbitrary: out) auto

lemma probe_bytes:
  assumes "pton ''10.0.1.102'' = Some [10, 0, 1, 102]"
  shows "R2DD_mem (probe pton junk) = str_bytes ''R2DD'' @ [10, 0, 1, 102, 0xD2, 0x32] @ replicate 34 0"
proof -
  have "ip_to_u32 pton junk ''10.0.1.102'' = 0x0A000166"
    using assms by (simp add: ip_to_u32_def mem_eval)
  moreover have "concat (map be_mem (replicate n (set_be 0 :: BE_u32))) = replicate (4 * n) 0" for n
    by (induction n) (simp_all add: mem_eval replicate_add replicate_4)
  moreover have "[0, 0] @ replicate 32 0 = (replicate 34 0 :: u8 list)"
    using replicate_add [of 2 32 "0 :: u8"] by (simp add: numeral_2_eq_2)
  ultimately show ?thesis
    by (simp add: R2DD_mem_def probe_def GUI_PORT_def mem_eval str_bytes_def)
qed

text \<open>
  C40: the discovery broadcasts one 44-byte packet, its name, address and port in network order,
  to the configuration port, and prints one line for each datagram that is an R2DI answer, in the
  order they come in, until \<open>select\<close> times out or fails; shorter datagrams and other packets are passed over.
\<close>

theorem discovery_prints_answers:
  assumes pton: "pton ''10.0.1.102'' = Some [10, 0, 1, 102]" "pton ''10.255.255.255'' = Some [10, 255, 255, 255]"
    and ends: "w = TimedOut \<or> w = SelectFailed"
  shows "discover_main pton junk ntoa True True True (map (\<lambda>(src, d). Readable src d) rs @ w # ws)
    = Some (0, Some (str_bytes ''R2DD'' @ [10, 0, 1, 102, 0xD2, 0x32] @ replicate 34 0, [10, 255, 255, 255], 0xD232),
        banner @ concat (map (\<lambda>(src, d). answer_line (ntoa src) (R2DI_of (take sizeof_R2DI (the d))))
          (filter (\<lambda>(src, d). is_answer d) rs)))"
proof -
  have "concat (map (\<lambda>(src, d). handle_answer ntoa src d) rs)
      = concat (map (\<lambda>(src, d). answer_line (ntoa src) (R2DI_of (take sizeof_R2DI (the d))))
          (filter (\<lambda>(src, d). is_answer d) rs))"
    by (induction rs) (auto simp: handle_answer_cases)
  then show ?thesis
    using pton(2)
    by (simp add: discover_main_def answer_loop_answers [OF ends] probe_bytes [of pton junk, OF pton(1)] UDP_PORT_CONFIG_def)
qed

definition sample_answer :: "u8 list" where
  "sample_answer = [0x52, 0x32, 0x44, 0x49, 0x31, 0x30, 0x30, 0, 0, 0, 0, 0, 0, 0, 0, 0,
     0x41, 0x42, 0, 0, 0, 0, 0, 0, 0, 0, 0, 0, 0x32, 0x30, 0x32, 0x34, 0, 0, 0, 0, 0, 0, 0, 0] @ replicate 32 0"

theorem discovery_prints_answers_witness:
  "\<exists>pkt. discover_main (\<lambda>s. if s = ''10.0.1.102'' then Some [10, 0, 1, 102]
         else if s = ''10.255.255.255'' then Some [10, 255, 255, 255] else None) [0, 0, 0, 0] (\<lambda>s. s) True True True
       [Readable ''10.0.0.86'' (Some sample_answer), Readable ''10.0.0.7'' (Some [1, 2]), TimedOut]
     = Some (0, Some pkt, banner @ str_bytes ''Response from 10.0.0.86: Serial: 100  Part: AB  Model: 2024'' @ [0x0A])
     \<and> length (fst pkt) = 44"
proof -
  have answers: "is_answer (Some sample_answer)" "\<not> is_answer (Some [1, 2])"
    by (simp_all add: is_answer_def sizeof_R2DI_def sample_answer_def str_bytes_def)
  have line: "answer_line ''10.0.0.86'' (R2DI_of (take sizeof_R2DI sample_answer))
      = str_bytes ''Response from 10.0.0.86: Serial: 100  Part: AB  Model: 2024'' @ [0x0A]"
    by (simp add: answer_line_def R2DI_of_def sizeof_R2DI_def sample_answer_def print_ascii_field_def
        str_bytes_def)
  show ?thesis
    using discovery_prints_answers [of "\<lambda>s. if s = ''10.0.1.102'' then Some [10, 0, 1, 102]
         else if s = ''10.255.255.255'' then Some [10, 255, 255, 255] else None" TimedOut "[0, 0, 0, 0]" "\<lambda>s. s"
        "[(''10.0.0.86'', Some sample_answer), (''10.0.0.7'', Some [1, 2])]" "[]"]
    by (simp add: answers line str_bytes_def)
qed

section \<open>The RTCM adapter\<close>

record 'h rtcm_message =
  rtcm_header :: 'h
  rtcm_data :: "u8 list"

record 'h io_packet =
  io_header :: 'h
  io_data :: "u8 list"

text \<open>The node: the topics of its subscription and its publisher with their depths, and what it has published.\<close>

record 'h adapter =
  sub_topic :: "string \<times> nat"
  pub_topic :: "string \<times> nat"
  adapter_out :: "'h io_packet list"

definition new_adapter :: "'h adapter" where
  "new_adapter = \<lparr>sub_topic = (''rtcm'', 10), pub_topic = (''rtcm/to_device'', 10), adapter_out = []\<rparr>"

definition rtcm_callback :: "'h rtcm_message \<Rightarrow> 'h adapter \<Rightarrow> 'h adapter" where
  "rtcm_callback msg ad =
     (let packet = \<lparr>io_header = rtcm_header msg, io_data = rtcm_data msg\<rparr>
      in ad\<lparr>adapter_out := adapter_out ad @ [packet]\<rparr>)"

text \<open>\<open>main\<close>: the callback on each message \<open>spin\<close> delivers until the shutdown, and the exit code.\<close>

definition rtcm_main :: "'h rtcm_message list \<Rightarrow> nat \<times> 'h adapter" where
  "rtcm_main msgs = (0, fold rtcm_callback msgs new_adapter)"

text \<open>Every message goes on once, in order, with its header and its bytes.\<close>

lemma rtcm_forwards:
  "map (\<lambda>p. (io_header p, io_data p)) (adapter_out (snd (rtcm_main msgs)))
   = map (\<lambda>m. (rtcm_header m, rtcm_data m)) msgs"
proof -
  have "map (\<lambda>p. (io_header p, io_data p)) (adapter_out (fold rtcm_callback msgs ad))
      = map (\<lambda>p. (io_header p, io_data p)) (adapter_out ad) @ map (\<lambda>m. (rtcm_header m, rtcm_data m)) msgs" for ad :: "'a adapter"
    by (induction msgs arbitrary: ad) (simp_all add: rtcm_callback_def)
  then show ?thesis by (simp add: rtcm_main_def new_adapter_def)
qed

end
