(* ===== verification/Spec2Isabelle.thy ===== *)
theory Spec2Isabelle
  imports Published Interleaving ImagePing ImageBounds PingErrors Tools
begin

text \<open>
  The \<open>ros2sonic\<close> driver (\<open>src/r2sonic\<close>): it receives the UDP packets of an R2Sonic multibeam sonar,
  converts them to ROS messages, and, in control mode, sends the sonar its configuration and its
  settings once a second. All of its C++ code is modelled but for logging, the calls into ROS and
  Boost, and the namespace headers.

  The parts and how they work together. A receiver (\<open>UdpReceiver\<close>, \<open>DatatypeReceiver\<close>) puts each
  datagram at the front of its buffer and lays a packet interpreter (\<open>BTH0\<close>, \<open>AID0\<close>) over it. The
  interpreter finds the sections (\<open>H0\<close>, \<open>R0\<close>, ...) by walking over their size fields. The \<open>publish\<close>
  handler of \<open>R2SonicNode\<close> for the packet's type locks its message buffers, converts the packet
  (\<open>conversions.cpp\<close>), publishes and unlocks. Bathymetry (BTH0) is one packet per ping; an acoustic
  image (AID0) is many, put together by an \<open>Aid02RawAiAssembler\<close> per ping in a map. The timer of the
  node sends the device configuration (\<open>R2DC\<close>) and the command tables (\<open>CmdSet\<close>), which
  \<open>onParameterUpdate\<close> changes at run time.

  The theories, in the order of the calls (paths under \<open>src/r2sonic/include/r2sonic\<close> unless said):
  \<^item> \<open>Prelude\<close>: machine types, exceptions and undefined behaviour as values (\<open>exn\<close>, \<open>'a res\<close>),
    checked reads of a buffer (\<open>rd\<close>), C arithmetic that may overflow (\<open>int_result\<close>).
  \<^item> \<open>Primitives\<close>: \<open>sections/primatives.hpp\<close>; the locale \<open>be_codec\<close> of fixed-width fields, interpreted on
    the 8, 16 and 32-bit big-endian types.
  \<^item> \<open>Floats\<close>: \<open>float\<close> and \<open>double\<close> as IEEE 754 bit patterns, one rounding per operation.
  \<^item> \<open>Sections\<close>, \<open>QualityFlags\<close>, \<open>Magnitudes\<close>: the section interpreters of \<open>sections/\<close>.
  \<^item> \<open>SectionChain\<close>: the walk over the sections; the locale \<open>section_layout\<close> of a packet type that lists its
    sections in order. \<open>Packets\<close>: \<open>packets/packet.hpp\<close>, \<open>bth0.hpp\<close>, \<open>aid0.hpp\<close>, which interpret it.
  \<^item> \<open>Messages\<close>: the fields of the ROS messages the driver assigns.
  \<^item> \<open>Conversions\<close>, \<open>BeamLoop\<close>, \<open>PingSpec\<close>, \<open>Detections\<close>, \<open>PingErrors\<close>: \<open>src/conversions.cpp\<close> for BTH0. \<open>bth0_beam\<close>
    is the loop body; \<open>ping_detections\<close> is the abstract description of the conversion, a pure function
    of the contents of the sections without buffer, pointers or accumulators.
  \<^item> \<open>Assembler\<close>, \<open>ImageTiles\<close>, \<open>Assembly\<close>, \<open>ImageBounds\<close>: \<open>addPacket\<close>, its loops as written, the overlay of
    rectangles (\<open>overlay\<close>) they refine, and the sections that leave the image.
  \<^item> \<open>StdMap\<close>: \<open>std::map\<close>; the locale \<open>ordered_map\<close>, interpreted on sorted association lists.
  \<^item> \<open>Commands\<close>, \<open>DeviceConfig\<close>: \<open>packets/cmd_packet.hpp\<close> and \<open>packets/r2dc.hpp\<close>, with parsers of the bytes.
  \<^item> \<open>Parameters\<close>, \<open>ParameterRules\<close>, \<open>ParameterSpec\<close>: \<open>R2SonicNode::Parameters\<close>, \<open>init\<close>, \<open>onParameterUpdate\<close>; the
    abstract description of a batch of updates is \<open>set_parameters\<close>.
  \<^item> \<open>Control\<close>: \<open>sendUdpMessage\<close> (the locale \<open>serializable\<close>, interpreted on both packet types) and the
    timer callback \<open>send_cmds\<close>.
  \<^item> \<open>Node\<close>, \<open>NodePublish\<close>: the message buffers, the mutexes and the two \<open>publish\<close> handlers; the locale
    \<open>thread_part\<close> of a thread that keeps to its part of the node, interpreted on both threads.
  \<^item> \<open>ImagePing\<close>: an image from its header packet to its publication. \<open>Interleaving\<close>: the handlers as
    sequences of statements (\<open>bth0_code\<close>, \<open>aid0_code\<close>) that two threads run at once, for one packet after
    the other. \<open>code_in\<close> says of code that its statements run the same after some changes of the node
    and keep what some functions show.
  \<^item> \<open>Runs\<close>: runs of a labelled step relation, and the locale \<open>simulation\<close> between two of them, interpreted
    in both directions between the two descriptions of the program, which follow.
  \<^item> \<open>Receiver\<close>, \<open>System\<close>: \<open>src/udp_receiver.cpp\<close>, \<open>src/datatype_receiver.cpp\<close> and \<open>nodes/r2sonic_node.cpp\<close>
    with handlers that run as one step: the phases of a receiver thread, the step relation \<open>sys_step\<close> from
    the start to the joining of the threads, and its invariant \<open>sys_ok\<close>. A step is labelled with the event
    a receiver is handed (\<open>sys_label\<close>); \<open>sys_move\<close> forgets the labels and \<open>sys_run\<close> collects them.
    \<open>Reception\<close>: what one receiver contributes to such a run.
  \<^item> \<open>Threads\<close>: the same program statement by statement (\<open>thread_step\<close>): each receiver is at nothing or at a
    datagram with the statements left to run, and any thread may go on. It refines \<open>sys_step\<close>.
  \<^item> \<open>ThreadStates\<close>, \<open>Received\<close>, \<open>Published\<close>: what holds of the threads: the invariant \<open>threads_ok\<close>, receive
    errors, the shutdown, the pings and images that go through the whole program, and the types of the
    published messages.
  \<^item> \<open>Tools\<close>: \<open>nodes/discover.cpp\<close> and \<open>nodes/rtcm_converter.cpp\<close>.

  State. A buffer is the list of its bytes and a pointer into it an offset; a section or packet object
  is its class with such a pointer. A \<open>node\<close> has the parameters, one boolean per publisher that
  exists, the buffered messages, the assemblers by ping number, one boolean per mutex and the
  messages published so far. A handler is an action \<open>node => ('a res * node) option\<close>: \<open>None\<close> when it
  does not return (a held mutex, an endless loop), an exception together with the state it leaves
  behind, or a result.

  What the lemmas show. \<open>Packets\<close>: packets with any choice of sections are parsed back, arbitrary
  bytes are walked inside the buffer. \<open>PingSpec\<close> and
  \<open>Detections\<close>: the conversion of a complete packet computes the message its sections mean, and what every
  array entry of a message returned for any bytes is.
  \<open>PingErrors\<close>: BTH0 conversion has no exceptions. \<open>Assembly\<close>: sections in any order and partition
  give the image. \<open>NodePublish\<close>: what a handler publishes. \<open>ImagePing\<close>: the packets of an image make the node
  publish exactly that image, and what becomes of a section that comes after the one with the last bin
  and of a header packet with its sections in another order. \<open>Interleaving\<close>: every interleaving of the
  statements of the two threads, over any sequences of packets, ends as one thread after the other does. \<open>ParameterRules\<close>: what \<open>init\<close>
  establishes and updates keep. \<open>ParameterSpec\<close>: a batch of updates, with its rejections and exceptions,
  sets every entry to the last acceptable value, and when it is accepted. \<open>Control\<close>: after any such batch the bytes sent parse back
  to these values. \<open>Threads\<close>: every run of the threads is matched by a run of the handlers, so in every run
  a receiver publishes what its handler makes of its own datagrams. \<open>ThreadStates\<close>: the invariant of every
  reachable state, the silence after a receive error, and when a shutdown can come to its end.
  \<open>Received\<close>: every clean ping and every image that arrives in a run is published, once and in order.
  \<open>Published\<close>: every message published is well formed. Several theorems state
  where the code falls short: sections taken from stale bytes, image sections that never end or
  read outside, exceptions that leave mutexes locked, rejected updates that stay in force, a
  receiver that is silent after an error.

  Bounds. The receive buffer has 262144 bytes. A walk over \<open>n\<close> sections moves at most \<open>65535 * n\<close>
  bytes, so three size fields (AID0, and the first four accessors of BTH0) stay inside it. Counters have the widths
  of the source: beams 16 bits, bins 32 bits, image positions \<open>int\<close>. The beam loop of \<open>addPacket\<close> is a
  \<open>partial_function\<close>, whose value \<open>None\<close> is a loop that never ends; no fuel is used.

  Parameters of the model. \<open>pton\<close> (\<open>inet_pton\<close>), \<open>env\<close> (Boost's address parser and whether a datagram
  goes out), \<open>decl\<close> (the parameter service at start), \<open>what\<close> (the text of a conversion error), \<open>mem\<close>
  (what uninitialised members and buffers hold), \<open>ntoa\<close>. Theorems that need \<open>pton\<close> or \<open>env\<close> to accept an
  address say so in a hypothesis.

  Not modelled: logging, the transport inside ROS and Boost (a published event is the call of \<open>publish\<close>, a
  datagram of the outbox the call of \<open>send_to\<close>), and the namespace headers and include lists
  (\<open>package_defs.hpp\<close>, \<open>packets/all.hpp\<close>, \<open>*_defs.hpp\<close>), which hold no code. In \<open>sys_step\<close> a handler
  that never returns is the phase \<open>Waiting\<close> of its receiver, without the state it has reached; in \<open>thread_step\<close>
  it stays at the statement that blocks or loops, with the node as the statements before it have left it.
  A statement is a statement of \<open>publish\<close>: the conversion functions it calls work on messages that the
  mutexes protect, or, for the assemblers, that only one thread uses, and are one step each. The timer and
  the parameter callback share a thread and are one step each. An exception that leaves a thread ends the
  process, so what it has left behind in an assembler is not kept. The frame id is read from
  parameters no update changes. Fields of a section may be read at any alignment, as the packed attribute
  asks for, on a little-endian machine.
\<close>

end
